(* ===== verification/Reachability.thy ===== *)
theory Reachability
  imports Main
begin

text \<open>
  Transition systems: what holds of one step holds of every sequence of steps. The ledger, the
  daemon and the pool of its requests are instances.
\<close>

section \<open>Invariants\<close>

locale preserved =
  fixes step :: "'s \<Rightarrow> 's \<Rightarrow> bool" and inv :: "'s \<Rightarrow> bool"
  assumes step_inv: "step s t \<Longrightarrow> inv s \<Longrightarrow> inv t"
begin

lemma steps_inv: "step\<^sup>*\<^sup>* s t \<Longrightarrow> inv s \<Longrightarrow> inv t"
  by (induction rule: rtranclp_induct) (auto intro: step_inv)

end

section \<open>A view that only grows\<close>

locale growing = preserved +
  fixes view :: "'a \<Rightarrow> 'k \<Rightarrow> 'v option"
  assumes step_grows: "step s t \<Longrightarrow> inv s \<Longrightarrow> view s \<subseteq>\<^sub>m view t"
begin

lemma steps_grow: "step\<^sup>*\<^sup>* s t \<Longrightarrow> inv s \<Longrightarrow> view s \<subseteq>\<^sub>m view t"
proof (induction rule: rtranclp_induct)
  case (step y z)
  then show ?case using steps_inv step_grows by (blast intro: map_le_trans)
qed simp

lemma steps_keep: "step\<^sup>*\<^sup>* s t \<Longrightarrow> inv s \<Longrightarrow> view s k = Some v \<Longrightarrow> view t k = Some v"
  using steps_grow unfolding map_le_def by (metis domI)

end

section \<open>Refinement\<close>

text \<open>
  A concrete system refines an abstract one under an abstraction function when every concrete
  step is a sequence of abstract steps, none included. The square may use the abstract invariant,
  which holds in every state that is reached.
\<close>

locale refinement = preserved astep ainv
  for astep :: "'a \<Rightarrow> 'a \<Rightarrow> bool" and ainv :: "'a \<Rightarrow> bool" +
  fixes step :: "'s \<Rightarrow> 's \<Rightarrow> bool" and abs_of :: "'s \<Rightarrow> 'a"
  assumes square: "step s t \<Longrightarrow> ainv (abs_of s) \<Longrightarrow> astep\<^sup>*\<^sup>* (abs_of s) (abs_of t)"
begin

lemma steps_refine: "step\<^sup>*\<^sup>* s t \<Longrightarrow> ainv (abs_of s) \<Longrightarrow> astep\<^sup>*\<^sup>* (abs_of s) (abs_of t)"
proof (induction rule: rtranclp_induct)
  case (step y z)
  then have y: "astep\<^sup>*\<^sup>* (abs_of s) (abs_of y)" by simp
  with step.prems have "ainv (abs_of y)" by (rule steps_inv [rotated])
  with step.hyps(2) have "astep\<^sup>*\<^sup>* (abs_of y) (abs_of z)" by (rule square)
  with y show ?case by (rule rtranclp_trans)
qed simp

lemma refined_inv: "step\<^sup>*\<^sup>* s t \<Longrightarrow> ainv (abs_of s) \<Longrightarrow> ainv (abs_of t)"
  using steps_refine steps_inv by blast

end

end
