(* ===== verification/Pool.thy ===== *)
theory Pool
  imports Reachability
begin

text \<open>
  Tasks that run interleaved over a shared state: one step is an action of one task, an action of
  the surroundings, or the arrival of a new task. The interface below is the rely-guarantee rule
  for such a pool; the requests of the daemon are its instance.
\<close>

inductive pool_step ::
    "('s \<Rightarrow> 't \<Rightarrow> 's \<Rightarrow> 't \<Rightarrow> bool) \<Rightarrow> ('s \<Rightarrow> 's \<Rightarrow> bool) \<Rightarrow> ('t \<Rightarrow> bool)
       \<Rightarrow> 's \<times> 't list \<Rightarrow> 's \<times> 't list \<Rightarrow> bool" for act env_act arrives where
  act: "i < length ts \<Longrightarrow> act s (ts ! i) s' t' \<Longrightarrow> pool_step act env_act arrives (s, ts) (s', ts[i := t'])"
| env: "env_act s s' \<Longrightarrow> pool_step act env_act arrives (s, ts) (s', ts)"
| arrive: "arrives t \<Longrightarrow> pool_step act env_act arrives (s, ts) (s, ts @ [t])"

inductive_cases pool_stepE: "pool_step act env_act arrives p p'"

text \<open>
  \<open>ok\<close> is the invariant of the shared state, \<open>task_ok\<close> what a task relies on, and \<open>stays\<close> what
  every action guarantees to the other tasks.
\<close>

locale interleaving =
  fixes act :: "'s \<Rightarrow> 't \<Rightarrow> 's \<Rightarrow> 't \<Rightarrow> bool" and env_act :: "'s \<Rightarrow> 's \<Rightarrow> bool" and arrives :: "'t \<Rightarrow> bool"
    and ok :: "'s \<Rightarrow> bool" and task_ok :: "'s \<Rightarrow> 't \<Rightarrow> bool" and stays :: "'s \<Rightarrow> 's \<Rightarrow> bool"
  assumes act_ok: "act s t s' t' \<Longrightarrow> ok s \<Longrightarrow> task_ok s t \<Longrightarrow> ok s' \<and> task_ok s' t' \<and> stays s s'"
    and env_ok: "env_act s s' \<Longrightarrow> ok s \<Longrightarrow> ok s' \<and> stays s s'"
    and arrives_ok: "arrives t \<Longrightarrow> task_ok s t"
    and stable: "stays s s' \<Longrightarrow> task_ok s t \<Longrightarrow> task_ok s' t"
    and stays_refl: "stays s s"
    and stays_trans: "stays s s' \<Longrightarrow> stays s' s'' \<Longrightarrow> stays s s''"
begin

definition pool_ok :: "'s \<times> 't list \<Rightarrow> bool" where
  "pool_ok p \<longleftrightarrow> ok (fst p) \<and> (\<forall>t\<in>set (snd p). task_ok (fst p) t)"

lemma pool_step_ok:
  assumes "pool_step act env_act arrives p p'" "pool_ok p"
  shows "pool_ok p' \<and> stays (fst p) (fst p')"
  using assms(1)
proof cases
  case (act i ts s s' t')
  have "task_ok s (ts ! i)" using assms(2) act by (simp add: pool_ok_def)
  with act_ok [OF act(4)] assms(2) act(1)
  have s': "ok s'" "task_ok s' t'" "stays s s'" by (simp_all add: pool_ok_def)
  have "task_ok s' t" if "t \<in> set (ts[i := t'])" for t
    using that set_update_subset_insert [of ts i t'] s' assms(2) act(1) stable [OF s'(3)]
    by (auto simp: pool_ok_def)
  with s' show ?thesis using act(1,2) by (simp add: pool_ok_def)
next
  case (env s s' ts)
  with assms(2) env_ok [of s s'] stable [of s s'] show ?thesis by (auto simp: pool_ok_def)
next
  case (arrive t s ts)
  with assms(2) arrives_ok [of t s] stays_refl show ?thesis by (auto simp: pool_ok_def)
qed

lemma pool_steps_ok:
  "(pool_step act env_act arrives)\<^sup>*\<^sup>* p p' \<Longrightarrow> pool_ok p \<Longrightarrow> pool_ok p' \<and> stays (fst p) (fst p')"
proof (induction rule: rtranclp_induct)
  case base
  then show ?case using stays_refl by simp
next
  case (step y z)
  then show ?case using pool_step_ok stays_trans by blast
qed

end

sublocale interleaving \<subseteq> preserved "pool_step act env_act arrives" pool_ok
  by unfold_locales (simp add: pool_step_ok)

section \<open>One task on its own\<close>

text \<open>Actions of one task, with actions of the surroundings in between.\<close>

inductive solo :: "('s \<Rightarrow> 't \<Rightarrow> 's \<Rightarrow> 't \<Rightarrow> bool) \<Rightarrow> ('s \<Rightarrow> 's \<Rightarrow> bool) \<Rightarrow> 's \<times> 't \<Rightarrow> 's \<times> 't \<Rightarrow> bool"
  for act env_act where
  stop: "solo act env_act p p"
| act: "act s t s' t' \<Longrightarrow> solo act env_act (s', t') p \<Longrightarrow> solo act env_act (s, t) p"
| env: "env_act s s' \<Longrightarrow> solo act env_act (s', t) p \<Longrightarrow> solo act env_act (s, t) p"

lemma solo_trans: "solo act env_act p q \<Longrightarrow> solo act env_act q r \<Longrightarrow> solo act env_act p r"
  by (induction rule: solo.induct) (auto intro: solo.intros)

lemma solo_in_pool:
  assumes "solo act env_act p q" "i < length ts" "ts ! i = snd p"
  shows "(pool_step act env_act arrives)\<^sup>*\<^sup>* (fst p, ts) (fst q, ts[i := snd q])"
  using assms
proof (induction arbitrary: ts)
  case (stop p)
  then show ?case by (metis list_update_id rtranclp.rtrancl_refl)
next
  case (act s t s' t' p)
  have "pool_step act env_act arrives (s, ts) (s', ts[i := t'])"
    using act by (intro pool_step.act) simp_all
  moreover have "(pool_step act env_act arrives)\<^sup>*\<^sup>* (s', ts[i := t']) (fst p, ts[i := t', i := snd p])"
    using act.IH [of "ts[i := t']"] act.prems by simp
  ultimately show ?case by (simp add: converse_rtranclp_into_rtranclp)
next
  case (env s s' t p)
  have "pool_step act env_act arrives (s, ts) (s', ts)" using env(1) by (rule pool_step.env)
  moreover have "(pool_step act env_act arrives)\<^sup>*\<^sup>* (s', ts) (fst p, ts[i := snd p])"
    using env.IH env.prems by simp
  ultimately show ?case by (simp add: converse_rtranclp_into_rtranclp)
qed

end
