(* ===== verification/Prelude.thy ===== *)
theory Prelude
  imports Main "HOL-Library.Word" "HOL-Library.AList" "HOL-Library.Char_ord"
    "HOL-Library.List_Lexorder" "HOL-Library.Product_Lexorder" "HOL-Library.Sublist"
begin

unbundle bit_operations_syntax

text \<open>
  What every component of the model shares: machine integers, byte strings, the
  \<open>anyhow::Result\<close> of the daemon with its \<open>?\<close> operator, hash maps and SQL tables as
  association lists, and the generic lemmas about them.

  Strings and byte vectors are both \<open>string\<close> (a list of 8-bit characters): a Rust
  \<open>String\<close> is its UTF-8 bytes, so \<open>as_bytes\<close> and \<open>into_bytes\<close> are the identity and
  \<open>len\<close> counts bytes. The order on \<open>string\<close> is lexicographic on bytes, which is the
  order of \<open>String\<close>, of \<open>BTreeMap<String, _>\<close> and of SQLite's BINARY collation.
\<close>

named_theorems result_simps \<open>the ? operator and the loops that thread it\<close>
named_theorems table_simps \<open>lookups after updates of association lists\<close>

section \<open>Types\<close>

type_synonym u8 = "8 word"
type_synonym u32 = "32 word"
type_synonym u64 = "64 word"
type_synonym i32 = "32 word"
type_synonym i64 = "64 word"
type_synonym bytes = string

text \<open>
  An \<open>anyhow::Error\<close> is modelled by the message that \<open>to_string\<close> prints: the HTTP and
  gRPC layers classify errors by searching that message.
\<close>

datatype anyhow = Anyhow (message: string)

type_synonym 'a result = "anyhow + 'a"

text \<open>A handler that awaits a full subscriber queue may never return: \<open>Blocked\<close>.\<close>

datatype 'a outcome = Done 'a | Failed anyhow | Blocked

section \<open>The ? operator\<close>

fun and_then :: "'e + 'a \<Rightarrow> ('a \<Rightarrow> 'e + 'b) \<Rightarrow> 'e + 'b" where
  "and_then (Inl e) f = Inl e"
| "and_then (Inr x) f = f x"

lemma and_then_Inr_iff [result_simps]:
  "and_then r f = Inr y \<longleftrightarrow> (\<exists>x. r = Inr x \<and> f x = Inr y)"
  by (cases r) auto

lemma and_then_Inl_iff [result_simps]:
  "and_then r f = Inl e \<longleftrightarrow> r = Inl e \<or> (\<exists>x. r = Inr x \<and> f x = Inl e)"
  by (cases r) auto

lemma and_then_cong [fundef_cong]:
  assumes "r = r'" and "\<And>x. r' = Inr x \<Longrightarrow> f x = f' x"
  shows "and_then r f = and_then r' f'"
  using assms by (cases r') auto

definition is_ok :: "'e + 'a \<Rightarrow> bool" where
  "is_ok r = (case r of Inl _ \<Rightarrow> False | Inr _ \<Rightarrow> True)"

lemma is_ok_simps [simp]: "is_ok (Inr x)" "\<not> is_ok (Inl e)"
  by (simp_all add: is_ok_def)

lemma is_okE: "is_ok r \<Longrightarrow> (\<And>x. r = Inr x \<Longrightarrow> P) \<Longrightarrow> P"
  by (cases r) auto

text \<open>A fault of the environment, raised before the operation has any effect.\<close>

definition guard_fault :: "anyhow option \<Rightarrow> unit result" where
  "guard_fault f = (case f of None \<Rightarrow> Inr () | Some e \<Rightarrow> Inl e)"

lemma guard_fault_simps [simp]: "guard_fault None = Inr ()" "guard_fault (Some e) = Inl e"
  by (simp_all add: guard_fault_def)

text \<open>\<open>Option::unwrap_or\<close>, \<open>unwrap_or_default\<close> and \<open>unwrap_or_else\<close> on a pure default.\<close>

fun unwrap_or :: "'a \<Rightarrow> 'a option \<Rightarrow> 'a" where
  "unwrap_or d None = d"
| "unwrap_or d (Some x) = x"

section \<open>Strings\<close>

text \<open>\<open>str::strip_suffix('*')\<close>, \<open>str::starts_with\<close>, \<open>str::contains\<close>, \<open>str::strip_prefix\<close>.\<close>

definition strip_suffix_char :: "char \<Rightarrow> string \<Rightarrow> string option" where
  "strip_suffix_char c s = (if s \<noteq> [] \<and> last s = c then Some (butlast s) else None)"

definition strip_prefix :: "string \<Rightarrow> string \<Rightarrow> string option" where
  "strip_prefix p s = (if prefix p s then Some (drop (length p) s) else None)"

fun contains :: "string \<Rightarrow> string \<Rightarrow> bool" where
  "contains n [] = (n = [])"
| "contains n (c # cs) = (prefix n (c # cs) \<or> contains n cs)"

lemma strip_suffix_char_Some [simp]:
  "strip_suffix_char c s = Some p \<longleftrightarrow> s = p @ [c]"
  by (cases s rule: rev_cases) (auto simp: strip_suffix_char_def)

lemma strip_suffix_char_snoc [simp]: "strip_suffix_char c (p @ [c]) = Some p"
  by (simp add: strip_suffix_char_def)

lemma strip_suffix_char_None:
  "strip_suffix_char c s = None \<longleftrightarrow> (\<forall>p. s \<noteq> p @ [c])"
  by (cases s rule: rev_cases) (auto simp: strip_suffix_char_def)

lemma strip_prefix_Some [simp]: "strip_prefix p s = Some r \<longleftrightarrow> s = p @ r"
  by (auto simp: strip_prefix_def prefix_def)

lemma contains_iff: "contains n s \<longleftrightarrow> (\<exists>xs ys. s = xs @ n @ ys)"
proof (induction s)
  case (Cons c cs)
  show ?case
  proof
    assume "contains n (c # cs)"
    then consider "prefix n (c # cs)" | "contains n cs" by auto
    then show "\<exists>xs ys. c # cs = xs @ n @ ys"
    proof cases
      case 1
      then show ?thesis by (metis append_Nil prefix_def)
    next
      case 2
      then show ?thesis using Cons.IH by (metis append_Cons)
    qed
  next
    assume "\<exists>xs ys. c # cs = xs @ n @ ys"
    then obtain xs ys where eq: "c # cs = xs @ n @ ys" by blast
    show "contains n (c # cs)"
    proof (cases xs)
      case Nil
      with eq have "prefix n (c # cs)" by (auto simp: prefix_def)
      then show ?thesis by simp
    next
      case (Cons x xs')
      with eq have "\<exists>xs ys. cs = xs @ n @ ys" by auto
      with Cons.IH show ?thesis by simp
    qed
  qed
qed auto

lemma contains_append1 [simp]: "contains n s \<Longrightarrow> contains n (t @ s)"
  by (auto simp: contains_iff) (metis append.assoc)

lemma contains_append2 [simp]: "contains n s \<Longrightarrow> contains n (s @ t)"
  by (auto simp: contains_iff) (metis append.assoc)

lemma contains_self [simp]: "contains n n"
  by (auto simp: contains_iff intro: exI [of _ "[]"])

text \<open>Decimal rendering of an unsigned integer (\<open>Display\<close> for \<open>usize\<close>, \<open>u64\<close>).\<close>

definition digit_char :: "nat \<Rightarrow> char" where
  "digit_char d = char_of (48 + d)"

fun show_nat :: "nat \<Rightarrow> string" where
  "show_nat n = (if n < 10 then [digit_char n] else show_nat (n div 10) @ [digit_char (n mod 10)])"

declare show_nat.simps [simp del]

lemma show_nat_not_Nil [simp]: "show_nat n \<noteq> []"
  by (subst show_nat.simps) simp

text \<open>\<open>Display\<close> for \<open>i64\<close>.\<close>

definition show_int :: "int \<Rightarrow> string" where
  "show_int i = (if i < 0 then CHR ''-'' # show_nat (nat (- i)) else show_nat (nat i))"

text \<open>\<open>str::to_ascii_lowercase\<close>.\<close>

definition lower_char :: "char \<Rightarrow> char" where
  "lower_char c = (let n = (of_char c :: nat) in if 65 \<le> n \<and> n \<le> 90 then char_of (n + 32) else c)"

definition to_ascii_lowercase :: "string \<Rightarrow> string" where
  "to_ascii_lowercase = map lower_char"

lemma digit_chars:
  "digit_char 0 = CHR ''0''" "digit_char (Suc 0) = CHR ''1''" "digit_char 2 = CHR ''2''"
  "digit_char 3 = CHR ''3''" "digit_char 4 = CHR ''4''" "digit_char 5 = CHR ''5''"
  "digit_char 6 = CHR ''6''" "digit_char 7 = CHR ''7''" "digit_char 8 = CHR ''8''"
  "digit_char 9 = CHR ''9''"
  by code_simp+

text \<open>\<open>slice::join\<close>.\<close>

fun join :: "string \<Rightarrow> string list \<Rightarrow> string" where
  "join sep [] = []"
| "join sep [x] = x"
| "join sep (x # y # ys) = x @ sep @ join sep (y # ys)"

section \<open>Tables: hash maps and SQL tables as association lists\<close>

text \<open>
  A \<open>HashMap\<close> is an association list with distinct keys; its iteration order, which Rust
  leaves unspecified, is the order of the list, so a theorem about every list is a theorem
  about every order. \<open>INSERT OR IGNORE\<close>, \<open>INSERT OR REPLACE\<close> and the upsert
  \<open>ON CONFLICT DO UPDATE\<close> on a table with a primary key are the three updates below.
\<close>

type_synonym ('k, 'v) table = "('k \<times> 'v) list"

abbreviation keys :: "('k, 'v) table \<Rightarrow> 'k list" where
  "keys t \<equiv> map fst t"

definition insert_or_ignore :: "'k \<Rightarrow> 'v \<Rightarrow> ('k, 'v) table \<Rightarrow> ('k, 'v) table" where
  "insert_or_ignore k v t = (if k \<in> set (keys t) then t else t @ [(k, v)])"

definition insert_or_replace :: "'k \<Rightarrow> 'v \<Rightarrow> ('k, 'v) table \<Rightarrow> ('k, 'v) table" where
  "insert_or_replace k v t = AList.delete k t @ [(k, v)]"

lemma map_of_append_None [table_simps]:
  "map_of (t @ u) k = (case map_of t k of None \<Rightarrow> map_of u k | Some v \<Rightarrow> Some v)"
  by (induction t) auto

lemma map_of_Some_in_keys: "map_of t k = Some v \<Longrightarrow> k \<in> set (keys t)"
  by (induction t) (auto split: if_splits)

lemma in_keys_map_of: "k \<in> set (keys t) \<Longrightarrow> \<exists>v. map_of t k = Some v"
  by (induction t) auto

lemma map_of_None_iff_keys: "map_of t k = None \<longleftrightarrow> k \<notin> set (keys t)"
  by (induction t) auto

lemma map_of_insert_or_ignore [table_simps]:
  "map_of (insert_or_ignore k v t) j =
     (if j = k then Some (unwrap_or v (map_of t k)) else map_of t j)"
proof (cases "k \<in> set (keys t)")
  case True
  then show ?thesis using in_keys_map_of [OF True]
    by (auto simp: insert_or_ignore_def)
next
  case False
  then have "map_of t k = None" by (simp only: map_of_None_iff_keys not_False_eq_True)
  with False show ?thesis
    by (simp add: insert_or_ignore_def map_of_append_None del: map_of_append split: option.splits)
qed

lemma map_of_insert_or_replace [table_simps]:
  "map_of (insert_or_replace k v t) j = (if j = k then Some v else map_of t j)"
  by (simp add: insert_or_replace_def map_of_append_None AList.delete_conv'
      del: map_of_append split: option.splits)

lemma map_of_update [table_simps]:
  "map_of (AList.update k v t) j = (if j = k then Some v else map_of t j)"
  by (simp add: AList.update_conv')

lemma set_keys_insert_or_ignore [table_simps]:
  "set (keys (insert_or_ignore k v t)) = insert k (set (keys t))"
  by (auto simp: insert_or_ignore_def)

lemma distinct_insert_or_ignore [simp]:
  "distinct (keys t) \<Longrightarrow> distinct (keys (insert_or_ignore k v t))"
  by (auto simp: insert_or_ignore_def)

lemma distinct_keys_update [simp]:
  "distinct (keys t) \<Longrightarrow> distinct (keys (AList.update k v t))"
  by (simp add: AList.distinct_update)

lemma set_keys_update [table_simps]:
  "set (keys (AList.update k v t)) = insert k (set (keys t))"
  by (induction t) auto

section \<open>Lists\<close>

lemma find_split:
  "List.find P xs = Some x \<longleftrightarrow> (\<exists>us vs. xs = us @ x # vs \<and> P x \<and> (\<forall>y\<in>set us. \<not> P y))"
proof (induction xs)
  case (Cons z zs)
  show ?case
  proof (cases "P z")
    case True
    then show ?thesis by (auto simp: Cons_eq_append_conv)
  next
    case False
    then have "List.find P (z # zs) = Some x \<longleftrightarrow>
        (\<exists>us vs. zs = us @ x # vs \<and> P x \<and> (\<forall>y\<in>set us. \<not> P y))"
      using Cons.IH by simp
    also have "\<dots> \<longleftrightarrow> (\<exists>us vs. z # zs = us @ x # vs \<and> P x \<and> (\<forall>y\<in>set us. \<not> P y))"
    proof
      assume "\<exists>us vs. zs = us @ x # vs \<and> P x \<and> (\<forall>y\<in>set us. \<not> P y)"
      then obtain us vs where "zs = us @ x # vs" "P x" "\<forall>y\<in>set us. \<not> P y" by blast
      with False have "z # zs = (z # us) @ x # vs" "\<forall>y\<in>set (z # us). \<not> P y" by auto
      with \<open>P x\<close> show "\<exists>us vs. z # zs = us @ x # vs \<and> P x \<and> (\<forall>y\<in>set us. \<not> P y)" by blast
    qed (use False in \<open>auto simp: Cons_eq_append_conv\<close>)
    finally show ?thesis .
  qed
qed simp

lemma takeWhile_before: "t \<notin> set us \<Longrightarrow> takeWhile (\<lambda>x. x \<noteq> t) (us @ t # vs) = us"
  by (induction us) auto

text \<open>
  A bounded \<open>VecDeque\<close>: when it is full the oldest element goes before the new one comes. It
  holds the last elements that were pushed.
\<close>

definition push_bounded :: "nat \<Rightarrow> 'a \<Rightarrow> 'a list \<Rightarrow> 'a list" where
  "push_bounded n e window = (if length window = n then drop 1 window else window) @ [e]"

definition latest :: "nat \<Rightarrow> 'a list \<Rightarrow> 'a list" where
  "latest n xs = drop (length xs - n) xs"

lemma latest_Nil [simp]: "latest n [] = []"
  by (simp add: latest_def)

lemma length_latest [simp]: "length (latest n xs) = min n (length xs)"
  by (simp add: latest_def)

lemma latest_snoc:
  assumes "0 < n"
  shows "latest n (xs @ [x]) = push_bounded n x (latest n xs)"
proof (cases "n \<le> length xs")
  case True
  then have "length xs + 1 - n = Suc (length xs - n)" "Suc (length xs - n) \<le> length xs"
    using assms by simp_all
  then show ?thesis using True by (simp add: latest_def push_bounded_def)
next
  case False
  then show ?thesis by (simp add: latest_def push_bounded_def)
qed

end
