(* ===== verification/Json.thy ===== *)
theory Json
  imports Complex_Main Prelude
begin

text \<open>
  The values of \<open>serde_json\<close> that the daemon inspects: \<open>Value\<close>, its \<open>Number\<close> and its
  \<open>Map<String, Value>\<close>. The crate is built without \<open>preserve_order\<close> (Cargo.lock), so
  \<open>Map\<close> is a \<open>BTreeMap\<close>: an association list with strictly increasing keys, iterated in
  key order. A finite \<open>f64\<close> is carried as the rational it denotes; the sign of zero is
  not kept, which agrees with \<open>==\<close> on \<open>f64\<close>. Parsing and printing are not modelled
  here: they are parameters of the components that call them.
\<close>

section \<open>Values\<close>

datatype json_number = PosInt u64 | NegInt i64 | Float rat

datatype json =
    JNull
  | JBool bool
  | JNum json_number
  | JStr string
  | JArr "json list"
  | JObj "(string \<times> json) list"

type_synonym json_map = "(string \<times> json) list"

text \<open>\<open>Number::as_i64\<close>, \<open>Value::as_str\<close>, \<open>Value::as_object\<close>, \<open>Value::is_object\<close>.\<close>

fun as_i64 :: "json_number \<Rightarrow> int option" where
  "as_i64 (PosInt n) = (if unat n < 2 ^ 63 then Some (uint n) else None)"
| "as_i64 (NegInt n) = Some (sint n)"
| "as_i64 (Float _) = None"

fun as_str :: "json \<Rightarrow> string option" where
  "as_str (JStr s) = Some s"
| "as_str _ = None"

fun as_object :: "json \<Rightarrow> json_map option" where
  "as_object (JObj m) = Some m"
| "as_object _ = None"

fun is_object :: "json \<Rightarrow> bool" where
  "is_object (JObj _) = True"
| "is_object _ = False"

text \<open>A \<open>usize\<close> or \<open>u64\<close> serialises as a positive integer.\<close>

definition json_of_nat :: "nat \<Rightarrow> json" where
  "json_of_nat n = JNum (PosInt (of_nat n))"

section \<open>The ordered map\<close>

fun btree_insert :: "string \<Rightarrow> 'v \<Rightarrow> (string \<times> 'v) list \<Rightarrow> (string \<times> 'v) list" where
  "btree_insert k v [] = [(k, v)]"
| "btree_insert k v ((j, w) # m) =
     (if k = j then (k, v) # m
      else if k < j then (k, v) # (j, w) # m
      else (j, w) # btree_insert k v m)"

definition btree_remove :: "string \<Rightarrow> (string \<times> 'v) list \<Rightarrow> (string \<times> 'v) list" where
  "btree_remove k m = filter (\<lambda>kv. fst kv \<noteq> k) m"

definition sorted_keys :: "(string \<times> 'v) list \<Rightarrow> bool" where
  "sorted_keys m = sorted_wrt (<) (keys m)"

text \<open>A map built from the fields of a \<open>json!\<close> literal.\<close>

definition json_object :: "(string \<times> json) list \<Rightarrow> json" where
  "json_object kvs = JObj (fold (\<lambda>(k, v). btree_insert k v) kvs [])"

lemma sorted_keys_Nil [simp]: "sorted_keys []"
  by (simp add: sorted_keys_def)

lemma sorted_keys_Cons [simp]:
  "sorted_keys ((k, v) # m) \<longleftrightarrow> (\<forall>j\<in>set (keys m). k < j) \<and> sorted_keys m"
  by (simp add: sorted_keys_def)

lemma map_of_btree_insert [table_simps]:
  "map_of (btree_insert k v m) j = (if j = k then Some v else map_of m j)"
  by (induction k v m rule: btree_insert.induct) auto

lemma set_keys_btree_insert [simp]:
  "fst ` set (btree_insert k v m) = insert k (fst ` set m)"
  by (induction k v m rule: btree_insert.induct) auto

lemma sorted_keys_btree_insert [simp]:
  "sorted_keys m \<Longrightarrow> sorted_keys (btree_insert k v m)"
  by (induction k v m rule: btree_insert.induct) auto

lemma set_btree_insert: "set (btree_insert k v m) \<subseteq> insert (k, v) (set m)"
  by (induction k v m rule: btree_insert.induct) auto

lemma sorted_keys_hd_less:
  "sorted_keys ((j, w) # m) \<Longrightarrow> map_of m k = Some v \<Longrightarrow> j < k"
  by (drule map_of_Some_in_keys) auto

lemma btree_insert_same:
  "sorted_keys m \<Longrightarrow> map_of m k = Some v \<Longrightarrow> btree_insert k v m = m"
proof (induction k v m rule: btree_insert.induct)
  case (2 k v j w m)
  show ?case
  proof (cases "k = j")
    case True
    with "2.prems" show ?thesis by simp
  next
    case False
    with "2.prems" have m: "map_of m k = Some v" by simp
    then have "j < k" using "2.prems"(1) by (rule sorted_keys_hd_less [rotated])
    then have "\<not> k < j" by simp
    with False m "2.IH" "2.prems"(1) show ?thesis by simp
  qed
qed simp

lemma btree_insert_last:
  "(\<forall>j\<in>fst ` set m. j < k) \<Longrightarrow> btree_insert k v m = m @ [(k, v)]"
  by (induction k v m rule: btree_insert.induct) auto

lemma sorted_keys_distinct: "sorted_keys m \<Longrightarrow> distinct (keys m)"
  by (induction m) fastforce+

lemma map_of_sorted_keys:
  "sorted_keys m \<Longrightarrow> (k, v) \<in> set m \<Longrightarrow> map_of m k = Some v"
  by (rule map_of_is_SomeI) (auto simp: sorted_keys_distinct)

text \<open>Two maps with the same lookups are the same map.\<close>

lemma sorted_keys_ext:
  "sorted_keys m \<Longrightarrow> sorted_keys n \<Longrightarrow> map_of m = map_of n \<Longrightarrow> m = n"
proof (induction m arbitrary: n)
  case Nil
  then show ?case by (cases n) (auto simp: fun_eq_iff split: if_splits)
next
  case (Cons kv m)
  obtain k v where kv: "kv = (k, v)" by (cases kv)
  show ?case
  proof (cases n)
    case Nil
    with Cons.prems kv show ?thesis by (auto simp: fun_eq_iff split: if_splits)
  next
    case (Cons lw n')
    obtain l w where lw: "lw = (l, w)" by (cases lw)
    have look: "map_of ((k, v) # m) x = map_of ((l, w) # n') x" for x
      using fun_cong [OF Cons.prems(3), of x] unfolding kv lw \<open>n = lw # n'\<close> .
    have srt: "\<forall>j\<in>set (keys m). k < j" "\<forall>j\<in>set (keys n'). l < j"
      using Cons.prems(1,2) kv lw \<open>n = lw # n'\<close> by auto
    have kl: "k = l"
    proof (rule ccontr)
      assume ne: "k \<noteq> l"
      have "map_of n' k = Some v" using look [of k] ne by simp
      then have "l < k" using srt(2) map_of_Some_in_keys by metis
      moreover have "map_of m l = Some w" using look [of l] ne by simp
      then have "k < l" using srt(1) map_of_Some_in_keys by metis
      ultimately show False by simp
    qed
    have vw: "v = w" using look [of k] kl by simp
    have "map_of m x = map_of n' x" for x
    proof (cases "x = k")
      case True
      have "map_of m k = None" "map_of n' k = None"
        using srt kl by (auto simp only: map_of_None_iff_keys)
      with True show ?thesis by simp
    next
      case False
      with look [of x] kl show ?thesis by simp
    qed
    then have "m = n'"
      using Cons.IH Cons.prems(1,2) kv lw \<open>n = lw # n'\<close> by (auto simp: fun_eq_iff)
    with kl vw kv lw \<open>n = lw # n'\<close> show ?thesis by simp
  qed
qed

section \<open>Well-formed values\<close>

lemma size_json_in_object [termination_simp]:
  "(k, v) \<in> set kvs \<Longrightarrow> size v < Suc (size_list (size_prod (\<lambda>_. 0) size) kvs)"
  by (induction kvs) auto

lemma size_snd_in_object [termination_simp]:
  "kv \<in> set kvs \<Longrightarrow> size (snd kv) < Suc (size_list (size_prod (\<lambda>_. 0) size) kvs)"
  by (induction kvs) auto

text \<open>Every object in the value is a \<open>BTreeMap\<close>: its keys increase.\<close>

fun wf_json :: "json \<Rightarrow> bool" where
  "wf_json (JArr vs) = list_all wf_json vs"
| "wf_json (JObj kvs) = (sorted_keys kvs \<and> list_all (\<lambda>kv. wf_json (snd kv)) kvs)"
| "wf_json _ = True"

lemma wf_json_lookup:
  "wf_json (JObj m) \<Longrightarrow> map_of m k = Some v \<Longrightarrow> wf_json v"
  by (fastforce simp: list_all_iff dest: map_of_SomeD)

lemma wf_json_btree_insert:
  assumes "wf_json (JObj m)" and "wf_json v"
  shows "wf_json (JObj (btree_insert k v m))"
  using assms set_btree_insert [of k v m] by (auto simp: list_all_iff)

end
