(* ===== verification/Proto.thy ===== *)
theory Proto
  imports Json
begin

text \<open>
  The messages of \<open>proto/nexus/v1\<close> as prost generates them: a message field is an
  \<open>Option\<close>, an enum field its \<open>i32\<close>, a \<open>oneof\<close> a datatype, \<open>repeated\<close> a list,
  \<open>bytes\<close> a byte vector. Each record keeps its message's fields in the order of the file
  under a short prefix, since the field names of the messages overlap.
\<close>

section \<open>common.proto\<close>

record timestamp =
  ts_seconds :: i64
  ts_nanos :: i32

record key_value =
  kv_key :: string
  kv_value :: string

type_synonym metadata = "key_value list"

record error_info =
  er_code :: string
  er_message :: string
  er_retryable :: bool
  er_metadata :: "metadata option"

datatype payload_encoding =
    EncUnspecified | EncProtobufStruct | EncJson | EncMsgpack | EncCbor | EncText | EncBytes

fun encoding_i32 :: "payload_encoding \<Rightarrow> i32" where
  "encoding_i32 EncUnspecified = 0"
| "encoding_i32 EncProtobufStruct = 1"
| "encoding_i32 EncJson = 2"
| "encoding_i32 EncMsgpack = 3"
| "encoding_i32 EncCbor = 4"
| "encoding_i32 EncText = 5"
| "encoding_i32 EncBytes = 6"

text \<open>\<open>PayloadEncoding::try_from(i).unwrap_or(PayloadEncoding::Unspecified)\<close>.\<close>

definition encoding_of :: "i32 \<Rightarrow> payload_encoding" where
  "encoding_of i =
     (if i = 1 then EncProtobufStruct else if i = 2 then EncJson else if i = 3 then EncMsgpack
      else if i = 4 then EncCbor else if i = 5 then EncText else if i = 6 then EncBytes
      else EncUnspecified)"

lemma encoding_of_i32 [simp]: "encoding_of (encoding_i32 e) = e"
  by (cases e) (simp_all add: encoding_of_def)

text \<open>\<open>google.protobuf.Value\<close> and \<open>Struct\<close> (prost-types); a number is its \<open>f64\<close> bits.\<close>

datatype pvalue = PValue "pkind option"
  and pkind =
    PNull i32
  | PNumber u64
  | PString string
  | PBool bool
  | PStruct "(string \<times> pvalue) list"
  | PList "pvalue list"

type_synonym pstruct = "(string \<times> pvalue) list"

record payload =
  pl_encoding :: i32
  pl_data :: bytes
  pl_struct_data :: "pstruct option"
  pl_size_bytes :: u64
  pl_content_hash :: string
  pl_compressed :: bool
  pl_artifact_ref :: string

record redaction_finding =
  rf_field_path :: string
  rf_redaction_type :: string
  rf_replacement_marker :: string

record redaction_report =
  rr_findings :: "redaction_finding list"
  rr_redacted :: bool

record permission_scope =
  scope_value :: string

section \<open>ipc.proto\<close>

record agent_metadata =
  am_framework :: string
  am_language :: string
  am_metadata :: "metadata option"

record agent_capabilities =
  ac_capabilities :: "string list"

record register_agent_request =
  ra_agent_id :: string
  ra_run_id :: string
  ra_thread_id :: string
  ra_metadata :: "agent_metadata option"
  ra_capabilities :: "agent_capabilities option"
  ra_requested_scopes :: "permission_scope list"

record register_agent_response =
  rar_accepted :: bool
  rar_agent_id :: string
  rar_granted_scopes :: "permission_scope list"
  rar_protocol_version :: string

record agent_presence =
  ap_agent_id :: string
  ap_run_id :: string
  ap_thread_id :: string
  ap_status :: string
  ap_last_seen :: "timestamp option"
  ap_metadata :: "agent_metadata option"
  ap_capabilities :: "agent_capabilities option"
  ap_active_channels :: "string list"

record heartbeat_msg =
  hb_agent_id :: string
  hb_run_id :: string
  hb_at :: "timestamp option"

record state_delta =
  sd_delta_id :: string
  sd_channel :: string
  sd_agent_id :: string
  sd_run_id :: string
  sd_thread_id :: string
  sd_logical_clock :: u64
  sd_wall_time :: "timestamp option"
  sd_payload :: "payload option"
  sd_durable :: bool
  sd_tags :: "string list"
  sd_summary :: string
  sd_metadata :: "metadata option"

record publish_delta_request =
  pd_delta :: "state_delta option"
  pd_parent_commit_ids :: "string list"
  pd_objective :: string

record publish_delta_response =
  pr_delta_id :: string
  pr_commit_id :: string
  pr_accepted :: bool
  pr_persisted :: bool
  pr_warning :: string
  pr_redaction_report :: "redaction_report option"

record subscription_filter =
  sf_channel_patterns :: "string list"
  sf_durable_only :: bool
  sf_tags :: "string list"

record subscribe_request =
  sr_subscriber_id :: string
  sr_filter :: "subscription_filter option"
  sr_queue_capacity :: u32

record broadcast_delta =
  bd_delta :: "state_delta option"
  bd_commit_id :: string
  bd_redacted :: bool

record channel_snapshot_response =
  cs_channel :: string
  cs_latest_payload :: "payload option"
  cs_durable_count :: u64
  cs_ephemeral_count :: u64

record ack_msg =
  ack_id :: string
  ack_message :: string

record checkpoint_notice =
  cn_commit_id :: string
  cn_delta_id :: string

section \<open>ledger.proto\<close>

datatype loop_severity = SevUnspecified | SevLow | SevMedium | SevHigh

fun severity_i32 :: "loop_severity \<Rightarrow> i32" where
  "severity_i32 SevUnspecified = 0"
| "severity_i32 SevLow = 1"
| "severity_i32 SevMedium = 2"
| "severity_i32 SevHigh = 3"

datatype replay_mode = ModeUnspecified | ModeStateOnly | ModeDryRunTools | ModeReexecuteTools

fun replay_mode_i32 :: "replay_mode \<Rightarrow> i32" where
  "replay_mode_i32 ModeUnspecified = 0"
| "replay_mode_i32 ModeStateOnly = 1"
| "replay_mode_i32 ModeDryRunTools = 2"
| "replay_mode_i32 ModeReexecuteTools = 3"

text \<open>\<open>ReplayMode::try_from(i)\<close>.\<close>

definition replay_mode_of :: "i32 \<Rightarrow> replay_mode option" where
  "replay_mode_of i =
     (if i = 0 then Some ModeUnspecified else if i = 1 then Some ModeStateOnly
      else if i = 2 then Some ModeDryRunTools else if i = 3 then Some ModeReexecuteTools
      else None)"

record tool_call =
  tc_tool_call_id :: string
  tc_name :: string
  tc_input :: "payload option"
  tc_started_at :: "timestamp option"
  tc_metadata :: "metadata option"

record tool_result =
  tr_tool_call_id :: string
  tr_output :: "payload option"
  tr_error :: "error_info option"
  tr_finished_at :: "timestamp option"
  tr_metadata :: "metadata option"

record artifact_ref =
  ar_artifact_id :: string
  ar_content_hash :: string
  ar_size_bytes :: u64
  ar_media_type :: string
  ar_compressed :: bool
  ar_metadata :: "metadata option"

record external_side_effect =
  se_side_effect_id :: string
  se_kind :: string
  se_description :: string
  se_target :: string
  se_payload_summary :: string
  se_occurred_at :: "timestamp option"
  se_reversible :: bool
  se_compensating_action_available :: bool
  se_metadata :: "metadata option"

record commit =
  cm_commit_id :: string
  cm_delta_id :: string
  cm_run_id :: string
  cm_thread_id :: string
  cm_agent_id :: string
  cm_channel :: string
  cm_parent_commit_ids :: "string list"
  cm_logical_clock :: u64
  cm_wall_time :: "timestamp option"
  cm_objective :: string
  cm_state_delta :: "payload option"
  cm_messages_delta :: "payload option"
  cm_tool_calls :: "tool_call list"
  cm_tool_results :: "tool_result list"
  cm_artifact_refs :: "artifact_ref list"
  cm_external_side_effects :: "external_side_effect list"
  cm_summary :: string
  cm_tags :: "string list"
  cm_metadata :: "metadata option"
  cm_schema_version :: u32
  cm_sdk_name :: string
  cm_sdk_version :: string
  cm_content_hash :: string
  cm_previous_hashes :: "string list"
  cm_redaction_report :: "redaction_report option"

record diff_entry =
  de_path :: string
  de_change_type :: string
  de_before_json :: string
  de_after_json :: string

record commit_diff =
  cd_from_commit_id :: string
  cd_to_commit_id :: string
  cd_entries :: "diff_entry list"
  cd_human_summary :: string

record loop_warning =
  lw_warning_id :: string
  lw_run_id :: string
  lw_agent_id :: string
  lw_channel :: string
  lw_severity :: i32
  lw_fingerprint :: string
  lw_repetition_count :: u64
  lw_first_seen :: "timestamp option"
  lw_last_seen :: "timestamp option"
  lw_suggested_stable_commit_id :: string
  lw_message :: string

record replay_request =
  rq_commit_id :: string
  rq_mode :: i32
  rq_confirm_reexecute_tools :: bool

record replay_result =
  rs_commit_id :: string
  rs_reconstructed_state :: "payload option"
  rs_messages :: "payload list"
  rs_tool_outputs :: "tool_result list"
  rs_artifacts :: "artifact_ref list"
  rs_side_effect_warnings :: "string list"
  rs_provenance_commit_ids :: "string list"
  rs_missing_artifact_warnings :: "string list"

record fork_request =
  fq_source_commit_id :: string
  fq_new_run_id :: string
  fq_metadata :: "metadata option"

record fork_result =
  fr_source_commit_id :: string
  fr_run_id :: string
  fr_head_commit_id :: string

record rollback_request =
  rb_head_commit_id :: string
  rb_target_commit_id :: string
  rb_force :: bool

record rollback_response =
  rbr_moved :: bool
  rbr_previous_head_commit_id :: string
  rbr_new_head_commit_id :: string
  rbr_warnings :: "string list"

record run_summary =
  rsm_run_id :: string
  rsm_commit_count :: u64
  rsm_last_commit_at :: "timestamp option"

record list_commits_request =
  lq_run_id :: string
  lq_thread_id :: string
  lq_channel :: string

record export_run_request =
  xq_run_id :: string
  xq_format :: string

record export_run_response =
  xr_run_id :: string
  xr_export_payload :: "payload option"

section \<open>service.proto\<close>

record checkpoint_request =
  cq_agent_id :: string
  cq_run_id :: string
  cq_thread_id :: string
  cq_channel :: string
  cq_objective :: string
  cq_payload :: "payload option"
  cq_parent_commit_ids :: "string list"
  cq_tags :: "string list"
  cq_summary :: string
  cq_metadata :: "metadata option"
  cq_tool_calls :: "tool_call list"
  cq_tool_results :: "tool_result list"
  cq_artifact_refs :: "artifact_ref list"
  cq_external_side_effects :: "external_side_effect list"

record checkpoint_response =
  cr_commit_id :: string
  cr_delta_id :: string
  cr_accepted :: bool
  cr_persisted :: bool
  cr_warning :: string
  cr_redaction_report :: "redaction_report option"

record diff_commits_request =
  dq_from_commit_id :: string
  dq_to_commit_id :: string
  dq_from_nearest_common_ancestor :: bool

record health_response =
  hr_status :: string
  hr_daemon_version :: string
  hr_protocol_version :: string
  hr_auth_required :: bool
  hr_bind_mode :: string

section \<open>Stream events (ipc.proto)\<close>

datatype client_event =
    CHeartbeat heartbeat_msg
  | CPublishDelta publish_delta_request
  | CSubscribe subscribe_request
  | CUnsubscribe string
  | CCheckpoint publish_delta_request
  | CRecordToolStarted tool_call
  | CRecordToolFinished tool_result
  | CRecordSideEffect external_side_effect
  | CShutdown string

text \<open>The events of the \<open>ServerEvent\<close> oneof that the daemon sends.\<close>

datatype server_event =
    SAck ack_msg
  | SCheckpointCommitted checkpoint_notice
  | SError error_info

text \<open>\<open>wall_time.as_ref().map(|t| t.seconds).unwrap_or_default()\<close>.\<close>

definition seconds_of :: "timestamp option \<Rightarrow> i64" where
  "seconds_of t = unwrap_or 0 (map_option ts_seconds t)"

end
