(* ===== verification/Env.thy ===== *)
theory Env
  imports Proto
begin

text \<open>
  What the daemon uses but does not define: the parameters of the model, one record
  \<open>env\<close> per request. Hashing (blake3), the protobuf codec (prost), JSON text (serde_json's
  parser and printer), regular expressions (regex), compression (zstd), random identifiers
  (uuid), the clock, and the faults and delays of the environment (SQLite, the file system,
  the receivers of bounded queues). Each is a function; nothing is assumed of it unless a
  theorem says so.
\<close>

section \<open>Where a request draws an identifier or reads the clock\<close>

text \<open>
  A request draws at most one identifier per call site, so an identifier is a function of
  the site (presence and the two event tables read only the clock): the delta, the loop warning, the delta that broadcasts it, the forked run, and
  the n-th external side effect of a request body.
\<close>

datatype site = DeltaSite | LoopSite | WarningDeltaSite | RunSite | EffectSite nat
  | PresenceSite | AuditSite | RollbackSite

section \<open>Operations that the environment may fail\<close>

datatype db_op =
    DbOpen | DbAppendCommit | DbGetCommit string | DbListCommits | DbListRuns
  | DbGetHead | DbSetHead | DbAppendAudit | DbAppendRollback
  | DbPutArtifact | DbGetArtifact | DbAppendLoopWarning | DbListLoopWarnings

datatype fs_op = FsCreateDir string | FsWrite | FsRead

text \<open>
  \<open>fs_torn\<close> is what a write that fails leaves in the file, \<open>None\<close> where it did not get to truncate it.
\<close>

text \<open>
  What the receiving end of a full queue does while a sender waits for room: it takes some
  messages, it is dropped, or it does nothing for ever.
\<close>

datatype receiver_behaviour = Drains nat | Closes | Stalls

type_synonym queue_id = nat

record env =
  blake3 :: "bytes \<Rightarrow> string"
  encode_commit :: "commit \<Rightarrow> bytes"
  decode_commit :: "bytes \<Rightarrow> commit result"
  encode_warning :: "loop_warning \<Rightarrow> bytes"
  decode_warning :: "bytes \<Rightarrow> loop_warning result"
  json_parse :: "bytes \<Rightarrow> json option"
  json_print :: "json \<Rightarrow> bytes result"
  replace_all :: "string \<Rightarrow> string \<Rightarrow> string \<Rightarrow> string"
  is_match :: "string \<Rightarrow> string \<Rightarrow> bool"
  zstd_encode :: "bytes \<Rightarrow> bytes result"
  zstd_decode :: "bytes \<Rightarrow> bytes result"
  uuid_simple :: "site \<Rightarrow> string"
  clock :: "site \<Rightarrow> timestamp"
  clock_millis :: "site \<Rightarrow> int"
  db_fault :: "db_op \<Rightarrow> anyhow option"
  fs_fault :: "fs_op \<Rightarrow> anyhow option"
  fs_torn :: "bytes option"
  receiver :: "queue_id \<Rightarrow> receiver_behaviour"

section \<open>util: hash, ids, time, compression\<close>

definition blake3_hex :: "env \<Rightarrow> bytes \<Rightarrow> string" where
  "blake3_hex E bs = blake3 E bs"

definition new_id :: "env \<Rightarrow> site \<Rightarrow> string \<Rightarrow> string" where
  "new_id E site pre = pre @ ''_'' @ uuid_simple E site"

definition now :: "env \<Rightarrow> site \<Rightarrow> timestamp" where
  "now E site = clock E site"

definition maybe_compress :: "env \<Rightarrow> bytes \<Rightarrow> nat \<Rightarrow> (bytes \<times> bool) result" where
  "maybe_compress E bs threshold =
     (if length bs < threshold then Inr (bs, False)
      else and_then (zstd_encode E bs) (\<lambda>compressed. Inr (compressed, True)))"

definition maybe_decompress :: "env \<Rightarrow> bytes \<Rightarrow> bool \<Rightarrow> bytes result" where
  "maybe_decompress E bs compressed = (if compressed then zstd_decode E bs else Inr bs)"

text \<open>Decompression undoes compression where zstd does.\<close>

lemma maybe_compress_roundtrip:
  assumes "maybe_compress E bs threshold = Inr (stored, compressed)"
    and "\<And>c. zstd_encode E bs = Inr c \<Longrightarrow> zstd_decode E c = Inr bs"
  shows "maybe_decompress E stored compressed = Inr bs"
  using assms by (auto simp: maybe_compress_def maybe_decompress_def result_simps split: if_splits)

section \<open>Concrete environments for examples\<close>

text \<open>
  A small environment in which everything computes: the hash is the text itself followed
  by a fixed pad, the codec carries the commit id, JSON text is not parsed, no operation
  fails and no receiver moves. Examples override the fields they need.
\<close>

definition zero_time :: timestamp where
  "zero_time = \<lparr>ts_seconds = 0, ts_nanos = 0\<rparr>"

definition pad :: string where
  "pad = replicate 64 (CHR ''0'')"

definition example_env :: env where
  "example_env = \<lparr>
     blake3 = (\<lambda>bs. take 64 (bs @ pad)),
     encode_commit = cm_commit_id,
     decode_commit = (\<lambda>_. Inl (Anyhow ''decode'')),
     encode_warning = lw_warning_id,
     decode_warning = (\<lambda>_. Inl (Anyhow ''decode'')),
     json_parse = (\<lambda>_. None),
     json_print = (\<lambda>_. Inr ''{}''),
     replace_all = (\<lambda>_ t _. t),
     is_match = (\<lambda>_ _. True),
     zstd_encode = (\<lambda>bs. Inr bs),
     zstd_decode = (\<lambda>bs. Inr bs),
     uuid_simple = (\<lambda>_. ''u''),
     clock = (\<lambda>_. zero_time),
     clock_millis = (\<lambda>_. 0),
     db_fault = (\<lambda>_. None),
     fs_fault = (\<lambda>_. None),
     fs_torn = None,
     receiver = (\<lambda>_. Stalls)\<rparr>"

text \<open>\<open>Commit::default()\<close>, and a commit with an id and parents.\<close>

definition default_commit :: commit where
  "default_commit = \<lparr>cm_commit_id = [], cm_delta_id = [], cm_run_id = [], cm_thread_id = [],
     cm_agent_id = [], cm_channel = [], cm_parent_commit_ids = [], cm_logical_clock = 0,
     cm_wall_time = None, cm_objective = [], cm_state_delta = None, cm_messages_delta = None,
     cm_tool_calls = [], cm_tool_results = [], cm_artifact_refs = [],
     cm_external_side_effects = [], cm_summary = [], cm_tags = [], cm_metadata = None,
     cm_schema_version = 0, cm_sdk_name = [], cm_sdk_version = [], cm_content_hash = [],
     cm_previous_hashes = [], cm_redaction_report = None\<rparr>"

definition example_commit :: "string \<Rightarrow> string list \<Rightarrow> commit" where
  "example_commit cid ps = default_commit\<lparr>cm_commit_id := cid, cm_parent_commit_ids := ps\<rparr>"

lemma example_commit_simps [simp]:
  "cm_commit_id (example_commit cid ps) = cid"
  "cm_parent_commit_ids (example_commit cid ps) = ps"
  by (simp_all add: example_commit_def)

end
