(* ===== verification/Dag.thy ===== *)
theory Dag
  imports Env
begin

text \<open>
  \<open>daemon/src/ledger/dag.rs\<close>: the in-memory index of commit parents. First the code's
  operations on the two hash maps, then the graph they denote: \<open>edges\<close> relates a commit to
  each of its parents, reachability along it is ancestry, and the traversals of the code are
  shown to compute it. The section on the contract states what the rest of the daemon may
  rely on as a locale and interprets it on the code's own operations.
\<close>

section \<open>The index and its operations\<close>

record dag_index =
  dg_parents :: "(string, string list) table"
  dg_children :: "(string, string list) table"

definition dag_default :: dag_index where
  "dag_default = \<lparr>dg_parents = [], dg_children = []\<rparr>"

text \<open>
  \<open>reachable_locked\<close>: the stack is a list with its top first, so \<open>extend\<close> puts the last
  parent on top; \<open>seen\<close> is the hash set of the ids already popped.
\<close>

function reachable_loop ::
    "(string, string list) table \<Rightarrow> string \<Rightarrow> string list \<Rightarrow> string set \<Rightarrow> bool" where
  "reachable_loop parents target [] seen = False"
| "reachable_loop parents target (current # stack) seen =
     (if current = target then True
      else if current \<in> seen then reachable_loop parents target stack seen
      else (case map_of parents current of
              None \<Rightarrow> reachable_loop parents target stack (insert current seen)
            | Some next_ids \<Rightarrow>
                reachable_loop parents target (rev next_ids @ stack) (insert current seen)))"
  by pat_completeness auto
termination
proof (relation "measures [\<lambda>(parents, _, _, seen). card (set (keys parents) - seen),
                           \<lambda>(_, _, stack, _). length stack]", goal_cases)
  case (3 parents target current stack seen)
  then have "current \<notin> set (keys parents)" by (simp only: map_of_None_iff_keys not_False_eq_True)
  then have "set (keys parents) - insert current seen = set (keys parents) - seen" by blast
  then show ?case by simp
next
  case (4 parents target current stack seen next_ids)
  then have "current \<in> set (keys parents)" by (rule_tac map_of_Some_in_keys)
  with 4 have "set (keys parents) - insert current seen \<subset> set (keys parents) - seen" by blast
  then have "card (set (keys parents) - insert current seen) < card (set (keys parents) - seen)"
    by (rule psubset_card_mono [rotated]) simp
  then show ?case by simp
qed simp_all

definition reachable_locked :: "(string, string list) table \<Rightarrow> string \<Rightarrow> string \<Rightarrow> bool" where
  "reachable_locked parents from target = reachable_loop parents target [from] {}"

text \<open>The checks of \<open>append\<close> on the parents, in their order.\<close>

fun check_parents :: "(string, string list) table \<Rightarrow> string \<Rightarrow> string list \<Rightarrow> unit result" where
  "check_parents parents commit_id [] = Inr ()"
| "check_parents parents commit_id (parent # rest) =
     (if parent \<notin> set (keys parents)
      then Inl (Anyhow (''parent commit '' @ parent @ '' is unknown''))
      else if reachable_locked parents parent commit_id
      then Inl (Anyhow ''commit would introduce a DAG cycle'')
      else check_parents parents commit_id rest)"

definition push_child ::
    "string \<Rightarrow> string \<Rightarrow> (string, string list) table \<Rightarrow> (string, string list) table" where
  "push_child commit_id parent children =
     AList.update parent (unwrap_or [] (map_of children parent) @ [commit_id]) children"

definition append :: "dag_index \<Rightarrow> commit \<Rightarrow> dag_index result" where
  "append self commit =
     (if cm_commit_id commit = [] then Inl (Anyhow ''commit_id is required'')
      else if \<exists>parent\<in>set (cm_parent_commit_ids commit). parent = cm_commit_id commit
      then Inl (Anyhow ''commit cannot parent itself'')
      else and_then
        (check_parents (dg_parents self) (cm_commit_id commit) (cm_parent_commit_ids commit))
        (\<lambda>_. Inr \<lparr>dg_parents =
                     AList.update (cm_commit_id commit) (cm_parent_commit_ids commit) (dg_parents self),
                   dg_children =
                     fold (push_child (cm_commit_id commit)) (cm_parent_commit_ids commit)
                       (dg_children self)\<rparr>))"

fun append_all :: "dag_index \<Rightarrow> commit list \<Rightarrow> dag_index result" where
  "append_all index [] = Inr index"
| "append_all index (commit # commits) =
     and_then (append index commit) (\<lambda>index'. append_all index' commits)"

definition from_commits :: "commit list \<Rightarrow> dag_index result" where
  "from_commits commits = append_all dag_default commits"

definition is_ancestor :: "dag_index \<Rightarrow> string \<Rightarrow> string \<Rightarrow> bool" where
  "is_ancestor self ancestor commit_id =
     (if ancestor = commit_id then True
      else reachable_locked (dg_parents self) commit_id ancestor)"

text \<open>
  \<open>collect_ancestry\<close> calls itself in a loop over the parents; the loop over a list of ids is
  the function here, and \<open>collect_ancestry\<close> the loop over one id. The calls nest as deep as the longest
  path they follow; the stack that holds them is not modelled.
\<close>

function collect_loop ::
    "(string, string list) table \<Rightarrow> string list \<Rightarrow> string set \<Rightarrow> string list
       \<Rightarrow> string set \<times> string list" where
  "collect_loop parents [] seen out = (seen, out)"
| "collect_loop parents (commit_id # rest) seen out =
     (if commit_id \<in> seen then collect_loop parents rest seen out
      else (let (seen1, out1) =
              collect_loop parents (unwrap_or [] (map_of parents commit_id))
                (insert commit_id seen) out
            in collect_loop parents rest seen1 (out1 @ [commit_id])))"
  by pat_completeness auto

lemma collect_loop_dom_seen:
  "collect_loop_dom (parents, ids, seen, out) \<Longrightarrow> seen \<subseteq> fst (collect_loop parents ids seen out)"
proof (induction parents ids seen out rule: collect_loop.pinduct)
  case (1 parents seen out)
  then show ?case by (simp add: collect_loop.psimps)
next
  case (2 parents commit_id rest seen out)
  show ?case
  proof (cases "commit_id \<in> seen")
    case True
    with 2 show ?thesis by (simp add: collect_loop.psimps)
  next
    case False
    obtain seen1 out1 where c: "collect_loop parents (unwrap_or [] (map_of parents commit_id))
        (insert commit_id seen) out = (seen1, out1)" by fastforce
    from 2(3) [OF False] c have "seen \<subseteq> seen1" by auto
    moreover from 2(4) [OF False c [symmetric] refl] have
      "seen1 \<subseteq> fst (collect_loop parents rest seen1 (out1 @ [commit_id]))" .
    ultimately show ?thesis using False 2(1) c by (simp add: collect_loop.psimps)
  qed
qed

termination collect_loop
proof (relation "measures [\<lambda>(parents, _, seen, _). card (set (keys parents) - seen),
                           \<lambda>(_, ids, _, _). length ids]", goal_cases)
  case (3 parents commit_id rest seen out)
  show ?case
  proof (cases "map_of parents commit_id")
    case None
    then have "commit_id \<notin> set (keys parents)" by (simp only: map_of_None_iff_keys not_False_eq_True)
    then have "set (keys parents) - insert commit_id seen = set (keys parents) - seen" by blast
    with None show ?thesis by simp
  next
    case (Some ps)
    then have "commit_id \<in> set (keys parents)" by (rule map_of_Some_in_keys)
    with 3 have "set (keys parents) - insert commit_id seen \<subset> set (keys parents) - seen" by blast
    then have "card (set (keys parents) - insert commit_id seen) < card (set (keys parents) - seen)"
      by (rule psubset_card_mono [rotated]) simp
    then show ?thesis by simp
  qed
next
  case (4 parents commit_id rest seen out x seen1 out1)
  have "insert commit_id seen \<subseteq> seen1"
    using collect_loop_dom_seen [OF 4(4)] 4(2,3) by (metis fst_conv)
  then have "card (set (keys parents) - seen1) \<le> card (set (keys parents) - seen)"
    by (intro card_mono) auto
  then show ?case by auto
qed simp_all

definition collect_ancestry ::
    "(string, string list) table \<Rightarrow> string \<Rightarrow> string set \<Rightarrow> string list
       \<Rightarrow> string set \<times> string list" where
  "collect_ancestry parents commit_id seen out = collect_loop parents [commit_id] seen out"

definition ancestry :: "dag_index \<Rightarrow> string \<Rightarrow> string list" where
  "ancestry self commit_id = snd (collect_ancestry (dg_parents self) commit_id {} [])"

definition nearest_common_ancestor :: "dag_index \<Rightarrow> string \<Rightarrow> string \<Rightarrow> string option" where
  "nearest_common_ancestor self a b =
     (let a_ancestry = set (ancestry self a)
      in List.find (\<lambda>commit_id. commit_id \<in> a_ancestry) (ancestry self b))"

definition export_edges :: "dag_index \<Rightarrow> (string \<times> string) list" where
  "export_edges self =
     concat (map (\<lambda>(child, parents). map (\<lambda>parent. (parent, child)) parents) (dg_parents self))"

section \<open>The graph\<close>

text \<open>The edges lead from a commit to its parents.\<close>

definition edges :: "(string, string list) table \<Rightarrow> (string \<times> string) set" where
  "edges parents = {(c, p). \<exists>ps. map_of parents c = Some ps \<and> p \<in> set ps}"

lemma edges_iff: "(c, p) \<in> edges parents \<longleftrightarrow> p \<in> set (unwrap_or [] (map_of parents c))"
  by (cases "map_of parents c") (auto simp: edges_def)

lemma edges_Image: "edges parents `` {c} = set (unwrap_or [] (map_of parents c))"
  by (auto simp: edges_iff)

lemma edges_update:
  "edges (AList.update c ps parents) =
     {(x, p). if x = c then p \<in> set ps else (x, p) \<in> edges parents}"
  by (auto simp: edges_def map_of_update split: if_splits)

lemma closed_rtrancl: "r `` S \<subseteq> S \<Longrightarrow> (a, b) \<in> r\<^sup>* \<Longrightarrow> a \<in> S \<Longrightarrow> b \<in> S"
  by (erule rtrancl_induct) auto

subsection \<open>The worklist decides reachability\<close>

lemma reachable_loop_sound:
  "reachable_loop parents target stack seen \<Longrightarrow> \<exists>s\<in>set stack. (s, target) \<in> (edges parents)\<^sup>*"
proof (induction parents target stack seen rule: reachable_loop.induct)
  case (2 parents target current stack seen)
  show ?case
  proof (cases "current = target \<or> current \<in> seen")
    case True
    with 2 show ?thesis by (auto split: if_splits)
  next
    case False
    show ?thesis
    proof (cases "map_of parents current")
      case None
      with 2 False show ?thesis by auto
    next
      case (Some next_ids)
      with 2 False have "\<exists>s\<in>set (rev next_ids @ stack). (s, target) \<in> (edges parents)\<^sup>*" by simp
      moreover have "(current, s) \<in> edges parents" if "s \<in> set next_ids" for s
        using that Some by (simp add: edges_iff)
      ultimately show ?thesis
        by (auto intro: converse_rtrancl_into_rtrancl)
    qed
  qed
qed simp

lemma reachable_loop_complete:
  assumes "edges parents `` seen \<subseteq> seen \<union> set stack" and "target \<notin> seen"
    and "s \<in> seen \<union> set stack" and "(s, target) \<in> (edges parents)\<^sup>*"
  shows "reachable_loop parents target stack seen"
  using assms
proof (induction parents target stack seen rule: reachable_loop.induct)
  case (1 parents target seen)
  then have "target \<in> seen" by (auto intro: closed_rtrancl [of "edges parents" seen])
  with 1 show ?case by simp
next
  case (2 parents target current stack seen)
  show ?case
  proof (cases "current = target \<or> current \<in> seen")
    case True
    with 2 show ?thesis by auto
  next
    case False
    show ?thesis
    proof (cases "map_of parents current")
      case None
      then have "edges parents `` {current} = {}" by (simp add: edges_Image)
      with 2 False None show ?thesis by auto
    next
      case (Some next_ids)
      then have "edges parents `` {current} = set next_ids" by (simp add: edges_Image)
      with 2 False Some show ?thesis by auto
    qed
  qed
qed

lemma reachable_locked_iff:
  "reachable_locked parents from target \<longleftrightarrow> (from, target) \<in> (edges parents)\<^sup>*"
  using reachable_loop_sound [of parents target "[from]" "{}"]
    reachable_loop_complete [of parents "{}" "[from]" target "from"]
  by (auto simp: reachable_locked_def)

text \<open>
  Claim C25. The iterative search of is_ancestor decides ancestry: it answers true exactly when the
  first commit can be reached from the second along parent links, whatever the shape of the
  graph (shared ancestors, cycles, unknown ids).
\<close>

theorem is_ancestor_iff:
  "is_ancestor self ancestor commit_id \<longleftrightarrow>
     (commit_id, ancestor) \<in> (edges (dg_parents self))\<^sup>*"
  by (auto simp: is_ancestor_def reachable_locked_iff)

lemma is_ancestor_rtrancl:
  "is_ancestor self ancestor commit_id \<longleftrightarrow> (commit_id, ancestor) \<in> (edges (dg_parents self))\<^sup>*"
  by (auto simp: is_ancestor_def reachable_locked_iff)

subsection \<open>Orders in which parents come first\<close>

text \<open>
  Reading the list from the left, every commit's parents are in \<open>S\<close> or have been read.
  This is the order that rebuilding the index needs and that replay should follow.
\<close>

fun parents_first :: "(string \<times> string) set \<Rightarrow> string set \<Rightarrow> string list \<Rightarrow> bool" where
  "parents_first R S [] = True"
| "parents_first R S (x # xs) = (R `` {x} \<subseteq> S \<and> parents_first R (insert x S) xs)"

lemma parents_first_append:
  "parents_first R S (xs @ ys) \<longleftrightarrow> parents_first R S xs \<and> parents_first R (S \<union> set xs) ys"
  by (induction xs arbitrary: S) (auto simp: insert_commute Un_commute)

lemma parents_first_split:
  assumes "parents_first R S (xs @ x # ys)"
  shows "R `` {x} \<subseteq> S \<union> set xs"
  using assms by (simp add: parents_first_append)

lemma parents_first_ancestors:
  assumes "parents_first R {} (xs @ x # ys)" and "(x, y) \<in> R\<^sup>+"
  shows "y \<in> set xs"
proof -
  have "R `` set xs \<subseteq> set xs"
  proof
    fix p assume "p \<in> R `` set xs"
    then obtain q where q: "q \<in> set xs" "(q, p) \<in> R" by auto
    then obtain us vs where "xs = us @ q # vs" by (meson split_list)
    with assms(1) have "parents_first R {} (us @ q # vs @ x # ys)" by simp
    then have "R `` {q} \<subseteq> set us" by (auto dest: parents_first_split)
    with q \<open>xs = us @ q # vs\<close> show "p \<in> set xs" by auto
  qed
  moreover have "R `` {x} \<subseteq> set xs" using assms(1) by (auto dest: parents_first_split)
  moreover obtain z where "(x, z) \<in> R" "(z, y) \<in> R\<^sup>*" using assms(2) by (meson tranclD)
  ultimately show ?thesis by (meson ImageI closed_rtrancl singletonI subsetD)
qed

subsection \<open>What the ancestry traversal returns\<close>

text \<open>
  The new part of the output: no id twice, disjoint from what was seen, all of it reachable
  from the ids asked for; everything newly seen is output, and its parents have been seen.
\<close>

definition traversal_ok ::
    "(string, string list) table \<Rightarrow> string list \<Rightarrow> string set \<Rightarrow> string list
       \<Rightarrow> string set \<Rightarrow> string list \<Rightarrow> bool" where
  "traversal_ok parents ids seen out seen' out' \<longleftrightarrow>
     (\<exists>new. out' = out @ new \<and> distinct new \<and> set new \<inter> seen = {} \<and> seen' = seen \<union> set new
        \<and> set ids \<subseteq> seen' \<and> edges parents `` set new \<subseteq> seen'
        \<and> set new \<subseteq> (edges parents)\<^sup>* `` set ids)"

lemma traversal_ok_step:
  assumes "commit_id \<notin> seen"
    and "traversal_ok parents (unwrap_or [] (map_of parents commit_id)) (insert commit_id seen) out seen1 out1"
    and "traversal_ok parents rest seen1 (out1 @ [commit_id]) seen2 out2"
  shows "traversal_ok parents (commit_id # rest) seen out seen2 out2"
proof -
  obtain new1 where 1: "out1 = out @ new1" "distinct new1" "set new1 \<inter> insert commit_id seen = {}"
      "seen1 = insert commit_id seen \<union> set new1"
      "set (unwrap_or [] (map_of parents commit_id)) \<subseteq> seen1"
      "edges parents `` set new1 \<subseteq> seen1"
      "set new1 \<subseteq> (edges parents)\<^sup>* `` set (unwrap_or [] (map_of parents commit_id))"
    using assms(2) unfolding traversal_ok_def by blast
  obtain new2 where 2: "out2 = (out1 @ [commit_id]) @ new2" "distinct new2" "set new2 \<inter> seen1 = {}"
      "seen2 = seen1 \<union> set new2" "set rest \<subseteq> seen2" "edges parents `` set new2 \<subseteq> seen2"
      "set new2 \<subseteq> (edges parents)\<^sup>* `` set rest"
    using assms(3) unfolding traversal_ok_def by blast
  have "(commit_id, y) \<in> (edges parents)\<^sup>*" if "y \<in> set new1" for y
    using that 1(7) edges_Image [of parents commit_id]
    by (blast intro: converse_rtrancl_into_rtrancl)
  then have "set (new1 @ commit_id # new2) \<subseteq> (edges parents)\<^sup>* `` set (commit_id # rest)"
    using 2(7) by auto
  moreover have "edges parents `` set (new1 @ commit_id # new2) \<subseteq> seen2"
    using 1(5,6) 2(4,6) edges_Image [of parents commit_id] by auto
  ultimately show ?thesis
    unfolding traversal_ok_def using assms(1) 1(1-4) 2(1-5)
    by (intro exI [of _ "new1 @ commit_id # new2"]) auto
qed

lemma traversal_ok_seen:
  assumes "traversal_ok parents rest seen out seen' out'" and "commit_id \<in> seen"
  shows "traversal_ok parents (commit_id # rest) seen out seen' out'"
proof -
  have "(edges parents)\<^sup>* `` set rest \<subseteq> (edges parents)\<^sup>* `` set (commit_id # rest)"
    by (rule Image_mono) auto
  then have grow: "set new \<subseteq> (edges parents)\<^sup>* `` set rest \<Longrightarrow>
      set new \<subseteq> (edges parents)\<^sup>* `` set (commit_id # rest)" for new :: "string list"
    by (rule subset_trans [rotated])
  obtain new where new: "out' = out @ new \<and> distinct new \<and> set new \<inter> seen = {}
      \<and> seen' = seen \<union> set new \<and> set rest \<subseteq> seen' \<and> edges parents `` set new \<subseteq> seen'
      \<and> set new \<subseteq> (edges parents)\<^sup>* `` set rest"
    using assms(1) unfolding traversal_ok_def by (rule exE)
  moreover have "set (commit_id # rest) \<subseteq> seen'" using new assms(2) by auto
  ultimately show ?thesis
    unfolding traversal_ok_def using grow by (intro exI [of _ new] conjI) blast+
qed

lemma collect_loop_ok:
  "collect_loop parents ids seen out = (seen', out') \<Longrightarrow> traversal_ok parents ids seen out seen' out'"
proof (induction parents ids seen out arbitrary: seen' out' rule: collect_loop.induct)
  case (1 parents seen out)
  then show ?case by (simp add: traversal_ok_def)
next
  case (2 parents commit_id rest seen out)
  show ?case
  proof (cases "commit_id \<in> seen")
    case True
    with "2.prems" have "collect_loop parents rest seen out = (seen', out')" by simp
    then have "traversal_ok parents rest seen out seen' out'" by (rule "2.IH"(1) [OF True])
    then show ?thesis by (rule traversal_ok_seen [OF _ True])
  next
    case False
    obtain seen1 out1 where c: "collect_loop parents (unwrap_or [] (map_of parents commit_id))
        (insert commit_id seen) out = (seen1, out1)" by fastforce
    with False "2.prems" have "collect_loop parents rest seen1 (out1 @ [commit_id]) = (seen', out')"
      by simp
    then have "traversal_ok parents rest seen1 (out1 @ [commit_id]) seen' out'"
      by (rule "2.IH"(3) [OF False c [symmetric] refl])
    with False "2.IH"(2) [OF False c] show ?thesis by (rule traversal_ok_step)
  qed
qed

lemma ancestry_ok: "traversal_ok parents [c] {} [] seen' out' \<Longrightarrow>
  distinct out' \<and> set out' = (edges parents)\<^sup>* `` {c}"
  unfolding traversal_ok_def
  by (auto intro: closed_rtrancl [of "edges parents" "set out'"])

lemma ancestry_traversal: "\<exists>seen'. traversal_ok (dg_parents self) [c] {} [] seen' (ancestry self c)"
  unfolding ancestry_def collect_ancestry_def
  by (metis collect_loop_ok prod.collapse)

lemma distinct_ancestry: "distinct (ancestry self c)"
  using ancestry_traversal ancestry_ok by blast

lemma set_ancestry: "set (ancestry self c) = (edges (dg_parents self))\<^sup>* `` {c}"
  using ancestry_traversal ancestry_ok by blast

text \<open>
  Post-order: when the graph has no cycle, parents are output before their children. The ids
  that are seen but not yet output are the ones on the recursion stack; each of them leads to
  every id of the current loop, so none of them can be a parent of a new id.
\<close>

lemma collect_loop_parents_first:
  assumes "acyclic (edges parents)"
    and "collect_loop parents ids seen out = (seen', out')"
    and "set out \<subseteq> seen"
    and "\<And>g x. g \<in> seen - set out \<Longrightarrow> x \<in> set ids \<Longrightarrow> (g, x) \<in> (edges parents)\<^sup>+"
    and "parents_first (edges parents) {} out"
  shows "parents_first (edges parents) {} out'"
  using assms
proof (induction parents ids seen out arbitrary: seen' out' rule: collect_loop.induct)
  case (1 parents seen out)
  then show ?case by simp
next
  case (2 parents commit_id rest seen out)
  let ?R = "edges parents"
  note gray = "2.prems"(4)
  show ?case
  proof (cases "commit_id \<in> seen")
    case True
    show ?thesis
      by (rule "2.IH"(1) [OF True "2.prems"(1) _ "2.prems"(3) _ "2.prems"(5)])
         (use True "2.prems"(2) gray in auto)
  next
    case False
    let ?ps = "unwrap_or [] (map_of parents commit_id)"
    obtain seen1 out1 where c: "collect_loop parents ?ps (insert commit_id seen) out = (seen1, out1)"
      by fastforce
    have next_call: "collect_loop parents rest seen1 (out1 @ [commit_id]) = (seen', out')"
      using "2.prems"(2) False c by simp
    have parent: "(commit_id, x) \<in> ?R" if "x \<in> set ?ps" for x
      using that by (simp add: edges_iff)
    have gray1: "(g, x) \<in> ?R\<^sup>+" if "g \<in> insert commit_id seen - set out" "x \<in> set ?ps" for g x
      using that gray [of g commit_id] parent [of x] by (cases "g = commit_id") (auto intro: trancl_into_trancl)
    have 1: "parents_first ?R {} out1"
      by (rule "2.IH"(2) [OF False "2.prems"(1) c _ gray1 "2.prems"(5)]) (use "2.prems"(3) in auto)
    obtain new where new: "out1 = out @ new" "seen1 = insert commit_id seen \<union> set new"
        "set ?ps \<subseteq> seen1"
      using collect_loop_ok [OF c] unfolding traversal_ok_def by blast
    have out1: "?R `` {commit_id} \<subseteq> set out1"
    proof
      fix x assume "x \<in> ?R `` {commit_id}"
      then have x: "(commit_id, x) \<in> ?R" by simp
      show "x \<in> set out1"
      proof (rule ccontr)
        assume "x \<notin> set out1"
        moreover have "x \<in> seen1" using x new(3) by (auto simp: edges_iff)
        ultimately have "x = commit_id \<or> x \<in> seen - set out" using new(1,2) by auto
        then have "(x, commit_id) \<in> ?R\<^sup>*" using gray [of x commit_id] by auto
        with x have "(commit_id, commit_id) \<in> ?R\<^sup>+" by (rule rtrancl_into_trancl2)
        with "2.prems"(1) show False by (simp add: acyclic_def)
      qed
    qed
    have gray2: "(g, x) \<in> ?R\<^sup>+" if "g \<in> seen1 - set (out1 @ [commit_id])" "x \<in> set rest" for g x
      using that gray [of g x] new(1,2) by auto
    show ?thesis
    proof (rule "2.IH"(3) [OF False c [symmetric] refl "2.prems"(1) next_call _ gray2])
      show "set (out1 @ [commit_id]) \<subseteq> seen1" using new(1,2) "2.prems"(3) by auto
      show "parents_first ?R {} (out1 @ [commit_id])" using 1 out1 by (simp add: parents_first_append)
    qed
  qed
qed

lemma ancestry_parents_first:
  assumes "acyclic (edges (dg_parents self))"
  shows "parents_first (edges (dg_parents self)) {} (ancestry self c)"
proof -
  obtain seen' where "collect_loop (dg_parents self) [c] {} [] = (seen', ancestry self c)"
    unfolding ancestry_def collect_ancestry_def by (metis prod.collapse)
  then show ?thesis by (rule collect_loop_parents_first [OF assms]) auto
qed

section \<open>Appending a commit\<close>

text \<open>
  The invariant of the index: one entry per commit, every parent is itself a known commit,
  no commit is its own ancestor.
\<close>

definition dag_ok :: "dag_index \<Rightarrow> bool" where
  "dag_ok d \<longleftrightarrow> distinct (keys (dg_parents d))
     \<and> [] \<notin> set (keys (dg_parents d))
     \<and> edges (dg_parents d) `` UNIV \<subseteq> set (keys (dg_parents d))
     \<and> acyclic (edges (dg_parents d))"

lemma dag_ok_default [simp]: "dag_ok dag_default"
  by (simp add: dag_ok_def dag_default_def edges_def acyclic_def)

lemma check_parents_iff:
  "check_parents parents c ps = Inr u \<longleftrightarrow>
     (\<forall>p\<in>set ps. p \<in> set (keys parents) \<and> (p, c) \<notin> (edges parents)\<^sup>*)"
  by (induction ps) (auto simp: reachable_locked_iff simp del: set_map)

lemma append_Inr_iff:
  "append d c = Inr d' \<longleftrightarrow>
     cm_commit_id c \<noteq> [] \<and> cm_commit_id c \<notin> set (cm_parent_commit_ids c)
     \<and> (\<forall>p\<in>set (cm_parent_commit_ids c). p \<in> set (keys (dg_parents d))
          \<and> (p, cm_commit_id c) \<notin> (edges (dg_parents d))\<^sup>*)
     \<and> d' = \<lparr>dg_parents = AList.update (cm_commit_id c) (cm_parent_commit_ids c) (dg_parents d),
             dg_children = fold (push_child (cm_commit_id c)) (cm_parent_commit_ids c) (dg_children d)\<rparr>"
  by (auto simp: append_def and_then_Inr_iff check_parents_iff simp del: set_map)

lemma acyclic_update:
  assumes "acyclic (edges parents)" and "\<forall>p\<in>set ps. (p, c) \<notin> (edges parents)\<^sup>*"
  shows "acyclic (edges (AList.update c ps parents))"
proof -
  let ?R = "edges parents" and ?R' = "edges (AList.update c ps parents)"
  have to_c: "(x, c) \<in> ?R'\<^sup>* \<Longrightarrow> (x, c) \<in> ?R\<^sup>*" for x
  proof (induction rule: converse_rtrancl_induct)
    case (step x z)
    then show ?case
      by (cases "x = c") (auto simp: edges_update intro: converse_rtrancl_into_rtrancl)
  qed simp
  have no_c: "(c, c) \<notin> ?R'\<^sup>+"
  proof
    assume "(c, c) \<in> ?R'\<^sup>+"
    then obtain p where "(c, p) \<in> ?R'" "(p, c) \<in> ?R'\<^sup>*" by (meson tranclD)
    with to_c [of p] assms(2) show False by (simp add: edges_update)
  qed
  have avoid: "(x, y) \<in> ?R'\<^sup>+ \<Longrightarrow> (x, y) \<in> ?R\<^sup>+ \<or> (x, c) \<in> ?R'\<^sup>* \<and> (c, y) \<in> ?R'\<^sup>+" for x y
  proof (induction rule: trancl_induct)
    case (base y)
    then show ?case by (cases "x = c") (auto simp: edges_update)
  next
    case (step y z)
    show ?case
    proof (cases "y = c")
      case True
      then show ?thesis using step(1,2) by (auto dest: trancl_into_rtrancl)
    next
      case False
      then have "(y, z) \<in> ?R" using step(2) by (simp add: edges_update)
      then show ?thesis using step(2,3) by (auto intro: trancl_into_trancl)
    qed
  qed
  show ?thesis
  proof (rule acyclicI, intro allI notI)
    fix x assume x: "(x, x) \<in> ?R'\<^sup>+"
    show False
    proof (cases "(x, x) \<in> ?R\<^sup>+")
      case True
      with assms(1) show False by (simp add: acyclic_def)
    next
      case False
      with avoid [OF x] have "(c, x) \<in> ?R'\<^sup>+" "(x, c) \<in> ?R'\<^sup>*" by auto
      then have "(c, c) \<in> ?R'\<^sup>+" by (rule trancl_rtrancl_trancl)
      with no_c show False ..
    qed
  qed
qed

lemma dag_ok_append:
  assumes "dag_ok d" and "append d c = Inr d'"
  shows "dag_ok d'"
proof -
  let ?ps = "cm_parent_commit_ids c"
  have d': "dg_parents d' = AList.update (cm_commit_id c) ?ps (dg_parents d)"
    and ne: "cm_commit_id c \<noteq> []"
    and known: "\<forall>p\<in>set ?ps. p \<in> set (keys (dg_parents d))"
    and nocycle: "\<forall>p\<in>set ?ps. (p, cm_commit_id c) \<notin> (edges (dg_parents d))\<^sup>*"
    using assms(2) by (auto simp only: append_Inr_iff dag_index.simps)
  have closed: "p \<in> set (keys (dg_parents d))" if "(x, p) \<in> edges (dg_parents d)" for x p
    using assms(1) that unfolding dag_ok_def by blast
  have "edges (dg_parents d') `` UNIV \<subseteq> set (keys (dg_parents d'))"
  proof
    fix p assume "p \<in> edges (dg_parents d') `` UNIV"
    then obtain x where "(x, p) \<in> edges (dg_parents d')" by blast
    then show "p \<in> set (keys (dg_parents d'))"
      using known closed unfolding d' set_keys_update edges_update by (auto split: if_splits)
  qed
  moreover have "acyclic (edges (dg_parents d'))"
    unfolding d' using assms(1) nocycle by (intro acyclic_update) (simp_all add: dag_ok_def)
  moreover have "distinct (keys (dg_parents d'))" "[] \<notin> set (keys (dg_parents d'))"
    using assms(1) ne unfolding d' dag_ok_def set_keys_update by simp_all
  ultimately show ?thesis by (simp add: dag_ok_def)
qed

lemma append_all_ok: "append_all d commits = Inr d' \<Longrightarrow> dag_ok d \<Longrightarrow> dag_ok d'"
proof (induction commits arbitrary: d)
  case (Cons c commits)
  then obtain d1 where "append d c = Inr d1" "append_all d1 commits = Inr d'"
    by (auto simp: and_then_Inr_iff)
  with Cons show ?case using dag_ok_append by blast
qed simp

text \<open>
  Whatever commits are offered to the index in whatever order, also repeated ids and
  ids re-appended with other parents, the index stays a directed acyclic graph in which
  every parent is a known commit.
\<close>

theorem append_preserves_dag:
  assumes "dag_ok d" and "append_all d commits = Inr d'"
  shows "dag_ok d'"
  using assms(2,1) by (rule append_all_ok)

theorem append_preserves_dag_witness:
  "\<exists>d. append_all dag_default [example_commit ''a'' [], example_commit ''b'' [''a''],
     example_commit ''a'' []] = Inr d \<and> dag_ok d"
proof -
  have "\<exists>d. append_all dag_default [example_commit ''a'' [], example_commit ''b'' [''a''],
     example_commit ''a'' []] = Inr d"
    by (simp add: append_def dag_default_def reachable_locked_def)
  then show ?thesis using append_preserves_dag [OF dag_ok_default] by blast
qed

section \<open>Rebuilding the index from the stored commits\<close>

text \<open>
  A list of commits is loadable when every commit has an id and comes after its parents.
\<close>

fun loadable :: "string set \<Rightarrow> commit list \<Rightarrow> bool" where
  "loadable known [] = True"
| "loadable known (c # cs) =
     (cm_commit_id c \<noteq> [] \<and> set (cm_parent_commit_ids c) \<subseteq> known
        \<and> loadable (insert (cm_commit_id c) known) cs)"

definition parent_row :: "commit \<Rightarrow> string \<times> string list" where
  "parent_row c = (cm_commit_id c, cm_parent_commit_ids c)"

lemma update_fresh: "k \<notin> set (keys t) \<Longrightarrow> AList.update k v t = t @ [(k, v)]"
  by (induction t) auto

text \<open>A new id never meets the cycle check: nothing known can lead to it.\<close>

lemma append_fresh:
  assumes "dag_ok d" and "cm_commit_id c \<notin> set (keys (dg_parents d))"
  shows "is_ok (append d c) \<longleftrightarrow>
      cm_commit_id c \<noteq> [] \<and> set (cm_parent_commit_ids c) \<subseteq> set (keys (dg_parents d))"
    and "append d c = Inr d' \<Longrightarrow> dg_parents d' = dg_parents d @ [parent_row c]"
proof -
  have no_path: "(p, cm_commit_id c) \<notin> (edges (dg_parents d))\<^sup>*" if "p \<in> set (keys (dg_parents d))" for p
  proof
    assume "(p, cm_commit_id c) \<in> (edges (dg_parents d))\<^sup>*"
    moreover have "edges (dg_parents d) `` set (keys (dg_parents d)) \<subseteq> set (keys (dg_parents d))"
      using assms(1) unfolding dag_ok_def by blast
    ultimately have "cm_commit_id c \<in> set (keys (dg_parents d))" using that by (metis closed_rtrancl)
    with assms(2) show False ..
  qed
  have "(\<exists>d'. append d c = Inr d') \<longleftrightarrow>
      cm_commit_id c \<noteq> [] \<and> set (cm_parent_commit_ids c) \<subseteq> set (keys (dg_parents d))"
    using no_path assms(2) by (auto simp: append_Inr_iff simp del: set_map)
  then show "is_ok (append d c) \<longleftrightarrow>
      cm_commit_id c \<noteq> [] \<and> set (cm_parent_commit_ids c) \<subseteq> set (keys (dg_parents d))"
    by (cases "append d c") auto
  show "append d c = Inr d' \<Longrightarrow> dg_parents d' = dg_parents d @ [parent_row c]"
    using assms(2) by (simp add: append_Inr_iff update_fresh parent_row_def del: set_map)
qed

lemma append_all_iff:
  assumes "dag_ok d" and "distinct (keys (dg_parents d) @ map cm_commit_id commits)"
  shows "(is_ok (append_all d commits) \<longleftrightarrow> loadable (set (keys (dg_parents d))) commits)
     \<and> (\<forall>d'. append_all d commits = Inr d' \<longrightarrow> dg_parents d' = dg_parents d @ map parent_row commits)"
  using assms
proof (induction commits arbitrary: d)
  case (Cons c commits)
  have fresh: "cm_commit_id c \<notin> set (keys (dg_parents d))" using Cons.prems(2) by auto
  show ?case
  proof (cases "append d c")
    case (Inl e)
    then have "\<not> is_ok (append d c)" by simp
    with append_fresh(1) [OF Cons.prems(1) fresh] Inl show ?thesis by auto
  next
    case (Inr d1)
    then have "is_ok (append d c)" by simp
    with append_fresh(1) [OF Cons.prems(1) fresh] have here:
      "cm_commit_id c \<noteq> []" "set (cm_parent_commit_ids c) \<subseteq> set (keys (dg_parents d))" by simp_all
    have d1: "dg_parents d1 = dg_parents d @ [parent_row c]"
      by (rule append_fresh(2) [OF Cons.prems(1) fresh Inr])
    then have keys1: "set (keys (dg_parents d1)) = insert (cm_commit_id c) (set (keys (dg_parents d)))"
      "distinct (keys (dg_parents d1) @ map cm_commit_id commits)"
      using Cons.prems(2) by (auto simp: parent_row_def)
    note rest = Cons.IH [OF dag_ok_append [OF Cons.prems(1) Inr] keys1(2)]
    have "is_ok (append_all d (c # commits)) \<longleftrightarrow> is_ok (append_all d1 commits)" using Inr by simp
    also have "\<dots> \<longleftrightarrow> loadable (set (keys (dg_parents d))) (c # commits)"
      using rest here keys1(1) by simp
    finally have "is_ok (append_all d (c # commits)) \<longleftrightarrow> loadable (set (keys (dg_parents d))) (c # commits)" .
    moreover have "dg_parents d' = dg_parents d @ map parent_row (c # commits)"
      if "append_all d (c # commits) = Inr d'" for d'
    proof -
      have "append_all d1 commits = Inr d'" using that Inr by simp
      then show ?thesis using rest d1 by simp
    qed
    ultimately show ?thesis by blast
  qed
qed simp

lemma from_commits_rows:
  assumes "distinct (map cm_commit_id commits)"
  shows "(is_ok (from_commits commits) \<longleftrightarrow> loadable {} commits)
     \<and> (\<forall>d. from_commits commits = Inr d \<longrightarrow> dg_parents d = map parent_row commits)"
proof -
  have k: "keys (dg_parents dag_default) = []" "dg_parents dag_default = []"
    by (simp_all add: dag_default_def)
  show ?thesis
    using append_all_iff [of dag_default commits] assms unfolding from_commits_def k by simp
qed

text \<open>
  At start-up the daemon rebuilds the index from the stored commits: this succeeds
  exactly when every commit has an id and comes after all its parents in the list it is given,
  and then the index records exactly the parents of every stored commit.
\<close>

theorem from_commits_iff:
  assumes "distinct (map cm_commit_id commits)"
  shows "(is_ok (from_commits commits) \<longleftrightarrow> loadable {} commits)
     \<and> (\<forall>d. from_commits commits = Inr d \<longrightarrow> dg_parents d = map parent_row commits)"
  using assms by (rule from_commits_rows)

theorem from_commits_iff_witness:
  "is_ok (from_commits [example_commit ''a'' [], example_commit ''b'' [''a'']])
   \<and> \<not> is_ok (from_commits [example_commit ''b'' [''a''], example_commit ''a'' []])"
  using from_commits_iff [of "[example_commit ''a'' [], example_commit ''b'' [''a'']]"]
    from_commits_iff [of "[example_commit ''b'' [''a''], example_commit ''a'' []]"]
  by simp

section \<open>The two indexes and the exported edges\<close>

definition children_ok :: "dag_index \<Rightarrow> bool" where
  "children_ok d \<longleftrightarrow>
     (\<forall>p c. c \<in> set (unwrap_or [] (map_of (dg_children d) p)) \<longleftrightarrow> (c, p) \<in> edges (dg_parents d))"

lemma fold_push_child:
  "x \<in> set (unwrap_or [] (map_of (fold (push_child c) ps children) p)) \<longleftrightarrow>
     x \<in> set (unwrap_or [] (map_of children p)) \<or> x = c \<and> p \<in> set ps"
  by (induction ps arbitrary: children) (auto simp: push_child_def map_of_update split: if_splits)

text \<open>
  Appending a new commit keeps the two hash maps inverse to each other: a commit is
  listed among the children of exactly its parents.
\<close>

theorem append_children:
  assumes "children_ok d" and "append d c = Inr d'" and "cm_commit_id c \<notin> set (keys (dg_parents d))"
  shows "children_ok d'"
proof -
  have "map_of (dg_parents d) (cm_commit_id c) = None"
    using assms(3) by (simp only: map_of_None_iff_keys not_False_eq_True)
  then have "(cm_commit_id c, p) \<notin> edges (dg_parents d)" for p by (simp add: edges_def)
  with assms(1,2) show ?thesis
    by (auto simp: children_ok_def append_Inr_iff fold_push_child edges_update simp del: set_map)
qed

theorem append_children_witness:
  "\<exists>d. append dag_default (example_commit ''a'' []) = Inr d \<and> children_ok d"
proof -
  have "children_ok dag_default"
    by (simp add: children_ok_def dag_default_def edges_def)
  moreover have "\<exists>d. append dag_default (example_commit ''a'' []) = Inr d"
    by (simp add: append_def dag_default_def)
  ultimately show ?thesis using append_children by (force simp: dag_default_def)
qed

lemma set_export_edges:
  assumes "distinct (keys (dg_parents d))"
  shows "set (export_edges d) = (edges (dg_parents d))\<inverse>"
  using assms by (force simp: export_edges_def edges_def)

section \<open>The contract\<close>

text \<open>
  What the rest of the daemon relies on: the graph has no cycle, and the ancestry of a commit
  lists every ancestor once, parents before children.
\<close>

locale dag_contract =
  fixes inv :: "'d \<Rightarrow> bool"
    and rel :: "'d \<Rightarrow> (string \<times> string) set"
    and ancestors :: "'d \<Rightarrow> string \<Rightarrow> string list"
  assumes contract_acyclic: "inv d \<Longrightarrow> acyclic (rel d)"
    and contract_set: "set (ancestors d c) = (rel d)\<^sup>* `` {c}"
    and contract_distinct: "distinct (ancestors d c)"
    and contract_order: "inv d \<Longrightarrow> parents_first (rel d) {} (ancestors d c)"
begin

text \<open>The ids listed before \<open>t\<close> contain all strict ancestors of \<open>t\<close> and no descendant.\<close>

lemma before_has_ancestors:
  assumes "inv d" and "t \<in> set (ancestors d c)" and "(t, y) \<in> (rel d)\<^sup>+"
  shows "y \<in> set (takeWhile (\<lambda>x. x \<noteq> t) (ancestors d c))"
proof -
  obtain us vs where s: "ancestors d c = us @ t # vs" "t \<notin> set us"
    using assms(2) by (meson split_list_first)
  with contract_order [OF assms(1), of c] assms(3) have "y \<in> set us"
    by (simp add: parents_first_ancestors)
  with s show ?thesis by (simp add: takeWhile_before)
qed

lemma before_no_descendant:
  assumes "inv d" and "x \<in> set (takeWhile (\<lambda>x. x \<noteq> t) (ancestors d c))"
  shows "(x, t) \<notin> (rel d)\<^sup>*"
proof
  assume r: "(x, t) \<in> (rel d)\<^sup>*"
  obtain us vs where s: "takeWhile (\<lambda>x. x \<noteq> t) (ancestors d c) = us @ x # vs"
    using assms(2) by (meson split_list)
  have "x \<noteq> t" using set_takeWhileD [OF assms(2)] by simp
  with r have "(x, t) \<in> (rel d)\<^sup>+" by (meson rtranclD)
  moreover have "ancestors d c = us @ x # (vs @ dropWhile (\<lambda>x. x \<noteq> t) (ancestors d c))"
    using s takeWhile_dropWhile_id [of "\<lambda>x. x \<noteq> t" "ancestors d c"] by (metis append.assoc append_Cons)
  ultimately have "t \<in> set us"
    using contract_order [OF assms(1), of c] by (metis parents_first_ancestors)
  then have "t \<in> set (takeWhile (\<lambda>x. x \<noteq> t) (ancestors d c))" using s by simp
  then show False by (auto dest: set_takeWhileD)
qed

text \<open>The first common ancestor in this order has no parent.\<close>

lemma first_common_is_root:
  assumes "inv d" and "List.find (\<lambda>x. x \<in> set (ancestors d a)) (ancestors d b) = Some x"
  shows "(a, x) \<in> (rel d)\<^sup>* \<and> (b, x) \<in> (rel d)\<^sup>* \<and> rel d `` {x} = {}"
proof -
  obtain us vs where s: "ancestors d b = us @ x # vs" "x \<in> set (ancestors d a)"
      "\<forall>y\<in>set us. y \<notin> set (ancestors d a)"
    using assms(2) unfolding find_split by blast
  have a: "(a, x) \<in> (rel d)\<^sup>*" using s(2) contract_set by auto
  have "p \<notin> rel d `` {x}" for p
  proof
    assume p: "p \<in> rel d `` {x}"
    have "parents_first (rel d) {} (us @ x # vs)" using contract_order [OF assms(1)] s(1) by metis
    then have "p \<in> set us" using p by (auto dest: parents_first_split)
    moreover have "p \<in> set (ancestors d a)"
      using a p contract_set by (auto intro: rtrancl_into_rtrancl)
    ultimately show False using s(3) by blast
  qed
  moreover have "(b, x) \<in> (rel d)\<^sup>*" using s(1) contract_set [of d b] by auto
  ultimately show ?thesis using a by blast
qed

lemma common_found_iff:
  "List.find (\<lambda>x. x \<in> set (ancestors d a)) (ancestors d b) = None \<longleftrightarrow>
     (\<forall>x. \<not> ((a, x) \<in> (rel d)\<^sup>* \<and> (b, x) \<in> (rel d)\<^sup>*))"
  by (auto simp: find_None_iff contract_set)

end

interpretation dag: dag_contract dag_ok "\<lambda>d. edges (dg_parents d)" ancestry
  by unfold_locales
     (auto simp: dag_ok_def set_ancestry distinct_ancestry intro: ancestry_parents_first)

text \<open>
  Claim C26. The function named nearest_common_ancestor finds a common ancestor whenever there is
  one, but the one it returns has no parents: it is a root of the history, the farthest common
  ancestor on its path and not the nearest.
\<close>

theorem nearest_common_ancestor_is_root:
  assumes "dag_ok d"
  shows "(nearest_common_ancestor d a b = None \<longleftrightarrow>
            \<not> (\<exists>x. (a, x) \<in> (edges (dg_parents d))\<^sup>* \<and> (b, x) \<in> (edges (dg_parents d))\<^sup>*))
     \<and> (\<forall>x. nearest_common_ancestor d a b = Some x \<longrightarrow>
            (a, x) \<in> (edges (dg_parents d))\<^sup>* \<and> (b, x) \<in> (edges (dg_parents d))\<^sup>*
            \<and> edges (dg_parents d) `` {x} = {})"
  using dag.common_found_iff [of d a b] dag.first_common_is_root [OF assms, of a b]
  unfolding nearest_common_ancestor_def Let_def by blast

theorem nearest_common_ancestor_is_root_witness:
  "\<exists>d. append_all dag_default [example_commit ''a'' [], example_commit ''b'' [''a''],
       example_commit ''c'' [''b''], example_commit ''d'' [''b'']] = Inr d
     \<and> nearest_common_ancestor d ''c'' ''d'' = Some ''a''
     \<and> edges (dg_parents d) `` {''a''} = {}"
proof -
  obtain d where d: "append_all dag_default [example_commit ''a'' [], example_commit ''b'' [''a''],
       example_commit ''c'' [''b''], example_commit ''d'' [''b'']] = Inr d"
      "dg_parents d = [(''a'', []), (''b'', [''a'']), (''c'', [''b'']), (''d'', [''b''])]"
    by (simp add: append_def dag_default_def reachable_locked_def)
  have "dag_ok d" using d(1) dag_ok_default by (rule append_all_ok)
  moreover have "nearest_common_ancestor d ''c'' ''d'' = Some ''a''"
    by (simp add: nearest_common_ancestor_def ancestry_def collect_ancestry_def d(2))
  ultimately show ?thesis using nearest_common_ancestor_is_root d(1) by blast
qed

end
