(* ===== verification/NetAddr.thy ===== *)
theory NetAddr
  imports Prelude
begin

text \<open>
  \<open>std::net\<close> as the configuration uses it: addresses, \<open>is_loopback\<close>, and \<open>SocketAddr::from_str\<close>,
  written as the recursive-descent parser of the standard library. A parser takes the text and
  returns the value with the rest, or \<open>None\<close>; a caller that goes on after \<open>None\<close> goes on from the
  text it had (\<open>read_atomically\<close>). The scope id of an IPv6 address is read and not kept: nothing
  in the daemon looks at it.
\<close>

section \<open>Addresses\<close>

text \<open>\<open>std::net::IpAddr\<close>: four octets, or eight 16-bit segments.\<close>

datatype ip_addr = V4 u8 u8 u8 u8 | V6 "16 word list"

record socket_addr =
  sa_ip :: ip_addr
  sa_port :: "16 word"

text \<open>\<open>IpAddr::is_loopback\<close>: 127.0.0.0/8, or ::1.\<close>

fun is_loopback :: "ip_addr \<Rightarrow> bool" where
  "is_loopback (V4 a b c d) = (a = 127)"
| "is_loopback (V6 segments) = (segments = [0, 0, 0, 0, 0, 0, 0, 1])"

section \<open>Numbers\<close>

text \<open>\<open>char::to_digit\<close>.\<close>

definition to_digit :: "nat \<Rightarrow> char \<Rightarrow> nat option" where
  "to_digit radix c =
     (let n = (of_char c :: nat);
          d = (if 48 \<le> n \<and> n \<le> 57 then n - 48
               else if 97 \<le> n \<and> n \<le> 122 then n - 87
               else if 65 \<le> n \<and> n \<le> 90 then n - 55 else 36)
      in if d < radix then Some d else None)"

fun span_digits :: "nat \<Rightarrow> string \<Rightarrow> nat list \<times> string" where
  "span_digits radix [] = ([], [])"
| "span_digits radix (c # s) =
     (case to_digit radix c of
        None \<Rightarrow> ([], c # s)
      | Some d \<Rightarrow> (let (ds, rest) = span_digits radix s in (d # ds, rest)))"

definition value_of :: "nat \<Rightarrow> nat list \<Rightarrow> nat" where
  "value_of radix ds = foldl (\<lambda>n d. n * radix + d) 0 ds"

text \<open>\<open>read_number\<close>: at most \<open>max\<close> digits if given, a leading zero only if allowed, below \<open>bound\<close>.\<close>

definition read_number ::
    "nat \<Rightarrow> nat option \<Rightarrow> bool \<Rightarrow> nat \<Rightarrow> string \<Rightarrow> (nat \<times> string) option" where
  "read_number radix max_digits allow_zero_prefix bound s =
     (let (ds, rest) = span_digits radix s in
      if ds = [] \<or> (\<exists>m\<in>set_option max_digits. length ds > m)
         \<or> (\<not> allow_zero_prefix \<and> hd s = CHR ''0'' \<and> length ds > 1)
         \<or> \<not> value_of radix ds < bound
      then None else Some (value_of radix ds, rest))"

fun read_given_char :: "char \<Rightarrow> string \<Rightarrow> string option" where
  "read_given_char c [] = None"
| "read_given_char c (x # s) = (if x = c then Some s else None)"

text \<open>\<open>read_separator\<close>: before all but the first item.\<close>

definition read_separator :: "char \<Rightarrow> nat \<Rightarrow> string \<Rightarrow> string option" where
  "read_separator sep i s = (if i = 0 then Some s else read_given_char sep s)"

section \<open>IPv4\<close>

definition read_octet :: "nat \<Rightarrow> string \<Rightarrow> (nat \<times> string) option" where
  "read_octet i s = Option.bind (read_separator (CHR ''.'') i s) (read_number 10 (Some 3) False 256)"

definition read_ipv4_addr :: "string \<Rightarrow> ((nat \<times> nat \<times> nat \<times> nat) \<times> string) option" where
  "read_ipv4_addr s =
     Option.bind (read_octet 0 s) (\<lambda>(a, s).
     Option.bind (read_octet 1 s) (\<lambda>(b, s).
     Option.bind (read_octet 2 s) (\<lambda>(c, s).
     Option.bind (read_octet 3 s) (\<lambda>(d, s). Some ((a, b, c, d), s)))))"

section \<open>IPv6\<close>

text \<open>
  \<open>read_groups\<close>: at most \<open>n\<close> more groups, the first at index \<open>i\<close>; the result says whether the last
  two came from an embedded IPv4 address, which needs room for two.
\<close>

fun read_groups :: "nat \<Rightarrow> nat \<Rightarrow> string \<Rightarrow> (16 word list \<times> bool) \<times> string" where
  "read_groups 0 i s = (([], False), s)"
| "read_groups (Suc n) i s =
     (case (if n > 0 then Option.bind (read_separator (CHR '':'') i s) read_ipv4_addr else None) of
        Some ((a, b, c, d), s') \<Rightarrow> (([of_nat (a * 256 + b), of_nat (c * 256 + d)], True), s')
      | None \<Rightarrow>
          (case Option.bind (read_separator (CHR '':'') i s) (read_number 16 (Some 4) True 65536) of
             None \<Rightarrow> (([], False), s)
           | Some (g, s') \<Rightarrow>
               (let ((gs, v4), s'') = read_groups n (Suc i) s' in ((of_nat g # gs, v4), s''))))"

definition read_ipv6_addr :: "string \<Rightarrow> (16 word list \<times> string) option" where
  "read_ipv6_addr s =
     (let ((head, head_ipv4), s) = read_groups 8 0 s in
      if length head = 8 then Some (head, s)
      else if head_ipv4 then None
      else Option.bind (Option.bind (read_given_char (CHR '':'') s) (read_given_char (CHR '':''))) (\<lambda>s.
     (let ((tail, _), s) = read_groups (8 - (length head + 1)) 0 s
      in Some (head @ replicate (8 - length head - length tail) 0 @ tail, s))))"

section \<open>Socket addresses\<close>

definition read_port :: "string \<Rightarrow> (nat \<times> string) option" where
  "read_port s = Option.bind (read_given_char (CHR '':'') s) (read_number 10 None True 65536)"

definition read_socket_addr_v4 :: "string \<Rightarrow> (socket_addr \<times> string) option" where
  "read_socket_addr_v4 s =
     Option.bind (read_ipv4_addr s) (\<lambda>((a, b, c, d), s).
     Option.bind (read_port s) (\<lambda>(port, s).
       Some (\<lparr>sa_ip = V4 (of_nat a) (of_nat b) (of_nat c) (of_nat d), sa_port = of_nat port\<rparr>, s)))"

definition read_scope_id :: "string \<Rightarrow> string option" where
  "read_scope_id s =
     Option.bind (read_given_char (CHR ''%'') s) (\<lambda>s.
       map_option snd (read_number 10 None True (2 ^ 32) s))"

definition read_socket_addr_v6 :: "string \<Rightarrow> (socket_addr \<times> string) option" where
  "read_socket_addr_v6 s =
     Option.bind (read_given_char (CHR ''['') s) (\<lambda>s.
     Option.bind (read_ipv6_addr s) (\<lambda>(ip, s).
     Option.bind (read_given_char (CHR '']'') (unwrap_or s (read_scope_id s))) (\<lambda>s.
     Option.bind (read_port s) (\<lambda>(port, s).
       Some (\<lparr>sa_ip = V6 ip, sa_port = of_nat port\<rparr>, s)))))"

text \<open>\<open>SocketAddr::from_str\<close>: the whole text must be read.\<close>

definition parse_socket_addr :: "string \<Rightarrow> socket_addr option" where
  "parse_socket_addr s =
     (case (case read_socket_addr_v4 s of Some r \<Rightarrow> Some r | None \<Rightarrow> read_socket_addr_v6 s) of
        Some (addr, []) \<Rightarrow> Some addr
      | _ \<Rightarrow> None)"

section \<open>A printed IPv4 address reads back\<close>

text \<open>\<open>Display\<close> of an IPv4 socket address.\<close>

definition show_v4 :: "u8 \<Rightarrow> u8 \<Rightarrow> u8 \<Rightarrow> u8 \<Rightarrow> 16 word \<Rightarrow> string" where
  "show_v4 a b c d port =
     show_nat (unat a) @ ''.'' @ show_nat (unat b) @ ''.'' @ show_nat (unat c) @ ''.''
     @ show_nat (unat d) @ '':'' @ show_nat (unat port)"

fun digits :: "nat \<Rightarrow> nat list" where
  "digits n = (if n < 10 then [n] else digits (n div 10) @ [n mod 10])"

declare digits.simps [simp del]

lemma show_nat_digits: "show_nat n = map digit_char (digits n)"
proof (induction n rule: digits.induct)
  case (1 n)
  then show ?case by (subst show_nat.simps, subst digits.simps) simp
qed

lemma digits_value: "value_of 10 (digits n) = n"
proof (induction n rule: digits.induct)
  case (1 n)
  then show ?case by (subst digits.simps) (simp add: value_of_def)
qed

lemma digits_small: "d \<in> set (digits n) \<Longrightarrow> d < 10"
proof (induction n rule: digits.induct)
  case (1 n)
  then show ?case by (cases "n < 10") (auto simp: digits.simps [of n])
qed

lemma digits_not_Nil [simp]: "digits n \<noteq> []"
  by (subst digits.simps) simp

lemma hd_digits: "10 \<le> n \<Longrightarrow> hd (digits n) \<noteq> 0"
proof (induction n rule: digits.induct)
  case (1 n)
  show ?case
  proof (cases "n div 10 < 10")
    case True
    then show ?thesis using "1.prems" by (simp add: digits.simps [of n] digits.simps [of "n div 10"])
  next
    case False
    then show ?thesis using 1 by (simp add: digits.simps [of n])
  qed
qed

lemma length_digits: "length (digits n) = 1 \<longleftrightarrow> n < 10"
  by (subst digits.simps) simp

lemma length_digits3: "n < 1000 \<Longrightarrow> length (digits n) \<le> 3"
  by (simp add: digits.simps)

lemma to_digit_digit_char: "d < 10 \<Longrightarrow> to_digit 10 (digit_char d) = Some d"
  by (simp add: to_digit_def digit_char_def of_char_of)

definition stops :: "string \<Rightarrow> bool" where
  "stops rest \<longleftrightarrow> rest = [] \<or> to_digit 10 (hd rest) = None"

lemma span_digits_map:
  "\<forall>d\<in>set ds. d < 10 \<Longrightarrow> stops rest \<Longrightarrow> span_digits 10 (map digit_char ds @ rest) = (ds, rest)"
proof (induction ds)
  case Nil
  then show ?case by (cases rest) (simp_all add: stops_def)
qed (simp add: to_digit_digit_char)

lemma digit_char_zero: "d < 10 \<Longrightarrow> (digit_char d = CHR ''0'') = (d = 0)"
proof
  have zero: "to_digit 10 (CHR ''0'') = Some 0" by (simp add: to_digit_def)
  assume "d < 10" "digit_char d = CHR ''0''"
  then show "d = 0" using zero to_digit_digit_char [of d] by simp
next
  assume "d = 0"
  moreover have "digit_char 0 = CHR ''0''" by code_simp
  ultimately show "digit_char d = CHR ''0''" by simp
qed

lemma read_number_show_nat:
  assumes "n < bound" "max_digits = None \<or> max_digits = Some 3 \<and> n < 1000" "stops rest"
  shows "read_number 10 max_digits zeros bound (show_nat n @ rest) = Some (n, rest)"
proof -
  have "span_digits 10 (show_nat n @ rest) = (digits n, rest)"
    unfolding show_nat_digits using assms(3) by (intro span_digits_map) (auto dest: digits_small)
  moreover have "hd (show_nat n @ rest) = digit_char (hd (digits n))"
    by (simp add: show_nat_digits hd_append hd_map)
  moreover have "digit_char (hd (digits n)) \<noteq> CHR ''0''" if "length (digits n) > 1"
  proof -
    have "10 \<le> n" using that length_digits [of n] by linarith
    then show ?thesis using hd_digits digits_small [OF hd_in_set [OF digits_not_Nil]]
      by (simp add: digit_char_zero)
  qed
  ultimately show ?thesis using assms(1,2) length_digits3 [of n]
    by (auto simp: read_number_def digits_value)
qed

lemma stops_char [simp]: "stops (CHR ''.'' # s)" "stops (CHR '':'' # s)" "stops []"
  by (simp_all add: stops_def to_digit_def)

text \<open>Whatever the octets and the port, \<open>from_str\<close> inverts \<open>Display\<close>.\<close>

lemma parse_show_v4: "parse_socket_addr (show_v4 a b c d port) = Some \<lparr>sa_ip = V4 a b c d, sa_port = port\<rparr>"
proof -
  have oct: "read_number 10 (Some 3) False 256 (show_nat (unat w) @ rest) = Some (unat w, rest)"
    if "stops rest" for w :: u8 and rest
    using that unsigned_less [of w] by (intro read_number_show_nat) auto
  have port: "read_number 10 None True 65536 (show_nat (unat port)) = Some (unat port, [])"
    using read_number_show_nat [of "unat port" 65536 None "[]" True] unsigned_less [of port] by simp
  show ?thesis
    by (simp add: parse_socket_addr_def read_socket_addr_v4_def read_ipv4_addr_def read_octet_def
        read_separator_def read_port_def show_v4_def oct port)
qed
end
