(* ===== verification/Config.thy ===== *)
theory Config
  imports Env NetAddr
begin

text \<open>
  \<open>daemon/src/config.rs\<close>: the configuration the daemon runs with, how \<open>from_env\<close> reads it from
  the environment and nexus.toml, and the policy that \<open>validate_network_policy\<close> enforces on it
  before a socket is opened.
\<close>

section \<open>The configuration\<close>

record config =
  cf_data_dir :: string
  cf_bind_mode :: string
  cf_grpc_addr :: socket_addr
  cf_uds_path :: string
  cf_windows_pipe_name :: string
  cf_http_addr :: socket_addr
  cf_metrics_addr :: socket_addr
  cf_auth_token :: "string option"
  cf_require_auth :: bool
  cf_allow_remote :: bool
  cf_store :: string
  cf_sqlite_path :: string
  cf_rocksdb_path :: string
  cf_artifact_dir :: string
  cf_compression_threshold_bytes :: nat
  cf_max_inline_payload_bytes :: nat
  cf_persist_ephemeral :: bool
  cf_redaction_enabled :: bool
  cf_encryption_at_rest :: bool
  cf_loop_detection_enabled :: bool
  cf_mcp_enabled :: bool
  cf_otel_enabled :: bool
  cf_cluster_enabled :: bool
  cf_cluster_role :: string
  cf_cluster_primary_addr :: "string option"
  cf_cluster_shared_token :: "string option"

text \<open>The loop over the three named addresses stops at the first that is not loopback.\<close>

fun check_loopback :: "(string \<times> socket_addr) list \<Rightarrow> unit result" where
  "check_loopback [] = Inr ()"
| "check_loopback ((name, addr) # rest) =
     (if \<not> is_loopback (sa_ip addr)
      then Inl (Anyhow (name @ '' must bind to a loopback address unless NEXUS_ALLOW_REMOTE=true''))
      else check_loopback rest)"

definition validate_network_policy :: "config \<Rightarrow> unit result" where
  "validate_network_policy self =
     and_then
       (if \<not> cf_allow_remote self
        then check_loopback
               [(''NEXUS_GRPC_ADDR'', cf_grpc_addr self),
                (''NEXUS_HTTP_ADDR'', cf_http_addr self),
                (''NEXUS_METRICS_ADDR'', cf_metrics_addr self)]
        else Inr ())
       (\<lambda>_. if cf_bind_mode self = ''tcp'' \<and> cf_require_auth self \<and> cf_auth_token self = None
             then Inl (Anyhow ''TCP mode requires NEXUS_AUTH_TOKEN unless NEXUS_REQUIRE_AUTH=false'')
             else Inr ())"

section \<open>Values read from the environment\<close>

text \<open>
  Each setting is looked up as an environment variable, then in nexus.toml. The two lookups
  are the arguments \<open>var\<close> and \<open>file\<close>; \<open>file\<close> is \<open>file_value\<close> of the parsed file. The parser
  of toml is a parameter: what it returns is a table from keys to values.
\<close>

type_synonym lookup = "string \<Rightarrow> string option"

definition setting :: "lookup \<Rightarrow> lookup \<Rightarrow> string \<Rightarrow> string option" where
  "setting var file key = (case var key of Some v \<Rightarrow> Some v | None \<Rightarrow> file key)"

definition env_or :: "lookup \<Rightarrow> lookup \<Rightarrow> string \<Rightarrow> string \<Rightarrow> string" where
  "env_or var file key default_value = unwrap_or default_value (setting var file key)"

text \<open>
  \<open>value.trim().is_empty()\<close>: the text is white space only. Beyond ASCII, the white space
  of Unicode is U+0085, U+00A0 (two bytes), U+1680, U+2000 to U+200A, U+2028, U+2029,
  U+202F, U+205F and U+3000 (three bytes).
\<close>

definition space1 :: "char \<Rightarrow> bool" where
  "space1 a = (let x = (of_char a :: nat) in (9 \<le> x \<and> x \<le> 13) \<or> x = 32)"

definition space2 :: "char \<Rightarrow> char \<Rightarrow> bool" where
  "space2 a b = (a = CHR 0xC2 \<and> (b = CHR 0x85 \<or> b = CHR 0xA0))"

definition space3 :: "char \<Rightarrow> char \<Rightarrow> char \<Rightarrow> bool" where
  "space3 a b c = (let z = (of_char c :: nat) in
     (a = CHR 0xE1 \<and> b = CHR 0x9A \<and> z = 0x80)
     \<or> (a = CHR 0xE2 \<and> b = CHR 0x80 \<and> (0x80 \<le> z \<and> z \<le> 0x8A \<or> z = 0xA8 \<or> z = 0xA9 \<or> z = 0xAF))
     \<or> (a = CHR 0xE2 \<and> b = CHR 0x81 \<and> z = 0x9F)
     \<or> (a = CHR 0xE3 \<and> b = CHR 0x80 \<and> z = 0x80))"

fun blank :: "string \<Rightarrow> bool" where
  "blank [] = True"
| "blank (a # s) =
     (if space1 a then blank s
      else (case s of
              [] \<Rightarrow> False
            | b # t \<Rightarrow>
                if space2 a b then blank t
                else (case t of [] \<Rightarrow> False | c # u \<Rightarrow> space3 a b c \<and> blank u)))"

definition optional_env :: "lookup \<Rightarrow> lookup \<Rightarrow> string \<Rightarrow> string option" where
  "optional_env var file key =
     (case setting var file key of
        Some value \<Rightarrow> if blank value then None else Some value
      | None \<Rightarrow> None)"

definition env_bool :: "lookup \<Rightarrow> lookup \<Rightarrow> string \<Rightarrow> bool \<Rightarrow> bool" where
  "env_bool var file key default_value =
     unwrap_or default_value
       (map_option (\<lambda>value. value \<in> {''1'', ''true'', ''TRUE'', ''yes'', ''on''})
          (setting var file key))"

text \<open>\<open>str::parse::<usize>\<close>: an optional plus sign and decimal digits, below 2 to the 64.\<close>

definition parse_usize :: "string \<Rightarrow> nat option" where
  "parse_usize value =
     (let digits = (case value of c # rest \<Rightarrow> if c = CHR ''+'' then rest else value | [] \<Rightarrow> []) in
      case read_number 10 None True (2 ^ 64) digits of
        Some (n, []) \<Rightarrow> Some n
      | _ \<Rightarrow> None)"

definition env_usize :: "lookup \<Rightarrow> lookup \<Rightarrow> string \<Rightarrow> nat \<Rightarrow> nat" where
  "env_usize var file key default_value =
     unwrap_or default_value (Option.bind (setting var file key) parse_usize)"

datatype toml_value = TomlString string | TomlInteger i64 | TomlBoolean bool | TomlOther

fun toml_text :: "toml_value \<Rightarrow> string option" where
  "toml_text (TomlString txt) = Some txt"
| "toml_text (TomlInteger number) = Some (show_int (sint number))"
| "toml_text (TomlBoolean b) = Some (if b then ''true'' else ''false'')"
| "toml_text TomlOther = None"

text \<open>\<open>None\<close> is a file that is absent, unreadable or not toml.\<close>

definition file_value :: "(string \<Rightarrow> toml_value option) option \<Rightarrow> lookup" where
  "file_value table env_key =
     (let key = to_ascii_lowercase (unwrap_or env_key (strip_prefix ''NEXUS_'' env_key)) in
      Option.bind table (\<lambda>get. Option.bind (get key) toml_text))"

text \<open>\<open>PathBuf::join\<close> on Unix: an absolute path replaces, otherwise one separator in between.\<close>

definition path_join :: "string \<Rightarrow> string \<Rightarrow> string" where
  "path_join base rest =
     (if prefix ''/'' rest then rest
      else if base = [] \<or> last base = CHR ''/'' then base @ rest
      else base @ ''/'' @ rest)"

definition expand_tilde :: "lookup \<Rightarrow> string \<Rightarrow> string" where
  "expand_tilde var_os path =
     (case strip_prefix ''~/'' path of
        None \<Rightarrow> path
      | Some rest \<Rightarrow>
          (case (case var_os ''USERPROFILE'' of Some h \<Rightarrow> Some h | None \<Rightarrow> var_os ''HOME'') of
             Some home \<Rightarrow> path_join home rest
           | None \<Rightarrow> path))"

definition parse_addr :: "lookup \<Rightarrow> lookup \<Rightarrow> string \<Rightarrow> string \<Rightarrow> socket_addr result" where
  "parse_addr var file key default_value =
     (case parse_socket_addr (env_or var file key default_value) of
        Some addr \<Rightarrow> Inr addr
      | None \<Rightarrow> Inl (Anyhow (''parse '' @ key)))"

text \<open>The raw string of the source: two backslashes, a dot, and so on.\<close>

definition default_pipe :: string where
  "default_pipe = [CHR 0x5C, CHR 0x5C, CHR ''.'', CHR 0x5C] @ ''pipe'' @ [CHR 0x5C] @ ''nexus''"

text \<open>
  \<open>var\<close> is \<open>env::var(_).ok()\<close> and \<open>var_os\<close> is \<open>env::var_os\<close>; they differ on values that are not
  UTF-8. \<open>windows\<close> is \<open>cfg!(windows)\<close>.
\<close>

definition from_env :: "bool \<Rightarrow> lookup \<Rightarrow> lookup \<Rightarrow> lookup \<Rightarrow> config result" where
  "from_env windows var_os var file =
     (let data_dir = expand_tilde var_os (env_or var file ''NEXUS_DATA_DIR'' ''~/.nexus'') in
      and_then (parse_addr var file ''NEXUS_GRPC_ADDR'' ''127.0.0.1:7821'') (\<lambda>grpc_addr.
      and_then (parse_addr var file ''NEXUS_HTTP_ADDR'' ''127.0.0.1:7822'') (\<lambda>http_addr.
      and_then (parse_addr var file ''NEXUS_METRICS_ADDR'' ''127.0.0.1:7823'') (\<lambda>metrics_addr.
      Inr \<lparr>
        cf_data_dir = data_dir,
        cf_bind_mode = env_or var file ''NEXUS_BIND_MODE'' (if windows then ''tcp'' else ''uds''),
        cf_grpc_addr = grpc_addr,
        cf_uds_path = expand_tilde var_os (env_or var file ''NEXUS_UDS_PATH'' ''/tmp/nexus.sock''),
        cf_windows_pipe_name = env_or var file ''NEXUS_WINDOWS_PIPE_NAME'' default_pipe,
        cf_http_addr = http_addr,
        cf_metrics_addr = metrics_addr,
        cf_auth_token = optional_env var file ''NEXUS_AUTH_TOKEN'',
        cf_require_auth = env_bool var file ''NEXUS_REQUIRE_AUTH'' True,
        cf_allow_remote = env_bool var file ''NEXUS_ALLOW_REMOTE'' False,
        cf_store = env_or var file ''NEXUS_STORE'' ''sqlite'',
        cf_sqlite_path = expand_tilde var_os (env_or var file ''NEXUS_SQLITE_PATH'' ''~/.nexus/nexus.sqlite''),
        cf_rocksdb_path = expand_tilde var_os (env_or var file ''NEXUS_ROCKSDB_PATH'' ''~/.nexus/rocksdb''),
        cf_artifact_dir = expand_tilde var_os (env_or var file ''NEXUS_ARTIFACT_DIR'' ''~/.nexus/artifacts''),
        cf_compression_threshold_bytes = env_usize var file ''NEXUS_COMPRESSION_THRESHOLD_BYTES'' 4096,
        cf_max_inline_payload_bytes = env_usize var file ''NEXUS_MAX_INLINE_PAYLOAD_BYTES'' 65536,
        cf_persist_ephemeral = env_bool var file ''NEXUS_PERSIST_EPHEMERAL'' False,
        cf_redaction_enabled = env_bool var file ''NEXUS_REDACTION_ENABLED'' True,
        cf_encryption_at_rest = env_bool var file ''NEXUS_ENCRYPTION_AT_REST'' False,
        cf_loop_detection_enabled = env_bool var file ''NEXUS_LOOP_DETECTION_ENABLED'' True,
        cf_mcp_enabled = env_bool var file ''NEXUS_MCP_ENABLED'' False,
        cf_otel_enabled = env_bool var file ''NEXUS_OTEL_ENABLED'' False,
        cf_cluster_enabled = env_bool var file ''NEXUS_CLUSTER_ENABLED'' False,
        cf_cluster_role = env_or var file ''NEXUS_CLUSTER_ROLE'' ''primary'',
        cf_cluster_primary_addr = optional_env var file ''NEXUS_CLUSTER_PRIMARY_ADDR'',
        cf_cluster_shared_token = optional_env var file ''NEXUS_CLUSTER_SHARED_TOKEN''\<rparr>))))"

section \<open>prepare\<close>

text \<open>
  \<open>Path::parent\<close> on Unix, for paths without \<open>.\<close> components: the path without its last name;
  the root and the empty path have none.
\<close>

definition path_parent :: "string \<Rightarrow> string option" where
  "path_parent path =
     (let trimmed = dropWhile ((=) (CHR ''/'')) (rev path);
          rest = dropWhile ((\<noteq>) (CHR ''/'')) trimmed;
          parent = dropWhile ((=) (CHR ''/'')) rest
      in if trimmed = [] then None
         else if parent = [] then Some (if rest = [] then [] else ''/'')
         else Some (rev parent))"

text \<open>\<open>rocksdb\<close> is \<open>cfg!(feature = "rocksdb-store")\<close>. Creating a directory that exists succeeds.\<close>

definition prepare :: "env \<Rightarrow> bool \<Rightarrow> config \<Rightarrow> unit result" where
  "prepare E rocksdb self =
     and_then (guard_fault (fs_fault E (FsCreateDir (cf_data_dir self)))) (\<lambda>_.
     and_then (guard_fault (fs_fault E (FsCreateDir (cf_artifact_dir self)))) (\<lambda>_.
     and_then (case path_parent (cf_sqlite_path self) of
                 Some parent \<Rightarrow> guard_fault (fs_fault E (FsCreateDir parent))
               | None \<Rightarrow> Inr ()) (\<lambda>_.
       if cf_store self = ''rocksdb'' \<and> \<not> rocksdb
       then Inl (Anyhow ''NEXUS_STORE=rocksdb requires building with --features rocksdb-store'')
       else Inr ())))"

section \<open>Facts\<close>

lemma check_loopback_Inr_iff:
  "check_loopback xs = Inr u \<longleftrightarrow> (\<forall>(name, addr)\<in>set xs. is_loopback (sa_ip addr))"
  by (induction xs) (auto split: if_splits)

text \<open>A local daemon with authentication and a token.\<close>

definition example_config :: config where
  "example_config = \<lparr>
     cf_data_dir = ''/h/.nexus'', cf_bind_mode = ''uds'',
     cf_grpc_addr = \<lparr>sa_ip = V4 127 0 0 1, sa_port = 7821\<rparr>,
     cf_uds_path = ''/tmp/nexus.sock'', cf_windows_pipe_name = ''nexus'',
     cf_http_addr = \<lparr>sa_ip = V4 127 0 0 1, sa_port = 7822\<rparr>,
     cf_metrics_addr = \<lparr>sa_ip = V4 127 0 0 1, sa_port = 7823\<rparr>,
     cf_auth_token = Some ''t'', cf_require_auth = True, cf_allow_remote = False,
     cf_store = ''sqlite'', cf_sqlite_path = ''/h/.nexus/nexus.sqlite'',
     cf_rocksdb_path = ''/h/.nexus/rocksdb'', cf_artifact_dir = ''/h/.nexus/artifacts'',
     cf_compression_threshold_bytes = 4096, cf_max_inline_payload_bytes = 65536,
     cf_persist_ephemeral = False, cf_redaction_enabled = True, cf_encryption_at_rest = False,
     cf_loop_detection_enabled = True, cf_mcp_enabled = False, cf_otel_enabled = False,
     cf_cluster_enabled = False, cf_cluster_role = ''primary'', cf_cluster_primary_addr = None,
     cf_cluster_shared_token = None\<rparr>"

section \<open>The network policy\<close>

lemma validate_network_policy_iff:
  "validate_network_policy c = Inr () \<longleftrightarrow>
     (cf_allow_remote c \<or> is_loopback (sa_ip (cf_grpc_addr c)) \<and> is_loopback (sa_ip (cf_http_addr c))
        \<and> is_loopback (sa_ip (cf_metrics_addr c)))
     \<and> (cf_bind_mode c \<noteq> ''tcp'' \<or> \<not> cf_require_auth c \<or> cf_auth_token c \<noteq> None)"
  by (auto simp: validate_network_policy_def result_simps split: if_splits)

lemma env_or_var: "var key = Some v \<Longrightarrow> env_or var file key d = v"
  by (simp add: env_or_def setting_def)

lemma from_env_ok:
  assumes "from_env windows var_os var file = Inr c"
  shows "parse_addr var file ''NEXUS_GRPC_ADDR'' ''127.0.0.1:7821'' = Inr (cf_grpc_addr c)"
    and "parse_addr var file ''NEXUS_HTTP_ADDR'' ''127.0.0.1:7822'' = Inr (cf_http_addr c)"
    and "parse_addr var file ''NEXUS_METRICS_ADDR'' ''127.0.0.1:7823'' = Inr (cf_metrics_addr c)"
    and "cf_allow_remote c = env_bool var file ''NEXUS_ALLOW_REMOTE'' False"
  using assms by (auto simp: from_env_def Let_def result_simps)

text \<open>
  A daemon never listens beyond the machine by accident: if one of the three addresses
  is set to an IPv4 address outside 127.0.0.0/8, in any spelling that \<open>Display\<close> gives, and remote
  binding is not switched on, then every configuration that \<open>from_env\<close> builds is refused by the
  network policy that \<open>run\<close> checks before it opens a socket.
\<close>

theorem remote_address_refused:
  assumes "var key = Some (show_v4 a b c d port)"
    and "key \<in> {''NEXUS_GRPC_ADDR'', ''NEXUS_HTTP_ADDR'', ''NEXUS_METRICS_ADDR''}"
    and "a \<noteq> 127" "\<not> env_bool var file ''NEXUS_ALLOW_REMOTE'' False"
    and "from_env windows var_os var file = Inr config"
  shows "validate_network_policy config \<noteq> Inr ()"
proof -
  have addr: "parse_addr var file key default_value = Inr \<lparr>sa_ip = V4 a b c d, sa_port = port\<rparr>" for default_value
    using assms(1) by (simp add: parse_addr_def env_or_var parse_show_v4)
  have "cf_grpc_addr config = \<lparr>sa_ip = V4 a b c d, sa_port = port\<rparr>
      \<or> cf_http_addr config = \<lparr>sa_ip = V4 a b c d, sa_port = port\<rparr>
      \<or> cf_metrics_addr config = \<lparr>sa_ip = V4 a b c d, sa_port = port\<rparr>"
    using assms(2) from_env_ok(1-3) [OF assms(5)] addr [of "''127.0.0.1:7821''"]
      addr [of "''127.0.0.1:7822''"] addr [of "''127.0.0.1:7823''"]
    by (elim insertE) simp_all
  then show ?thesis
    using assms(3,4) from_env_ok(4) [OF assms(5)] by (auto simp: validate_network_policy_iff)
qed

text \<open>The settings of a process: none but a home directory, and one more variable.\<close>

definition home_only :: lookup where
  "home_only key = (if key = ''HOME'' then Some ''/h'' else None)"

definition no_file :: lookup where
  "no_file key = None"

lemma home_only_from_env:
  assumes "var ''NEXUS_HTTP_ADDR'' = None" "var ''NEXUS_METRICS_ADDR'' = None"
    and "var ''NEXUS_GRPC_ADDR'' = None \<or> var ''NEXUS_GRPC_ADDR'' = Some ''10.0.0.1:7821''"
  shows "\<exists>c. from_env False home_only var no_file = Inr c"
proof -
  have "parse_socket_addr ''127.0.0.1:7821'' \<noteq> None" "parse_socket_addr ''127.0.0.1:7822'' \<noteq> None"
    "parse_socket_addr ''127.0.0.1:7823'' \<noteq> None" "parse_socket_addr ''10.0.0.1:7821'' \<noteq> None"
    using parse_show_v4 [of 127 0 0 1 7821] parse_show_v4 [of 127 0 0 1 7822]
      parse_show_v4 [of 127 0 0 1 7823] parse_show_v4 [of 10 0 0 1 7821]
    by (simp_all add: show_v4_def show_nat.simps digit_chars)
  then show ?thesis using assms
    by (auto simp: from_env_def parse_addr_def env_or_def setting_def no_file_def Let_def result_simps
        split: option.splits)
qed

theorem remote_address_refused_witness:
  "\<exists>config. from_env False home_only (home_only(''NEXUS_GRPC_ADDR'' \<mapsto> ''10.0.0.1:7821'')) no_file = Inr config
     \<and> validate_network_policy config \<noteq> Inr ()"
proof -
  let ?var = "home_only(''NEXUS_GRPC_ADDR'' \<mapsto> ''10.0.0.1:7821'')"
  obtain config where c: "from_env False home_only ?var no_file = Inr config"
    using home_only_from_env [of ?var] by (auto simp: home_only_def)
  have "?var ''NEXUS_GRPC_ADDR'' = Some (show_v4 10 0 0 1 7821)"
    by (simp add: show_v4_def show_nat.simps digit_chars)
  then have "validate_network_policy config \<noteq> Inr ()"
    by (rule remote_address_refused [OF _ _ _ _ c])
      (simp_all add: env_bool_def setting_def no_file_def home_only_def)
  with c show ?thesis by blast
qed

end
