(* ===== verification/Auth.thy ===== *)
theory Auth
  imports Config
begin

text \<open>
  \<open>daemon/src/auth\<close>: the names of permission scopes (scopes.rs), the granting and checking
  of scopes (permissions.rs) and the bearer token of both transports (token.rs).
\<close>

section \<open>scopes.rs\<close>

definition admin_metrics :: string where "admin_metrics = ''admin:metrics''"
definition admin_agents :: string where "admin_agents = ''admin:agents''"
definition admin_shutdown :: string where "admin_shutdown = ''admin:shutdown''"

definition channel_read :: "string \<Rightarrow> string" where
  "channel_read pat = ''channel:read:'' @ pat"

definition channel_write :: "string \<Rightarrow> string" where
  "channel_write pat = ''channel:write:'' @ pat"

definition channel_checkpoint :: "string \<Rightarrow> string" where
  "channel_checkpoint pat = ''channel:checkpoint:'' @ pat"

definition ledger_read :: "string \<Rightarrow> string" where
  "ledger_read run_id = ''ledger:read:'' @ run_id"

definition ledger_fork :: "string \<Rightarrow> string" where
  "ledger_fork run_id = ''ledger:fork:'' @ run_id"

definition ledger_rollback :: "string \<Rightarrow> string" where
  "ledger_rollback run_id = ''ledger:rollback:'' @ run_id"

section \<open>permissions.rs\<close>

definition grant_requested :: "config \<Rightarrow> permission_scope list \<Rightarrow> permission_scope list" where
  "grant_requested config requested =
     (if \<not> cf_require_auth config then [\<lparr>scope_value = ''*''\<rparr>]
      else if requested = [] then
        [\<lparr>scope_value = ''channel:read:*''\<rparr>,
         \<lparr>scope_value = ''channel:write:*''\<rparr>,
         \<lparr>scope_value = ''channel:checkpoint:*''\<rparr>,
         \<lparr>scope_value = ''ledger:read:*''\<rparr>]
      else requested)"

definition scope_matches :: "string \<Rightarrow> string \<Rightarrow> bool" where
  "scope_matches scope required =
     (if scope = ''*'' \<or> scope = required then True
      else (case strip_suffix_char (CHR ''*'') scope of
              Some pre \<Rightarrow> prefix pre required
            | None \<Rightarrow> False))"

definition is_allowed :: "config \<Rightarrow> permission_scope list \<Rightarrow> string \<Rightarrow> bool" where
  "is_allowed config granted required =
     (if \<not> cf_require_auth config then True
      else (\<exists>scope\<in>set granted. scope_matches (scope_value scope) required))"

section \<open>token.rs\<close>

text \<open>
  \<open>a.iter().zip(b.iter()).fold(0u8, |acc, (l, r)| acc | (l ^ r)) == 0\<close> on vectors of equal
  length: the comparison looks at every byte whatever the earlier ones were.
\<close>

definition u8_of :: "char \<Rightarrow> u8" where
  "u8_of c = of_char c"

definition constant_time_eq :: "bytes \<Rightarrow> bytes \<Rightarrow> bool" where
  "constant_time_eq a b =
     (if length a \<noteq> length b then False
      else fold (\<lambda>(left, right) acc. acc OR (u8_of left XOR u8_of right)) (zip a b) 0 = 0)"

datatype status_code =
    Unauthorized | Forbidden | BadRequest | NotFound | InternalServerError

text \<open>
  The transports hand over the value of the \<open>authorization\<close> header, if there is one and it
  is visible ASCII (\<open>to_str\<close>).
\<close>

definition visible_ascii :: "string \<Rightarrow> bool" where
  "visible_ascii s = list_all (\<lambda>c. (32 \<le> (of_char c :: nat) \<and> (of_char c :: nat) < 127)
                                    \<or> (of_char c :: nat) = 9) s"

definition bearer :: "string option \<Rightarrow> string option" where
  "bearer header =
     (case header of
        None \<Rightarrow> None
      | Some value \<Rightarrow> if visible_ascii value then strip_prefix ''Bearer '' value else None)"

definition validate_http :: "string option \<Rightarrow> config \<Rightarrow> status_code + unit" where
  "validate_http header config =
     (if \<not> cf_require_auth config then Inr ()
      else (case cf_auth_token config of
              None \<Rightarrow> Inl Unauthorized
            | Some expected \<Rightarrow>
                (case bearer header of
                   None \<Rightarrow> Inl Unauthorized
                 | Some actual \<Rightarrow>
                     if constant_time_eq actual expected then Inr () else Inl Forbidden)))"

datatype grpc_status =
    Unauthenticated string | PermissionDenied string | GrpcNotFound string
  | InvalidArgument string | Internal string

definition validate_grpc :: "string option \<Rightarrow> config \<Rightarrow> grpc_status + unit" where
  "validate_grpc header config =
     (if \<not> cf_require_auth config then Inr ()
      else (case cf_auth_token config of
              None \<Rightarrow> Inl (Unauthenticated ''auth token required'')
            | Some expected \<Rightarrow>
                (case bearer header of
                   None \<Rightarrow> Inl (Unauthenticated ''bearer token required'')
                 | Some actual \<Rightarrow>
                     if constant_time_eq actual expected then Inr ()
                     else Inl (PermissionDenied ''invalid bearer token''))))"

section \<open>Token comparison\<close>

lemma u8_of_inject [simp]: "u8_of a = u8_of b \<longleftrightarrow> a = b"
proof
  have n: "unat (u8_of c) = of_char c" for c
  proof -
    have "u8_of c = of_nat (of_char c)" by (simp only: u8_of_def of_nat_of_char)
    moreover have "(of_char c :: nat) < 256" by simp
    ultimately show ?thesis by (simp add: unat_of_nat)
  qed
  assume "u8_of a = u8_of b"
  then have "unat (u8_of a) = unat (u8_of b)" by simp
  then have "(of_char a :: nat) = of_char b" by (simp only: n)
  then show "a = b" by (rule inj_of_char [THEN injD])
qed simp

lemma word_or_zero: "a OR b = (0 :: u8) \<longleftrightarrow> a = 0 \<and> b = 0"
  by (auto simp: bit_eq_iff bit_simps)

lemma word_xor_zero: "a XOR b = (0 :: u8) \<longleftrightarrow> a = b"
  by (auto simp: bit_eq_iff bit_simps)

lemma fold_or_xor:
  "fold (\<lambda>(left, right) acc. acc OR (u8_of left XOR u8_of right)) ps acc = 0 \<longleftrightarrow>
     acc = 0 \<and> (\<forall>(left, right)\<in>set ps. left = right)"
  by (induction ps arbitrary: acc) (auto simp: word_or_zero word_xor_zero)

lemma zip_equal_iff:
  "length a = length b \<Longrightarrow> (\<forall>(x, y)\<in>set (zip a b). x = y) \<longleftrightarrow> a = b"
  by (induction a b rule: list_induct2) auto

lemma constant_time_eq_iff [simp]: "constant_time_eq a b \<longleftrightarrow> a = b"
proof (cases "length a = length b")
  case True
  then show ?thesis by (simp add: constant_time_eq_def fold_or_xor zip_equal_iff)
qed (auto simp: constant_time_eq_def)

text \<open>
  The constant-time comparison of token.rs, which folds the XOR of every pair of bytes
  into one accumulator, decides equality of the two byte vectors.
\<close>

theorem constant_time_eq_correct: "constant_time_eq a b \<longleftrightarrow> a = b"
  by simp

section \<open>Who passes\<close>

lemma bearer_Some: "bearer h = Some t \<longleftrightarrow> h = Some (''Bearer '' @ t) \<and> visible_ascii (''Bearer '' @ t)"
  by (auto simp: bearer_def split: option.splits if_splits)

text \<open>
  Claim C33. The HTTP guard lets a request through exactly when authentication is off, or a token
  is configured and the header is "Bearer " followed by that very token, in visible ASCII; in particular, with
  authentication required and no token configured every request is refused (fail closed).
\<close>

theorem validate_http_accepts_iff:
  "validate_http header config = Inr () \<longleftrightarrow>
     \<not> cf_require_auth config \<or>
     (\<exists>token. cf_auth_token config = Some token \<and> header = Some (''Bearer '' @ token)
        \<and> visible_ascii (''Bearer '' @ token))"
proof (cases "bearer header")
  case None
  then have "\<not> (header = Some (''Bearer '' @ t) \<and> visible_ascii (''Bearer '' @ t))" for t
    by (metis bearer_Some option.distinct(1))
  with None show ?thesis by (auto simp: validate_http_def split: option.splits)
next
  case (Some actual)
  then have h: "header = Some (''Bearer '' @ actual)" "visible_ascii (''Bearer '' @ actual)"
    by (simp_all only: bearer_Some)
  show ?thesis
    unfolding validate_http_def Some using h by (auto split: option.splits)
qed

theorem validate_http_accepts_iff_witness:
  "validate_http (Some ''Bearer t'') example_config = Inr ()
   \<and> validate_http (Some ''Bearer u'') example_config \<noteq> Inr ()
   \<and> validate_http (Some ''Bearer t'') (example_config\<lparr>cf_auth_token := None\<rparr>) \<noteq> Inr ()"
  unfolding validate_http_accepts_iff by (simp add: example_config_def visible_ascii_def)

text \<open>
  The two transports agree: the gRPC interceptor accepts a header exactly when the HTTP
  guard does, and a header that carries a wrong token is told apart from a missing one by both.
\<close>

theorem transports_agree:
  "(validate_grpc header config = Inr () \<longleftrightarrow> validate_http header config = Inr ())
   \<and> ((\<exists>m. validate_grpc header config = Inl (PermissionDenied m)) \<longleftrightarrow>
        validate_http header config = Inl Forbidden)"
  by (auto simp: validate_grpc_def validate_http_def split: option.splits)

section \<open>Scopes\<close>

lemma scope_matches_iff:
  "scope_matches scope required \<longleftrightarrow>
     scope = required \<or> (\<exists>pre. scope = pre @ ''*'' \<and> prefix pre required)"
proof (cases "strip_suffix_char (CHR ''*'') scope")
  case None
  then have "scope \<noteq> pre @ ''*''" for pre by (simp add: strip_suffix_char_None)
  with None show ?thesis by (auto simp: scope_matches_def)
next
  case (Some pre)
  then have "scope = pre @ ''*''" by simp
  then show ?thesis
    by (auto simp: scope_matches_def)
qed

lemma is_allowed_mono:
  "is_allowed config granted required \<Longrightarrow> set granted \<subseteq> set wider \<Longrightarrow>
   is_allowed config wider required"
  by (auto simp: is_allowed_def split: if_splits)

lemma scope_prefix [simp]: "scope_matches (pre @ ''*'') required \<longleftrightarrow> prefix pre required \<or> required = pre @ ''*''"
  by (auto simp: scope_matches_iff)

text \<open>
  Under authentication, an agent that asks for no scope gets exactly the channel read,
  write and checkpoint scopes and the ledger read scope of every name, and nothing else: no
  ledger fork, no ledger rollback, no admin scope.
\<close>

theorem default_grants_exact:
  assumes "cf_require_auth config"
  shows "is_allowed config (grant_requested config []) required \<longleftrightarrow>
     (\<exists>pre\<in>{''channel:read:'', ''channel:write:'', ''channel:checkpoint:'', ''ledger:read:''}.
        prefix pre required)"
proof -
  have "scope_matches (pre @ ''*'') required \<longleftrightarrow> prefix pre required" for pre
    by auto
  from this [of "''channel:read:''"] this [of "''channel:write:''"]
    this [of "''channel:checkpoint:''"] this [of "''ledger:read:''"]
  show ?thesis using assms by (simp add: is_allowed_def grant_requested_def)
qed

theorem default_grants_exact_witness:
  "is_allowed example_config (grant_requested example_config []) ''channel:write:topic:a''
   \<and> \<not> is_allowed example_config (grant_requested example_config []) ''ledger:rollback:r''"
  by (simp add: default_grants_exact example_config_def)

section \<open>A daemon without settings\<close>

lemma default_config:
  "\<exists>c. from_env False home_only home_only no_file = Inr c \<and> validate_network_policy c = Inr ()
     \<and> cf_require_auth c \<and> cf_auth_token c = None \<and> cf_store c = ''sqlite''"
proof -
  obtain c where c: "from_env False home_only home_only no_file = Inr c"
    using home_only_from_env [of home_only] by (auto simp: home_only_def)
  then have "cf_require_auth c" "cf_auth_token c = None" "cf_bind_mode c = ''uds''" "\<not> cf_allow_remote c"
      "cf_store c = ''sqlite''"
    by (auto simp: from_env_def Let_def result_simps env_bool_def optional_env_def env_or_def setting_def
        no_file_def home_only_def)
  moreover have "parse_socket_addr ''127.0.0.1:7821'' = Some \<lparr>sa_ip = V4 127 0 0 1, sa_port = 7821\<rparr>"
    "parse_socket_addr ''127.0.0.1:7822'' = Some \<lparr>sa_ip = V4 127 0 0 1, sa_port = 7822\<rparr>"
    "parse_socket_addr ''127.0.0.1:7823'' = Some \<lparr>sa_ip = V4 127 0 0 1, sa_port = 7823\<rparr>"
    using parse_show_v4 [of 127 0 0 1 7821] parse_show_v4 [of 127 0 0 1 7822]
      parse_show_v4 [of 127 0 0 1 7823] by (simp_all add: show_v4_def show_nat.simps digit_chars)
  then have "cf_grpc_addr c = \<lparr>sa_ip = V4 127 0 0 1, sa_port = 7821\<rparr>"
    "cf_http_addr c = \<lparr>sa_ip = V4 127 0 0 1, sa_port = 7822\<rparr>"
    "cf_metrics_addr c = \<lparr>sa_ip = V4 127 0 0 1, sa_port = 7823\<rparr>"
    using from_env_ok(1-3) [OF c]
    by (auto simp: parse_addr_def env_or_def setting_def home_only_def no_file_def)
  ultimately show ?thesis
    using c by (auto simp: validate_network_policy_iff)
qed

text \<open>
  With no setting but a home directory \<open>from_env\<close> builds a configuration that passes the
  network policy, since its mode is not tcp, and that lets nobody in: authentication is required
  and there is no token to present, so both transports refuse every header.
\<close>

theorem default_daemon_refuses_all:
  "\<exists>c. from_env False home_only home_only no_file = Inr c
     \<and> validate_network_policy c = Inr ()
     \<and> (\<forall>header. validate_http header c = Inl Unauthorized
           \<and> validate_grpc header c = Inl (Unauthenticated ''auth token required''))"
  using default_config by (auto simp: validate_http_def validate_grpc_def)

end
