(* ===== verification/Store.thy ===== *)
theory Store
  imports Auth
begin

text \<open>
  \<open>daemon/src/ledger/sqlite_store.rs\<close> with \<open>store.rs\<close> and \<open>head.rs\<close>: the durable store.
  The SQL text of each method is part of the source; its effect is written out on the tables
  the method touches, one \<open>record\<close> field per table. A transaction that fails has no effect.
  The rows of \<open>commits\<close> and \<open>loop_warnings\<close> hold the protobuf bytes, as the code stores
  them, so reading a row back goes through the codec of \<open>env\<close>. The tables \<open>agents\<close> and
  \<open>metadata\<close> are created but never used and are left out. An SQL INTEGER is an \<open>int\<close>.
\<close>

section \<open>Rows and tables\<close>

record commit_row =
  row_commit_id :: string
  row_delta_id :: string
  row_run_id :: string
  row_thread_id :: string
  row_agent_id :: string
  row_channel :: string
  row_logical_clock :: int
  row_wall_time_seconds :: int
  row_tags_json :: string
  row_content_hash :: string
  row_proto :: bytes

record head_row =
  hd_run_id :: string
  hd_thread_id :: string
  hd_agent_id :: string
  hd_channel :: string
  hd_commit_id :: string

record run_row =
  rn_last_commit_at :: int
  rn_commit_count :: int

record channel_row =
  ch_durable_count :: int
  ch_ephemeral_count :: int

record delta_row =
  dl_commit_id :: string
  dl_run_id :: string
  dl_agent_id :: string
  dl_channel :: string
  dl_durable :: int
  dl_wall_time_seconds :: int

record artifact_row =
  at_content_hash :: string
  at_path :: string
  at_size_bytes :: int
  at_media_type :: string
  at_compressed :: int

record side_effect_row =
  sx_commit_id :: string
  sx_kind :: string
  sx_reversible :: int
  sx_compensating :: int

record warning_row =
  wr_run_id :: string
  wr_agent_id :: string
  wr_channel :: string
  wr_severity :: int
  wr_last_seen_seconds :: int
  wr_proto :: bytes

record sqlite_store =
  st_commits :: "commit_row list"
  st_commit_parents :: "(string \<times> string) list"
  st_heads :: "(string, head_row) table"
  st_runs :: "(string, run_row) table"
  st_channels :: "(string, channel_row) table"
  st_deltas :: "(string, delta_row) table"
  st_artifacts :: "(string, artifact_row) table"
  st_tool_calls :: "(string, string \<times> string) table"
  st_tool_results :: "(string \<times> string \<times> int) list"
  st_side_effects :: "(string, side_effect_row) table"
  st_loop_warnings :: "(string, warning_row) table"
  st_rollback_events :: "(string \<times> int) list"
  st_audit_events :: "(string \<times> string \<times> int) list"
  st_files :: "(string, bytes) table"
  st_artifact_dir :: string
  st_compression_threshold :: nat

text \<open>\<open>SqliteStore::open\<close> on a new database.\<close>

definition open_store :: "config \<Rightarrow> sqlite_store" where
  "open_store config = \<lparr>st_commits = [], st_commit_parents = [], st_heads = [], st_runs = [],
     st_channels = [], st_deltas = [], st_artifacts = [], st_tool_calls = [],
     st_tool_results = [], st_side_effects = [], st_loop_warnings = [],
     st_rollback_events = [], st_audit_events = [], st_files = [],
     st_artifact_dir = cf_artifact_dir config,
     st_compression_threshold = cf_compression_threshold_bytes config\<rparr>"

text \<open>
  On any database: the tables are created where they do not exist, and nothing else is. Artifacts
  are written under the directory of the new configuration; the paths of old ones are in their rows.
\<close>

definition reopen :: "env \<Rightarrow> config \<Rightarrow> sqlite_store \<Rightarrow> sqlite_store result" where
  "reopen E config s =
     and_then (guard_fault (db_fault E DbOpen)) (\<lambda>_.
       Inr (s\<lparr>st_artifact_dir := cf_artifact_dir config,
              st_compression_threshold := cf_compression_threshold_bytes config\<rparr>))"

text \<open>head.rs: the four components are joined by the unit separator U+001F.\<close>

definition head_key :: "string \<Rightarrow> string \<Rightarrow> string \<Rightarrow> string \<Rightarrow> string" where
  "head_key run_id thread_id agent_id channel =
     run_id @ [CHR 0x1F] @ thread_id @ [CHR 0x1F] @ agent_id @ [CHR 0x1F] @ channel"

section \<open>append_commit\<close>

definition row_of :: "env \<Rightarrow> bytes \<Rightarrow> commit \<Rightarrow> commit_row" where
  "row_of E tags_json commit =
     \<lparr>row_commit_id = cm_commit_id commit, row_delta_id = cm_delta_id commit,
      row_run_id = cm_run_id commit, row_thread_id = cm_thread_id commit,
      row_agent_id = cm_agent_id commit, row_channel = cm_channel commit,
      row_logical_clock = sint (cm_logical_clock commit),
      row_wall_time_seconds = sint (seconds_of (cm_wall_time commit)),
      row_tags_json = tags_json, row_content_hash = cm_content_hash commit,
      row_proto = encode_commit E commit\<rparr>"

definition insert_commit_row :: "commit_row \<Rightarrow> commit_row list \<Rightarrow> commit_row list" where
  "insert_commit_row r rows =
     (if row_commit_id r \<in> set (map row_commit_id rows) then rows else rows @ [r])"

definition insert_parent :: "string \<Rightarrow> string \<Rightarrow> (string \<times> string) list \<Rightarrow> (string \<times> string) list" where
  "insert_parent commit_id parent rows =
     (if (commit_id, parent) \<in> set rows then rows else rows @ [(commit_id, parent)])"

definition upsert_run :: "string \<Rightarrow> int \<Rightarrow> (string, run_row) table \<Rightarrow> (string, run_row) table" where
  "upsert_run run_id wall_time runs =
     (case map_of runs run_id of
        None \<Rightarrow> runs @ [(run_id, \<lparr>rn_last_commit_at = wall_time, rn_commit_count = 1\<rparr>)]
      | Some r \<Rightarrow> AList.update run_id
          \<lparr>rn_last_commit_at = wall_time, rn_commit_count = rn_commit_count r + 1\<rparr> runs)"

definition bump_channel :: "string \<Rightarrow> (string, channel_row) table \<Rightarrow> (string, channel_row) table" where
  "bump_channel channel channels =
     (let channels = insert_or_ignore channel \<lparr>ch_durable_count = 0, ch_ephemeral_count = 0\<rparr> channels
      in map (\<lambda>(c, r). if c = channel then (c, r\<lparr>ch_durable_count := ch_durable_count r + 1\<rparr>) else (c, r))
           channels)"

definition side_effect_row_of :: "string \<Rightarrow> external_side_effect \<Rightarrow> side_effect_row" where
  "side_effect_row_of commit_id e =
     \<lparr>sx_commit_id = commit_id, sx_kind = se_kind e,
      sx_reversible = of_bool (se_reversible e),
      sx_compensating = of_bool (se_compensating_action_available e)\<rparr>"

definition append_commit :: "env \<Rightarrow> commit \<Rightarrow> sqlite_store \<Rightarrow> sqlite_store result" where
  "append_commit E commit s =
     and_then (json_print E (JArr (map JStr (cm_tags commit)))) (\<lambda>tags_json.
     and_then (guard_fault (db_fault E DbAppendCommit)) (\<lambda>_.
       (let wall_time = sint (seconds_of (cm_wall_time commit)); commit_id = cm_commit_id commit in
        Inr (s\<lparr>
          st_commits := insert_commit_row (row_of E tags_json commit) (st_commits s),
          st_commit_parents :=
            fold (insert_parent commit_id) (cm_parent_commit_ids commit) (st_commit_parents s),
          st_runs := upsert_run (cm_run_id commit) wall_time (st_runs s),
          st_channels := bump_channel (cm_channel commit) (st_channels s),
          st_deltas := insert_or_ignore (cm_delta_id commit)
            \<lparr>dl_commit_id = commit_id, dl_run_id = cm_run_id commit, dl_agent_id = cm_agent_id commit,
             dl_channel = cm_channel commit, dl_durable = 1, dl_wall_time_seconds = wall_time\<rparr>
            (st_deltas s),
          st_tool_calls := fold (\<lambda>call. insert_or_replace (tc_tool_call_id call) (commit_id, tc_name call))
            (cm_tool_calls commit) (st_tool_calls s),
          st_tool_results := st_tool_results s @
            map (\<lambda>r. (tr_tool_call_id r, commit_id, of_bool (tr_error r \<noteq> None)))
              (cm_tool_results commit),
          st_side_effects :=
            fold (\<lambda>e. insert_or_replace (se_side_effect_id e) (side_effect_row_of commit_id e))
              (cm_external_side_effects commit) (st_side_effects s)\<rparr>))))"

section \<open>Reading commits\<close>

definition get_commit :: "env \<Rightarrow> sqlite_store \<Rightarrow> string \<Rightarrow> commit option result" where
  "get_commit E s commit_id =
     and_then (guard_fault (db_fault E (DbGetCommit commit_id))) (\<lambda>_.
       (case List.find (\<lambda>r. row_commit_id r = commit_id) (st_commits s) of
          None \<Rightarrow> Inr None
        | Some r \<Rightarrow>
            (case decode_commit E (row_proto r) of
               Inl e \<Rightarrow> Inl (Anyhow ''decode commit'')
             | Inr commit \<Rightarrow> Inr (Some commit))))"

text \<open>\<open>ORDER BY logical_clock ASC, wall_time_seconds ASC, commit_id ASC\<close>.\<close>

definition order_key :: "commit_row \<Rightarrow> int \<times> int \<times> string" where
  "order_key r = (row_logical_clock r, row_wall_time_seconds r, row_commit_id r)"

fun decode_rows :: "env \<Rightarrow> commit_row list \<Rightarrow> commit list result" where
  "decode_rows E [] = Inr []"
| "decode_rows E (r # rs) =
     and_then (decode_commit E (row_proto r)) (\<lambda>c.
     and_then (decode_rows E rs) (\<lambda>cs. Inr (c # cs)))"

definition matches :: "string option \<Rightarrow> string \<Rightarrow> bool" where
  "matches wanted value = (case wanted of None \<Rightarrow> True | Some w \<Rightarrow> w = value)"

definition list_commits ::
    "env \<Rightarrow> sqlite_store \<Rightarrow> string option \<Rightarrow> string option \<Rightarrow> string option \<Rightarrow> commit list result" where
  "list_commits E s run_id thread_id channel =
     and_then (guard_fault (db_fault E DbListCommits)) (\<lambda>_.
     and_then (decode_rows E (sort_key order_key (st_commits s))) (\<lambda>commits.
       Inr (filter (\<lambda>c. matches run_id (cm_run_id c) \<and> matches thread_id (cm_thread_id c)
                          \<and> matches channel (cm_channel c)) commits)))"

definition list_all_commits :: "env \<Rightarrow> sqlite_store \<Rightarrow> commit list result" where
  "list_all_commits E s = list_commits E s None None None"

definition search_by_tag :: "env \<Rightarrow> sqlite_store \<Rightarrow> string \<Rightarrow> commit list result" where
  "search_by_tag E s tag =
     and_then (list_all_commits E s) (\<lambda>commits.
       Inr (filter (\<lambda>c. \<exists>value\<in>set (cm_tags c). value = tag) commits))"

text \<open>\<open>ORDER BY last_commit_at DESC\<close>; the count column is cast from i64 to u64.\<close>

definition list_runs :: "env \<Rightarrow> sqlite_store \<Rightarrow> run_summary list result" where
  "list_runs E s =
     and_then (guard_fault (db_fault E DbListRuns)) (\<lambda>_.
       Inr (map (\<lambda>(run_id, r). \<lparr>rsm_run_id = run_id, rsm_commit_count = of_int (rn_commit_count r),
                   rsm_last_commit_at =
                     Some \<lparr>ts_seconds = of_int (rn_last_commit_at r), ts_nanos = 0\<rparr>\<rparr>)
             (sort_key (\<lambda>(_, r). - rn_last_commit_at r) (st_runs s))))"

section \<open>Heads\<close>

definition get_head ::
    "env \<Rightarrow> sqlite_store \<Rightarrow> string \<Rightarrow> string \<Rightarrow> string \<Rightarrow> string \<Rightarrow> string option result" where
  "get_head E s run_id thread_id agent_id channel =
     and_then (guard_fault (db_fault E DbGetHead)) (\<lambda>_.
       Inr (map_option hd_commit_id (map_of (st_heads s) (head_key run_id thread_id agent_id channel))))"

definition set_head ::
    "env \<Rightarrow> string \<Rightarrow> string \<Rightarrow> string \<Rightarrow> string \<Rightarrow> string \<Rightarrow> sqlite_store \<Rightarrow> sqlite_store result" where
  "set_head E run_id thread_id agent_id channel commit_id s =
     and_then (guard_fault (db_fault E DbSetHead)) (\<lambda>_.
       (let key = head_key run_id thread_id agent_id channel in
        Inr (s\<lparr>st_heads :=
          (case map_of (st_heads s) key of
             None \<Rightarrow> st_heads s @ [(key, \<lparr>hd_run_id = run_id, hd_thread_id = thread_id,
                       hd_agent_id = agent_id, hd_channel = channel, hd_commit_id = commit_id\<rparr>)]
           | Some h \<Rightarrow> AList.update key (h\<lparr>hd_commit_id := commit_id\<rparr>) (st_heads s))\<rparr>)))"

section \<open>Events, artifacts, loop warnings\<close>

text \<open>
  Two statements, each with its own lock and its own reading of the clock, and not one transaction: the
  second may fail after the first took effect.
\<close>

definition append_audit :: "env \<Rightarrow> string \<Rightarrow> string \<Rightarrow> sqlite_store \<Rightarrow> sqlite_store result" where
  "append_audit E event_type payload_json s =
     (case db_fault E DbAppendAudit of
        Some e \<Rightarrow> Inl e
      | None \<Rightarrow> Inr (s\<lparr>st_audit_events :=
          st_audit_events s @ [(event_type, payload_json, clock_millis E AuditSite)]\<rparr>))"

definition append_rollback :: "env \<Rightarrow> string \<Rightarrow> sqlite_store \<Rightarrow> sqlite_store result" where
  "append_rollback E payload_json s =
     (case db_fault E DbAppendRollback of
        Some e \<Rightarrow> Inl e
      | None \<Rightarrow> Inr (s\<lparr>st_rollback_events :=
          st_rollback_events s @ [(payload_json, clock_millis E RollbackSite)]\<rparr>))"

definition append_event :: "env \<Rightarrow> string \<Rightarrow> string \<Rightarrow> sqlite_store \<Rightarrow> sqlite_store \<times> unit result" where
  "append_event E event_type payload_json s =
     (case append_audit E event_type payload_json s of
        Inl e \<Rightarrow> (s, Inl e)
      | Inr s1 \<Rightarrow>
          if event_type = ''rollback''
          then (case append_rollback E payload_json s1 of
                  Inl e \<Rightarrow> (s1, Inl e)
                | Inr s2 \<Rightarrow> (s2, Inr ()))
          else (s1, Inr ()))"

lemmas append_event_defs = append_event_def append_audit_def append_rollback_def

definition artifact_path :: "sqlite_store \<Rightarrow> string \<Rightarrow> string" where
  "artifact_path s artifact_id = path_join (st_artifact_dir s) artifact_id"

text \<open>\<open>fs::write\<close> truncates the file before it writes, so a write that fails may leave a part of it.\<close>

definition put_artifact ::
    "env \<Rightarrow> bytes \<Rightarrow> string \<Rightarrow> sqlite_store \<Rightarrow> sqlite_store \<times> artifact_ref result" where
  "put_artifact E bs media_type s =
     (case fs_fault E (FsCreateDir (st_artifact_dir s)) of
        Some e \<Rightarrow> (s, Inl e)
      | None \<Rightarrow>
     (let content_hash = blake3_hex E bs; artifact_id = ''artifact_'' @ content_hash in
      case maybe_compress E bs (st_compression_threshold s) of
        Inl e \<Rightarrow> (s, Inl e)
      | Inr (stored_bytes, compressed) \<Rightarrow>
     (let path = artifact_path s artifact_id in
      case fs_fault E FsWrite of
        Some e \<Rightarrow> ((case fs_torn E of
                      None \<Rightarrow> s
                    | Some torn \<Rightarrow> s\<lparr>st_files := AList.update path torn (st_files s)\<rparr>), Inl e)
      | None \<Rightarrow>
     (let s1 = s\<lparr>st_files := AList.update path stored_bytes (st_files s)\<rparr> in
      case db_fault E DbPutArtifact of
        Some e \<Rightarrow> (s1, Inl e)
      | None \<Rightarrow>
          (s1\<lparr>st_artifacts := insert_or_replace artifact_id
               \<lparr>at_content_hash = content_hash, at_path = path, at_size_bytes = int (length bs),
                at_media_type = media_type, at_compressed = of_bool compressed\<rparr> (st_artifacts s1)\<rparr>,
           Inr \<lparr>ar_artifact_id = artifact_id, ar_content_hash = content_hash,
                ar_size_bytes = of_nat (length bs), ar_media_type = media_type,
                ar_compressed = compressed, ar_metadata = None\<rparr>)))))"

definition get_artifact :: "env \<Rightarrow> sqlite_store \<Rightarrow> string \<Rightarrow> bytes option result" where
  "get_artifact E s artifact_id =
     and_then (guard_fault (db_fault E DbGetArtifact)) (\<lambda>_.
       (case map_of (st_artifacts s) artifact_id of
          None \<Rightarrow> Inr None
        | Some r \<Rightarrow>
            and_then (case fs_fault E FsRead of
                        Some e \<Rightarrow> Inl e
                      | None \<Rightarrow> (case map_of (st_files s) (at_path r) of
                                  None \<Rightarrow> Inl (Anyhow ''No such file or directory'')
                                | Some bs \<Rightarrow> Inr bs)) (\<lambda>bs.
            and_then (maybe_decompress E bs (at_compressed r \<noteq> 0)) (\<lambda>out. Inr (Some out)))))"

definition append_loop_warning :: "env \<Rightarrow> loop_warning \<Rightarrow> sqlite_store \<Rightarrow> sqlite_store result" where
  "append_loop_warning E warning s =
     and_then (guard_fault (db_fault E DbAppendLoopWarning)) (\<lambda>_.
       Inr (s\<lparr>st_loop_warnings := insert_or_replace (lw_warning_id warning)
         \<lparr>wr_run_id = lw_run_id warning, wr_agent_id = lw_agent_id warning,
          wr_channel = lw_channel warning, wr_severity = sint (lw_severity warning),
          wr_last_seen_seconds = sint (seconds_of (lw_last_seen warning)),
          wr_proto = encode_warning E warning\<rparr> (st_loop_warnings s)\<rparr>))"

fun decode_warnings :: "env \<Rightarrow> (string \<times> warning_row) list \<Rightarrow> loop_warning list result" where
  "decode_warnings E [] = Inr []"
| "decode_warnings E ((_, r) # rs) =
     and_then (decode_warning E (wr_proto r)) (\<lambda>w.
     and_then (decode_warnings E rs) (\<lambda>ws. Inr (w # ws)))"

definition list_loop_warnings :: "env \<Rightarrow> sqlite_store \<Rightarrow> loop_warning list result" where
  "list_loop_warnings E s =
     and_then (guard_fault (db_fault E DbListLoopWarnings)) (\<lambda>_.
       decode_warnings E (sort_key (\<lambda>(_, r). - wr_last_seen_seconds r) (st_loop_warnings s)))"

section \<open>The contract of the Store trait\<close>

text \<open>
  What a client of \<open>trait Store\<close> relies on: commits are kept in an append-only map from ids
  to commits. \<open>hist\<close> is that map, \<open>good\<close> the commits that the codec reads back.
\<close>

locale commit_store =
  fixes get :: "'s \<Rightarrow> string \<Rightarrow> commit option result"
    and put :: "commit \<Rightarrow> 's \<Rightarrow> 's result"
    and hist :: "'s \<Rightarrow> string \<Rightarrow> commit option"
    and ok :: "'s \<Rightarrow> bool"
    and good :: "commit \<Rightarrow> bool"
  assumes get_hist: "ok s \<Longrightarrow> get s i = Inr r \<Longrightarrow> r = hist s i"
    and hist_id: "ok s \<Longrightarrow> hist s i = Some c \<Longrightarrow> cm_commit_id c = i"
    and put_hist: "ok s \<Longrightarrow> good c \<Longrightarrow> put c s = Inr s' \<Longrightarrow>
      hist s' = (hist s)(cm_commit_id c \<mapsto> unwrap_or c (hist s (cm_commit_id c)))"
    and put_ok: "ok s \<Longrightarrow> good c \<Longrightarrow> put c s = Inr s' \<Longrightarrow> ok s'"
begin

text \<open>A sequence of appends, stopping at the first failure.\<close>

fun put_all :: "commit list \<Rightarrow> 's \<Rightarrow> 's result" where
  "put_all [] s = Inr s"
| "put_all (c # cs) s = and_then (put c s) (put_all cs)"

lemma put_mono: "ok s \<Longrightarrow> good c \<Longrightarrow> put c s = Inr s' \<Longrightarrow> hist s \<subseteq>\<^sub>m hist s'"
  by (drule (2) put_hist) (auto simp: map_le_def dom_def)

lemma put_all_mono:
  "ok s \<Longrightarrow> list_all good cs \<Longrightarrow> put_all cs s = Inr s' \<Longrightarrow> ok s' \<and> hist s \<subseteq>\<^sub>m hist s'"
proof (induction cs arbitrary: s)
  case (Cons c cs)
  from Cons.prems(3) obtain t where t: "put c s = Inr t" "put_all cs t = Inr s'"
    by (auto simp: result_simps)
  have "ok t" "hist s \<subseteq>\<^sub>m hist t" using Cons.prems t(1) put_ok put_mono by auto
  moreover have "ok s' \<and> hist t \<subseteq>\<^sub>m hist s'" using Cons.IH \<open>ok t\<close> Cons.prems(2) t(2) by simp
  ultimately show ?case by (blast intro: map_le_trans)
qed simp

lemma put_new:
  assumes "ok s" "good c" "put c s = Inr s'" "hist s (cm_commit_id c) = None"
  shows "hist s' (cm_commit_id c) = Some c"
  using put_hist [OF assms(1-3)] assms(4) by simp

lemma put_then_get:
  assumes "ok s" "good c" "put c s = Inr s'" "hist s (cm_commit_id c) = None"
    and "list_all good cs" "put_all cs s' = Inr s''" "get s'' (cm_commit_id c) = Inr r"
  shows "r = Some c"
proof -
  have "ok s'" using assms(1-3) by (rule put_ok)
  then have later: "ok s'' \<and> hist s' \<subseteq>\<^sub>m hist s''" using assms(5,6) by (rule put_all_mono)
  have "hist s' (cm_commit_id c) = Some c" using assms(1-4) by (rule put_new)
  with later have "hist s'' (cm_commit_id c) = Some c" by (auto simp: map_le_def dom_def)
  moreover have "r = hist s'' (cm_commit_id c)" using later assms(7) by (simp add: get_hist)
  ultimately show ?thesis by simp
qed

lemma put_same:
  assumes "ok s" "good c" "put c s = Inr s'" "hist s (cm_commit_id c) = Some d"
  shows "hist s' = hist s"
  using put_hist [OF assms(1-3)] assms(4) by auto

end

section \<open>The history that the rows hold\<close>

definition codec_ok :: "env \<Rightarrow> commit \<Rightarrow> bool" where
  "codec_ok E c \<longleftrightarrow> decode_commit E (encode_commit E c) = Inr c"

definition history :: "env \<Rightarrow> sqlite_store \<Rightarrow> string \<Rightarrow> commit option" where
  "history E s commit_id =
     (case List.find (\<lambda>r. row_commit_id r = commit_id) (st_commits s) of
        None \<Rightarrow> None
      | Some r \<Rightarrow> (case decode_commit E (row_proto r) of Inl e \<Rightarrow> None | Inr c \<Rightarrow> Some c))"

text \<open>Each row was written by \<open>append_commit\<close>, and the primary keys are distinct.\<close>

definition row_ok :: "env \<Rightarrow> commit_row \<Rightarrow> bool" where
  "row_ok E r \<longleftrightarrow> (\<exists>c tags. codec_ok E c \<and> r = row_of E tags c)"

definition store_ok :: "env \<Rightarrow> sqlite_store \<Rightarrow> bool" where
  "store_ok E s \<longleftrightarrow> distinct (map row_commit_id (st_commits s)) \<and> list_all (row_ok E) (st_commits s)
     \<and> distinct (keys (st_heads s))"

lemma row_of_id [simp]: "row_commit_id (row_of E tags c) = cm_commit_id c"
  by (simp add: row_of_def)

lemma row_of_proto [simp]: "row_proto (row_of E tags c) = encode_commit E c"
  by (simp add: row_of_def)

lemma row_okE:
  assumes "row_ok E r"
  obtains c where "decode_commit E (row_proto r) = Inr c" "cm_commit_id c = row_commit_id r"
    "codec_ok E c"
  using assms by (auto simp: row_ok_def codec_ok_def)

lemma store_ok_open [simp]: "store_ok E (open_store config)"
  by (simp add: store_ok_def open_store_def)

lemma store_ok_row: "store_ok E s \<Longrightarrow> r \<in> set (st_commits s) \<Longrightarrow> row_ok E r"
  by (simp add: store_ok_def list_all_iff)

lemma find_row_iff:
  assumes "distinct (map row_commit_id rows)"
  shows "List.find (\<lambda>r. row_commit_id r = i) rows = Some r \<longleftrightarrow> r \<in> set rows \<and> row_commit_id r = i"
  using assms by (induction rows) (auto simp: image_iff)

lemma find_append:
  "List.find P (xs @ ys) = (case List.find P xs of None \<Rightarrow> List.find P ys | Some x \<Rightarrow> Some x)"
  by (induction xs) auto

lemma find_row_None:
  "List.find (\<lambda>r. row_commit_id r = i) rows = None \<longleftrightarrow> i \<notin> set (map row_commit_id rows)"
  by (auto simp: find_None_iff)

lemma history_Some_iff:
  assumes "store_ok E s"
  shows "history E s i = Some c \<longleftrightarrow>
     (\<exists>r\<in>set (st_commits s). row_commit_id r = i \<and> decode_commit E (row_proto r) = Inr c)"
proof -
  have d: "distinct (map row_commit_id (st_commits s))" using assms by (simp add: store_ok_def)
  have "history E s i = Some c \<longleftrightarrow>
      (\<exists>r. List.find (\<lambda>r. row_commit_id r = i) (st_commits s) = Some r
         \<and> decode_commit E (row_proto r) = Inr c)"
    by (simp add: history_def split: option.splits sum.splits)
  also have "\<dots> \<longleftrightarrow> (\<exists>r\<in>set (st_commits s). row_commit_id r = i \<and> decode_commit E (row_proto r) = Inr c)"
    unfolding find_row_iff [OF d] by blast
  finally show ?thesis .
qed

lemma history_None_iff:
  assumes "store_ok E s"
  shows "history E s i = None \<longleftrightarrow> i \<notin> set (map row_commit_id (st_commits s))"
proof
  assume none: "history E s i = None"
  show "i \<notin> set (map row_commit_id (st_commits s))"
  proof
    assume "i \<in> set (map row_commit_id (st_commits s))"
    then obtain r where r: "r \<in> set (st_commits s)" "row_commit_id r = i" by auto
    from store_ok_row [OF assms r(1)] obtain c where "decode_commit E (row_proto r) = Inr c"
      by (rule row_okE)
    with r have "history E s i = Some c" unfolding history_Some_iff [OF assms] by blast
    with none show False by simp
  qed
next
  assume "i \<notin> set (map row_commit_id (st_commits s))"
  then have "List.find (\<lambda>r. row_commit_id r = i) (st_commits s) = None"
    by (simp only: find_row_None not_False_eq_True)
  then show "history E s i = None" by (simp add: history_def)
qed

lemma history_id:
  assumes "store_ok E s" "history E s i = Some c"
  shows "cm_commit_id c = i \<and> codec_ok E c"
proof -
  from assms(2) obtain r where r: "r \<in> set (st_commits s)" "row_commit_id r = i"
      "decode_commit E (row_proto r) = Inr c"
    unfolding history_Some_iff [OF assms(1)] by blast
  from store_ok_row [OF assms(1) r(1)] show ?thesis using r(2,3) by (auto elim: row_okE)
qed

lemma get_commit_ok:
  assumes "store_ok E s"
  shows "get_commit E s i =
     (case db_fault E (DbGetCommit i) of Some e \<Rightarrow> Inl e | None \<Rightarrow> Inr (history E s i))"
proof (cases "List.find (\<lambda>r. row_commit_id r = i) (st_commits s)")
  case None
  then show ?thesis by (simp add: get_commit_def history_def split: option.splits)
next
  case (Some r)
  then have "r \<in> set (st_commits s)" by (metis find_Some_iff nth_mem)
  from store_ok_row [OF assms this] obtain c where "decode_commit E (row_proto r) = Inr c"
    by (rule row_okE)
  with Some show ?thesis by (simp add: get_commit_def history_def split: option.splits)
qed

text \<open>What a successful \<open>append_commit\<close> does to the tables the properties speak of.\<close>

lemma append_commit_effect:
  assumes "append_commit E c s = Inr s'"
  obtains tags where "st_commits s' = insert_commit_row (row_of E tags c) (st_commits s)"
    "st_heads s' = st_heads s" "st_artifacts s' = st_artifacts s" "st_files s' = st_files s"
    "st_runs s' = upsert_run (cm_run_id c) (sint (seconds_of (cm_wall_time c))) (st_runs s)"
    "st_artifact_dir s' = st_artifact_dir s"
proof -
  obtain tags where "json_print E (JArr (map JStr (cm_tags c))) = Inr tags"
    using assms by (auto simp: append_commit_def result_simps)
  moreover have "db_fault E DbAppendCommit = None"
    using assms by (auto simp: append_commit_def result_simps guard_fault_def split: option.splits)
  ultimately show ?thesis using assms that by (auto simp: append_commit_def Let_def)
qed

lemma append_commit_ok:
  assumes "store_ok E s" "codec_ok E c" "append_commit E c s = Inr s'"
  shows "store_ok E s'"
proof -
  from assms(3) obtain tags where
    e: "st_commits s' = insert_commit_row (row_of E tags c) (st_commits s)" "st_heads s' = st_heads s"
    by (rule append_commit_effect)
  have "row_ok E (row_of E tags c)" using assms(2) by (auto simp: row_ok_def)
  with assms(1) e show ?thesis by (auto simp: store_ok_def insert_commit_row_def)
qed

lemma append_commit_history:
  assumes "store_ok E s" "codec_ok E c" "append_commit E c s = Inr s'"
  shows "history E s' = (history E s)(cm_commit_id c \<mapsto> unwrap_or c (history E s (cm_commit_id c)))"
proof -
  from assms(3) obtain tags where
    e: "st_commits s' = insert_commit_row (row_of E tags c) (st_commits s)"
    by (rule append_commit_effect)
  show ?thesis
  proof (cases "history E s (cm_commit_id c)")
    case (Some d)
    then have "cm_commit_id c \<in> set (map row_commit_id (st_commits s))"
      using history_None_iff [OF assms(1)] by (metis option.distinct(1))
    then have "st_commits s' = st_commits s" using e by (simp add: insert_commit_row_def)
    with Some show ?thesis by (auto simp: history_def)
  next
    case None
    then have new: "cm_commit_id c \<notin> set (map row_commit_id (st_commits s))"
      using history_None_iff [OF assms(1)] by blast
    then have rows: "st_commits s' = st_commits s @ [row_of E tags c]"
      using e by (simp add: insert_commit_row_def)
    have ok': "store_ok E s'" using assms by (rule append_commit_ok)
    have dec: "decode_commit E (encode_commit E c) = Inr c" using assms(2) by (simp add: codec_ok_def)
    have "history E s' i = (if i = cm_commit_id c then Some c else history E s i)" for i
    proof (cases "i = cm_commit_id c")
      case True
      have "row_of E tags c \<in> set (st_commits s')" using rows by simp
      with dec True show ?thesis unfolding history_Some_iff [OF ok'] if_P [OF True]
        by (metis row_of_id row_of_proto)
    next
      case False
      have "List.find (\<lambda>r. row_commit_id r = i) (st_commits s @ [row_of E tags c])
          = List.find (\<lambda>r. row_commit_id r = i) (st_commits s)"
        using False by (simp add: find_append split: option.splits)
      with False rows show ?thesis by (simp add: history_def)
    qed
    with None show ?thesis by (auto simp: fun_eq_iff)
  qed
qed

lemma get_commit_history: "store_ok E s \<Longrightarrow> get_commit E s i = Inr c \<Longrightarrow> c = history E s i"
  by (simp add: get_commit_ok split: option.splits)

interpretation sqlite: commit_store "get_commit E" "append_commit E" "history E" "store_ok E"
    "codec_ok E" for E
  by unfold_locales
    (fact get_commit_history append_commit_history append_commit_ok history_id [THEN conjunct1])+

section \<open>Properties of the store\<close>

text \<open>
  Commits are immutable: a commit appended under a fresh id is what every later
  \<open>get_commit\<close> of that id returns, whatever is appended in between, other commits under the
  same id included.
\<close>

theorem append_then_get:
  assumes "store_ok E s" "codec_ok E c" "history E s (cm_commit_id c) = None"
    and "append_commit E c s = Inr s'"
    and "list_all (codec_ok E) cs" "sqlite.put_all E cs s' = Inr s''"
    and "db_fault E (DbGetCommit (cm_commit_id c)) = None"
  shows "get_commit E s'' (cm_commit_id c) = Inr (Some c)"
proof -
  have ok: "store_ok E s'" using assms(1,2,4) by (rule append_commit_ok)
  have "store_ok E s'' \<and> history E s' \<subseteq>\<^sub>m history E s''"
    using ok assms(5,6) by (rule sqlite.put_all_mono)
  then have get: "get_commit E s'' (cm_commit_id c) = Inr (history E s'' (cm_commit_id c))"
    using assms(7) by (simp add: get_commit_ok)
  have "history E s'' (cm_commit_id c) = Some c"
    using assms(1,2,4,3,5,6) get by (rule sqlite.put_then_get)
  with get show ?thesis by simp
qed

text \<open>A codec that reads back three commits, for examples.\<close>

definition library_env :: env where
  "library_env = example_env\<lparr>decode_commit :=
     (\<lambda>b. if b = ''a'' then Inr (example_commit ''a'' [])
           else if b = ''b'' then Inr (example_commit ''b'' [''a''])
           else if b = ''d'' then Inr (example_commit ''d'' [''b''])
           else Inl (Anyhow ''decode''))\<rparr>"

lemma library_db_fault [simp]: "db_fault library_env op = None"
  by (simp add: library_env_def example_env_def)

abbreviation empty_store :: sqlite_store where
  "empty_store \<equiv> open_store example_config"

lemma history_empty [simp]: "history E empty_store i = None"
  by (simp add: history_def open_store_def)

lemma library_codec [simp]:
  "codec_ok library_env (example_commit ''a'' [])"
  "codec_ok library_env (example_commit ''b'' [''a''])"
  "codec_ok library_env (example_commit ''d'' [''b''])"
  by (simp_all add: codec_ok_def library_env_def example_env_def)

text \<open>Without faults an append succeeds.\<close>

lemma append_commit_succeeds:
  assumes "json_print E (JArr (map JStr (cm_tags c))) = Inr tags" and "db_fault E DbAppendCommit = None"
  shows "\<exists>s'. append_commit E c s = Inr s'"
  using assms by (simp add: append_commit_def Let_def)

lemma library_append: "\<exists>s'. append_commit library_env c s = Inr s'"
  by (rule append_commit_succeeds [of _ _ "''{}''"]) (simp_all add: library_env_def example_env_def)

theorem append_then_get_witness:
  "\<exists>s' s''. append_commit library_env (example_commit ''a'' []) empty_store = Inr s'
     \<and> append_commit library_env (example_commit ''b'' [''a'']) s' = Inr s''
     \<and> get_commit library_env s'' ''a'' = Inr (Some (example_commit ''a'' []))"
proof -
  obtain s' where s': "append_commit library_env (example_commit ''a'' []) empty_store = Inr s'"
    using library_append by blast
  obtain s'' where s'': "append_commit library_env (example_commit ''b'' [''a'']) s' = Inr s''"
    using library_append by blast
  have "get_commit library_env s'' (cm_commit_id (example_commit ''a'' []))
      = Inr (Some (example_commit ''a'' []))"
    using s' s''
    by (intro append_then_get [of _ empty_store _ s' "[example_commit ''b'' [''a'']]"])
      simp_all
  with s' s'' show ?thesis by simp
qed

text \<open>
  Appending is idempotent for the history but not for the run counter: appending the
  same commit a second time leaves the history as it is and still adds one to the commit count
  of its run.
\<close>

theorem append_twice_counts_twice:
  assumes "store_ok E s" "codec_ok E c"
    and "append_commit E c s = Inr s'" "append_commit E c s' = Inr s''"
  shows "history E s'' = history E s'
     \<and> map_option rn_commit_count (map_of (st_runs s'') (cm_run_id c))
         = map_option (\<lambda>r. rn_commit_count r + 1) (map_of (st_runs s') (cm_run_id c))"
proof
  have ok: "store_ok E s'" using assms(1-3) by (rule append_commit_ok)
  obtain d where "history E s' (cm_commit_id c) = Some d"
    using append_commit_history [OF assms(1-3)] by auto
  then show "history E s'' = history E s'" using ok assms(2,4) by (rule sqlite.put_same [rotated 3])
  obtain t where s': "st_runs s' = upsert_run (cm_run_id c) t (st_runs s)"
    using assms(3) by (rule append_commit_effect)
  obtain u where s'': "st_runs s'' = upsert_run (cm_run_id c) u (st_runs s')"
    using assms(4) by (rule append_commit_effect)
  obtain r where "map_of (st_runs s') (cm_run_id c) = Some r"
    using s' by (auto simp: upsert_run_def table_simps split: option.splits simp del: map_of_append)
  with s'' show "map_option rn_commit_count (map_of (st_runs s'') (cm_run_id c))
      = map_option (\<lambda>r. rn_commit_count r + 1) (map_of (st_runs s') (cm_run_id c))"
    by (simp add: upsert_run_def table_simps)
qed

theorem append_twice_counts_twice_witness:
  "\<exists>s' s''. append_commit library_env (example_commit ''a'' []) empty_store = Inr s'
     \<and> append_commit library_env (example_commit ''a'' []) s' = Inr s''
     \<and> history library_env s'' = history library_env s'"
proof -
  obtain s' where s': "append_commit library_env (example_commit ''a'' []) empty_store = Inr s'"
    using library_append by blast
  obtain s'' where s'': "append_commit library_env (example_commit ''a'' []) s' = Inr s''"
    using library_append by blast
  from append_twice_counts_twice [OF store_ok_open library_codec(1) s' s''] s' s''
  show ?thesis by blast
qed

text \<open>The commits that the rows decode to, in the order of the rows.\<close>

definition row_commit :: "env \<Rightarrow> commit_row \<Rightarrow> commit" where
  "row_commit E r = (case decode_commit E (row_proto r) of Inr c \<Rightarrow> c | Inl e \<Rightarrow> default_commit)"

text \<open>The key by which SQL orders commits.\<close>

definition commit_order :: "commit \<Rightarrow> int \<times> int \<times> string" where
  "commit_order c = (sint (cm_logical_clock c), sint (seconds_of (cm_wall_time c)), cm_commit_id c)"

lemma row_commit_ok:
  assumes "row_ok E r"
  shows "decode_commit E (row_proto r) = Inr (row_commit E r)"
    and "cm_commit_id (row_commit E r) = row_commit_id r"
    and "commit_order (row_commit E r) = order_key r"
  using assms
  by (auto simp: row_ok_def codec_ok_def row_commit_def order_key_def commit_order_def row_of_def)

lemma decode_rows_ok:
  "list_all (row_ok E) rows \<Longrightarrow> decode_rows E rows = Inr (map (row_commit E) rows)"
  by (induction rows) (simp_all add: row_commit_ok)

lemma list_commits_ok:
  assumes "store_ok E s" and "db_fault E DbListCommits = None"
  shows "list_commits E s run_id thread_id channel =
    Inr (filter (\<lambda>c. matches run_id (cm_run_id c) \<and> matches thread_id (cm_thread_id c)
                 \<and> matches channel (cm_channel c))
          (map (row_commit E) (sort_key order_key (st_commits s))))"
proof -
  have "list_all (row_ok E) (sort_key order_key (st_commits s))"
    using assms(1) by (simp add: store_ok_def list_all_iff)
  from decode_rows_ok [OF this] assms(2) show ?thesis by (simp add: list_commits_def)
qed

lemma history_rows:
  assumes "store_ok E s"
  shows "c \<in> row_commit E ` set (st_commits s) \<longleftrightarrow> history E s (cm_commit_id c) = Some c"
proof
  assume "c \<in> row_commit E ` set (st_commits s)"
  then obtain r where r: "r \<in> set (st_commits s)" "c = row_commit E r" by blast
  have "row_ok E r" using store_ok_row [OF assms r(1)] .
  with r show "history E s (cm_commit_id c) = Some c"
    unfolding history_Some_iff [OF assms] by (metis row_commit_ok(1,2))
next
  assume "history E s (cm_commit_id c) = Some c"
  then obtain r where r: "r \<in> set (st_commits s)" "decode_commit E (row_proto r) = Inr c"
    unfolding history_Some_iff [OF assms] by blast
  then have "c = row_commit E r" by (simp add: row_commit_def)
  with r show "c \<in> row_commit E ` set (st_commits s)" by blast
qed

lemma sorted_rows:
  assumes "store_ok E s"
  shows "sorted (map commit_order (map (row_commit E) (sort_key order_key (st_commits s))))"
    and "distinct (map cm_commit_id (map (row_commit E) (sort_key order_key (st_commits s))))"
proof -
  have rows: "row_ok E r" if "r \<in> set (sort_key order_key (st_commits s))" for r
    using that store_ok_row [OF assms] by simp
  have "map commit_order (map (row_commit E) (sort_key order_key (st_commits s)))
      = map order_key (sort_key order_key (st_commits s))"
    using rows by (simp add: row_commit_ok)
  then show "sorted (map commit_order (map (row_commit E) (sort_key order_key (st_commits s))))"
    by (simp only: sorted_sort_key)
  have "map cm_commit_id (map (row_commit E) (sort_key order_key (st_commits s)))
      = map row_commit_id (sort_key order_key (st_commits s))"
    using rows by (auto simp: row_commit_ok)
  moreover have "distinct (map row_commit_id (sort_key order_key (st_commits s)))"
    using assms unfolding store_ok_def distinct_map by simp
  ultimately show "distinct (map cm_commit_id (map (row_commit E) (sort_key order_key (st_commits s))))"
    by (simp only:)
qed

text \<open>
  \<open>list_commits\<close> is complete and ordered: it returns every commit of the history that
  matches the filters, exactly once, ordered by logical clock read as a signed number, then by
  wall-clock second, then by id.
\<close>

theorem list_commits_complete:
  assumes "store_ok E s" and "list_commits E s run_id thread_id channel = Inr cs"
  shows "distinct (map cm_commit_id cs) \<and> sorted (map commit_order cs)
     \<and> (\<forall>c. c \<in> set cs \<longleftrightarrow> history E s (cm_commit_id c) = Some c
          \<and> matches run_id (cm_run_id c) \<and> matches thread_id (cm_thread_id c)
          \<and> matches channel (cm_channel c))"
proof -
  let ?all = "map (row_commit E) (sort_key order_key (st_commits s))"
  have "db_fault E DbListCommits = None"
    using assms(2) by (auto simp: list_commits_def result_simps guard_fault_def split: option.splits)
  then have cs: "cs = filter (\<lambda>c. matches run_id (cm_run_id c) \<and> matches thread_id (cm_thread_id c)
      \<and> matches channel (cm_channel c)) ?all"
    using list_commits_ok [OF assms(1)] assms(2) by simp
  have mem: "c \<in> set ?all \<longleftrightarrow> history E s (cm_commit_id c) = Some c" for c
    using history_rows [OF assms(1)] by simp
  have "distinct (map cm_commit_id cs)"
    unfolding cs using sorted_rows(2) [OF assms(1)] by (rule distinct_map_filter)
  moreover have "sorted (map commit_order cs)"
    unfolding cs using sorted_rows(1) [OF assms(1)] by (rule sorted_filter)
  moreover have "c \<in> set cs \<longleftrightarrow> history E s (cm_commit_id c) = Some c
      \<and> matches run_id (cm_run_id c) \<and> matches thread_id (cm_thread_id c)
      \<and> matches channel (cm_channel c)" for c
    unfolding cs set_filter mem [symmetric] by blast
  ultimately show ?thesis by blast
qed

theorem list_commits_complete_witness:
  "\<exists>s' cs. append_commit library_env (example_commit ''a'' []) empty_store = Inr s'
     \<and> list_commits library_env s' (Some []) None None = Inr cs
     \<and> example_commit ''a'' [] \<in> set cs"
proof -
  let ?c = "example_commit ''a'' []"
  obtain s' where s': "append_commit library_env ?c empty_store = Inr s'"
    using library_append by blast
  have ok: "store_ok library_env s'"
    using store_ok_open library_codec(1) s' by (rule append_commit_ok)
  have "history library_env s' = (history library_env empty_store)(''a'' \<mapsto> ?c)"
    using append_commit_history [OF store_ok_open library_codec(1) s'] by simp
  then have h: "history library_env s' (cm_commit_id ?c) = Some ?c" by simp
  obtain cs where cs: "list_commits library_env s' (Some []) None None = Inr cs"
    using list_commits_ok [OF ok] by simp
  have "matches (Some []) (cm_run_id ?c) \<and> matches None (cm_thread_id ?c)
      \<and> matches None (cm_channel ?c)"
    by (simp add: matches_def example_commit_def default_commit_def)
  with list_commits_complete [OF ok cs] h have "?c \<in> set cs" by blast
  with s' cs show ?thesis by blast
qed

section \<open>Heads\<close>

text \<open>The separator keeps the four parts apart when none of them contains it.\<close>

lemma separator_split:
  "c \<notin> set a \<Longrightarrow> c \<notin> set b \<Longrightarrow> a @ c # x = b @ c # y \<longleftrightarrow> a = b \<and> x = y"
proof (induction a arbitrary: b)
  case Nil
  then show ?case by (cases b) auto
next
  case (Cons z a)
  then show ?case by (cases b) auto
qed

definition plain :: "string \<Rightarrow> bool" where
  "plain s \<longleftrightarrow> CHR 0x1F \<notin> set s"

lemma head_key_inject:
  assumes "plain r" "plain t" "plain a" "plain r'" "plain t'" "plain a'"
  shows "head_key r t a c = head_key r' t' a' c' \<longleftrightarrow> r = r' \<and> t = t' \<and> a = a' \<and> c = c'"
  using assms by (auto simp: head_key_def plain_def separator_split)

lemma set_head_lookup:
  assumes "set_head E run_id thread_id agent_id channel i s = Inr s'"
  shows "map_option hd_commit_id (map_of (st_heads s') k) =
     (if k = head_key run_id thread_id agent_id channel then Some i
      else map_option hd_commit_id (map_of (st_heads s) k))"
    and "st_commits s' = st_commits s"
  using assms
  by (auto simp: set_head_def result_simps Let_def table_simps split: option.splits
      simp del: map_of_append)

lemma set_head_ok:
  "store_ok E s \<Longrightarrow> set_head E r t a c i s = Inr s' \<Longrightarrow>
   store_ok E s' \<and> history E s' = history E s"
  by (auto simp: set_head_def result_simps Let_def store_ok_def history_def map_of_eq_None_iff
      split: option.splits)

text \<open>
  Heads are independent registers: after \<open>set_head\<close> the head of that run, thread,
  agent and channel is the given commit and every other head is unchanged, provided no run,
  thread or agent id contains the separator U+001F.
\<close>

theorem get_head_after_set_head:
  assumes "set_head E run_id thread_id agent_id channel i s = Inr s'"
    and "plain run_id" "plain thread_id" "plain agent_id"
    and "plain r" "plain t" "plain a"
    and "db_fault E DbGetHead = None"
  shows "get_head E s' r t a c =
     (if (r, t, a, c) = (run_id, thread_id, agent_id, channel) then Inr (Some i)
      else get_head E s r t a c)"
  using assms head_key_inject [of r t a run_id thread_id agent_id c channel]
  by (simp add: get_head_def set_head_lookup [OF assms(1)])

theorem get_head_after_set_head_witness:
  "\<exists>s'. set_head library_env ''r'' ''t'' ''a'' ''c'' ''x'' empty_store = Inr s'
     \<and> get_head library_env s' ''r'' ''t'' ''a'' ''c'' = Inr (Some ''x'')"
proof -
  obtain s' where s': "set_head library_env ''r'' ''t'' ''a'' ''c'' ''x'' empty_store = Inr s'"
    by (simp add: set_head_def Let_def)
  have "get_head library_env s' ''r'' ''t'' ''a'' ''c'' = Inr (Some ''x'')"
    using get_head_after_set_head [OF s', of "''r''" "''t''" "''a''" "''c''"]
    by (simp add: plain_def)
  with s' show ?thesis by blast
qed

text \<open>
  Without that proviso two different heads share one row: an agent \<open>x\<close> of a thread
  whose id ends in the separator and the next component moves the head of another thread.
\<close>

theorem head_key_collision:
  "head_key ''r'' (''t'' @ [CHR 0x1F] @ ''x'') ''y'' ''c''
     = head_key ''r'' ''t'' (''x'' @ [CHR 0x1F] @ ''y'') ''c''"
  by (simp add: head_key_def)

section \<open>Artifacts\<close>

text \<open>
  Claim C30. An artifact reads back as it was written, whatever its size: compressed on disk from
  the configured threshold on, it is decompressed on the way out. Its id and hash are derived
  from the content.
\<close>

theorem put_get_artifact:
  assumes "put_artifact E bs media_type s = (s', Inr a)"
    and "\<And>z. zstd_encode E bs = Inr z \<Longrightarrow> zstd_decode E z = Inr bs"
    and "db_fault E DbGetArtifact = None" "fs_fault E FsRead = None"
  shows "get_artifact E s' (ar_artifact_id a) = Inr (Some bs)
     \<and> ar_artifact_id a = ''artifact_'' @ blake3_hex E bs
     \<and> ar_content_hash a = blake3_hex E bs \<and> ar_size_bytes a = of_nat (length bs)"
proof -
  obtain stored compressed where c: "maybe_compress E bs (st_compression_threshold s) = Inr (stored, compressed)"
    using assms(1) by (auto simp: put_artifact_def Let_def split: option.splits sum.splits)
  have "maybe_decompress E stored compressed = Inr bs"
    using c assms(2) by (rule maybe_compress_roundtrip)
  then show ?thesis using assms(1,3,4) c
    by (auto simp: put_artifact_def get_artifact_def Let_def table_simps split: option.splits)
qed

theorem put_get_artifact_witness:
  "\<exists>s' a. put_artifact library_env ''hello'' ''text/plain'' empty_store = (s', Inr a)
     \<and> get_artifact library_env s' (ar_artifact_id a) = Inr (Some ''hello'')"
proof -
  have fs: "fs_fault library_env op = None" "zstd_encode library_env bs = Inr bs"
      "zstd_decode library_env bs = Inr bs" for op bs
    by (simp_all add: library_env_def example_env_def)
  have "is_ok (snd (put_artifact library_env ''hello'' ''text/plain'' empty_store))"
    by (simp add: put_artifact_def Let_def fs maybe_compress_def)
  then obtain s' a where
    p: "put_artifact library_env ''hello'' ''text/plain'' empty_store = (s', Inr a)"
    by (cases "put_artifact library_env ''hello'' ''text/plain'' empty_store") (auto elim: is_okE)
  have "get_artifact library_env s' (ar_artifact_id a) = Inr (Some ''hello'')"
    using put_get_artifact [OF p, THEN conjunct1] fs by simp
  with p show ?thesis by blast
qed

section \<open>Stores for examples\<close>

text \<open>An environment whose codec reads back the listed commits, and the store that holds them.\<close>

definition shelf_env :: "commit list \<Rightarrow> env" where
  "shelf_env cs = example_env\<lparr>decode_commit := (\<lambda>b.
     case List.find (\<lambda>c. cm_commit_id c = b) cs of Some c \<Rightarrow> Inr c | None \<Rightarrow> Inl (Anyhow ''decode''))\<rparr>"

lemma shelf_env_simps [simp]:
  "db_fault (shelf_env cs) op = None" "fs_fault (shelf_env cs) fop = None"
  "json_print (shelf_env cs) v = Inr ''{}''" "blake3 (shelf_env cs) = blake3 example_env"
  "encode_commit (shelf_env cs) = cm_commit_id"
  by (simp_all add: shelf_env_def example_env_def)

lemma shelf_codec: "distinct (map cm_commit_id cs) \<Longrightarrow> c \<in> set cs \<Longrightarrow> codec_ok (shelf_env cs) c"
proof -
  assume d: "distinct (map cm_commit_id cs)" and c: "c \<in> set cs"
  have "List.find (\<lambda>x. cm_commit_id x = cm_commit_id c) cs = Some c"
    using d c by (induction cs) (auto simp: image_iff)
  then show "codec_ok (shelf_env cs) c" by (simp add: codec_ok_def shelf_env_def example_env_def)
qed

lemma append_commit_runs: "\<exists>s'. append_commit (shelf_env ds) c s = Inr s'"
  by (rule append_commit_succeeds) simp_all

lemma put_all_shelf:
  assumes "list_all (codec_ok (shelf_env ds)) cs" "distinct (map cm_commit_id cs)"
    and "store_ok (shelf_env ds) s" "\<And>c. c \<in> set cs \<Longrightarrow> history (shelf_env ds) s (cm_commit_id c) = None"
  shows "\<exists>s'. sqlite.put_all (shelf_env ds) cs s = Inr s' \<and> store_ok (shelf_env ds) s'
     \<and> history (shelf_env ds) s' = history (shelf_env ds) s ++ map_of (map (\<lambda>c. (cm_commit_id c, c)) cs)"
  using assms
proof (induction cs arbitrary: s)
  case (Cons c cs)
  obtain t where t: "append_commit (shelf_env ds) c s = Inr t" using append_commit_runs by blast
  have c: "codec_ok (shelf_env ds) c" using Cons.prems(1) by simp
  have ok: "store_ok (shelf_env ds) t" using Cons.prems(3) c t by (rule append_commit_ok)
  have h: "history (shelf_env ds) t = (history (shelf_env ds) s)(cm_commit_id c \<mapsto> c)"
    using append_commit_history [OF Cons.prems(3) c t] Cons.prems(4) [of c] by simp
  have "\<exists>s'. sqlite.put_all (shelf_env ds) cs t = Inr s' \<and> store_ok (shelf_env ds) s'
     \<and> history (shelf_env ds) s' = history (shelf_env ds) t ++ map_of (map (\<lambda>c. (cm_commit_id c, c)) cs)"
    using Cons.prems ok h by (intro Cons.IH) (auto simp: image_iff)
  moreover have "map_of (map (\<lambda>c. (cm_commit_id c, c)) cs) (cm_commit_id c) = None"
    using Cons.prems(2) by (auto simp: map_of_eq_None_iff image_iff)
  then have "(f(cm_commit_id c \<mapsto> c)) ++ map_of (map (\<lambda>c. (cm_commit_id c, c)) cs)
      = f ++ map_of (map (\<lambda>c. (cm_commit_id c, c)) (c # cs))" for f
    by (auto simp: fun_eq_iff map_add_def split: option.splits)
  ultimately show ?case using t h by (simp del: list.map)
qed simp

lemma shelf_store:
  assumes "distinct (map cm_commit_id cs)"
  obtains s where "sqlite.put_all (shelf_env cs) cs empty_store = Inr s" "store_ok (shelf_env cs) s"
    "history (shelf_env cs) s = map_of (map (\<lambda>c. (cm_commit_id c, c)) cs)"
proof -
  have "\<exists>s'. sqlite.put_all (shelf_env cs) cs empty_store = Inr s' \<and> store_ok (shelf_env cs) s'
     \<and> history (shelf_env cs) s' = history (shelf_env cs) empty_store ++ map_of (map (\<lambda>c. (cm_commit_id c, c)) cs)"
    using assms by (intro put_all_shelf) (auto simp: list_all_iff shelf_codec)
  moreover have "history (shelf_env cs) empty_store = Map.empty" by (rule ext) simp
  ultimately show ?thesis using that by auto
qed

end
