(* ===== verification/Bus.thy ===== *)
theory Bus
  imports Auth
begin

text \<open>
  \<open>daemon/src/bus\<close> and the counters of \<open>observability/metrics.rs\<close>: channels, subscriptions with
  their bounded queues, presence and the recent deltas. A \<open>tokio::mpsc\<close> channel is a queue in
  the state, named by a number that the subscription's sender carries. Each method is one step;
  while a durable send awaits room, the environment says what that receiver does (\<open>receiver\<close>).
  A counter is a \<open>u64\<close> that wraps: \<open>fetch_add\<close> always does, \<open>+=\<close> in a release build.
\<close>

section \<open>metrics.rs\<close>

record metrics =
  mt_agents_connected :: u64
  mt_channels_total :: u64
  mt_subscriptions_total :: u64
  mt_deltas_total :: u64
  mt_ephemeral_deltas_total :: u64
  mt_durable_deltas_total :: u64
  mt_commits_total :: u64
  mt_broadcast_latency_ms :: u64
  mt_store_append_latency_ms :: u64
  mt_grpc_request_latency_ms :: u64
  mt_http_request_latency_ms :: u64
  mt_replay_latency_ms :: u64
  mt_diff_latency_ms :: u64
  mt_loop_warnings_total :: u64
  mt_backpressure_events_total :: u64
  mt_dropped_ephemeral_total :: u64
  mt_artifacts_total :: u64
  mt_errors_total :: u64
  mt_memory_bytes :: u64

definition new_metrics :: metrics where
  "new_metrics = \<lparr>mt_agents_connected = 0, mt_channels_total = 0, mt_subscriptions_total = 0,
     mt_deltas_total = 0, mt_ephemeral_deltas_total = 0, mt_durable_deltas_total = 0,
     mt_commits_total = 0, mt_broadcast_latency_ms = 0, mt_store_append_latency_ms = 0,
     mt_grpc_request_latency_ms = 0, mt_http_request_latency_ms = 0, mt_replay_latency_ms = 0,
     mt_diff_latency_ms = 0, mt_loop_warnings_total = 0, mt_backpressure_events_total = 0,
     mt_dropped_ephemeral_total = 0, mt_artifacts_total = 0, mt_errors_total = 0,
     mt_memory_bytes = 0\<rparr>"

text \<open>\<open>Counter::inc\<close>.\<close>

definition inc :: "u64 \<Rightarrow> u64" where
  "inc n = n + 1"

record metrics_summary =
  nexus_agents_connected :: u64
  nexus_channels_total :: u64
  nexus_subscriptions_total :: u64
  nexus_deltas_total :: u64
  nexus_ephemeral_deltas_total :: u64
  nexus_durable_deltas_total :: u64
  nexus_commits_total :: u64
  nexus_loop_warnings_total :: u64
  nexus_backpressure_events_total :: u64
  nexus_dropped_ephemeral_total :: u64
  nexus_artifacts_total :: u64
  nexus_errors_total :: u64
  nexus_memory_bytes :: u64

definition summary :: "metrics \<Rightarrow> metrics_summary" where
  "summary self = \<lparr>
     nexus_agents_connected = mt_agents_connected self,
     nexus_channels_total = mt_channels_total self,
     nexus_subscriptions_total = mt_subscriptions_total self,
     nexus_deltas_total = mt_deltas_total self,
     nexus_ephemeral_deltas_total = mt_ephemeral_deltas_total self,
     nexus_durable_deltas_total = mt_durable_deltas_total self,
     nexus_commits_total = mt_commits_total self,
     nexus_loop_warnings_total = mt_loop_warnings_total self,
     nexus_backpressure_events_total = mt_backpressure_events_total self,
     nexus_dropped_ephemeral_total = mt_dropped_ephemeral_total self,
     nexus_artifacts_total = mt_artifacts_total self,
     nexus_errors_total = mt_errors_total self,
     nexus_memory_bytes = mt_memory_bytes self\<rparr>"

definition prometheus_line :: "string \<times> u64 \<Rightarrow> string" where
  "prometheus_line nv =
     ''# TYPE '' @ fst nv @ '' gauge'' @ [CHR 0x0A] @ fst nv @ '' '' @ show_nat (unat (snd nv)) @ [CHR 0x0A]"

text \<open>The names and values that \<open>prometheus\<close> prints, in its order.\<close>

definition gauges :: "metrics_summary \<Rightarrow> (string \<times> u64) list" where
  "gauges s =
     [(''nexus_agents_connected'', nexus_agents_connected s),
      (''nexus_channels_total'', nexus_channels_total s),
      (''nexus_subscriptions_total'', nexus_subscriptions_total s),
      (''nexus_deltas_total'', nexus_deltas_total s),
      (''nexus_ephemeral_deltas_total'', nexus_ephemeral_deltas_total s),
      (''nexus_durable_deltas_total'', nexus_durable_deltas_total s),
      (''nexus_commits_total'', nexus_commits_total s),
      (''nexus_loop_warnings_total'', nexus_loop_warnings_total s),
      (''nexus_backpressure_events_total'', nexus_backpressure_events_total s),
      (''nexus_dropped_ephemeral_total'', nexus_dropped_ephemeral_total s),
      (''nexus_artifacts_total'', nexus_artifacts_total s),
      (''nexus_errors_total'', nexus_errors_total s),
      (''nexus_memory_bytes'', nexus_memory_bytes s)]"

definition prometheus :: "metrics \<Rightarrow> string" where
  "prometheus self = concat (map prometheus_line (gauges (summary self)))"

section \<open>State\<close>

record delta_info =
  di_delta_id :: string
  di_commit_id :: string
  di_channel :: string
  di_agent_id :: string
  di_run_id :: string
  di_durable :: bool
  di_summary :: string
  di_wall_time_seconds :: i64

record channel_state =
  cst_latest :: "state_delta option"
  cst_durable_count :: u64
  cst_ephemeral_count :: u64
  cst_publishers :: "string list"

record subscription =
  sub_subscriber_id :: string
  sub_filter :: subscription_filter
  sub_sender :: queue_id
  sub_dropped_count :: u64

record queue =
  qu_capacity :: nat
  qu_items :: "broadcast_delta list"
  qu_closed :: bool

record bus =
  bus_channels :: "(string, channel_state) table"
  bus_subscriptions :: "(string, subscription) table"
  bus_presence :: "(string, agent_presence) table"
  bus_recent_deltas :: "delta_info list"
  bus_metrics :: metrics
  bus_queues :: "(queue_id, queue) table"

definition new_bus :: "metrics \<Rightarrow> bus" where
  "new_bus m = \<lparr>bus_channels = [], bus_subscriptions = [], bus_presence = [],
     bus_recent_deltas = [], bus_metrics = m, bus_queues = []\<rparr>"

definition dead_queue :: queue where
  "dead_queue = \<lparr>qu_capacity = 1, qu_items = [], qu_closed = True\<rparr>"

definition queue_of :: "bus \<Rightarrow> queue_id \<Rightarrow> queue" where
  "queue_of b q = unwrap_or dead_queue (map_of (bus_queues b) q)"

definition set_queue :: "queue_id \<Rightarrow> queue \<Rightarrow> bus \<Rightarrow> bus" where
  "set_queue q x b = b\<lparr>bus_queues := AList.update q x (bus_queues b)\<rparr>"

section \<open>Presence\<close>

definition agent_count :: "bus \<Rightarrow> nat" where
  "agent_count b = length (bus_presence b)"

definition channel_count :: "bus \<Rightarrow> nat" where
  "channel_count b = length (bus_channels b)"

definition subscription_count :: "bus \<Rightarrow> nat" where
  "subscription_count b = length (bus_subscriptions b)"

definition bus_register_agent :: "env \<Rightarrow> register_agent_request \<Rightarrow> bus \<Rightarrow> bus \<times> agent_presence" where
  "bus_register_agent E request b =
     (let presence =
            \<lparr>ap_agent_id = ra_agent_id request, ap_run_id = ra_run_id request,
             ap_thread_id = ra_thread_id request, ap_status = ''online'',
             ap_last_seen = Some (now E PresenceSite), ap_metadata = ra_metadata request,
             ap_capabilities = ra_capabilities request, ap_active_channels = []\<rparr>;
          b = b\<lparr>bus_presence := AList.update (ra_agent_id request) presence (bus_presence b)\<rparr>;
          b = b\<lparr>bus_metrics := (bus_metrics b)\<lparr>mt_agents_connected := of_nat (agent_count b)\<rparr>\<rparr>
      in (b, presence))"

definition heartbeat :: "env \<Rightarrow> string \<Rightarrow> bus \<Rightarrow> bus" where
  "heartbeat E agent_id b =
     (case map_of (bus_presence b) agent_id of
        None \<Rightarrow> b
      | Some agent \<Rightarrow> b\<lparr>bus_presence := AList.update agent_id
          (agent\<lparr>ap_status := ''online'', ap_last_seen := Some (now E PresenceSite)\<rparr>) (bus_presence b)\<rparr>)"

section \<open>Matching\<close>

definition channel_pattern_matches :: "string \<Rightarrow> string \<Rightarrow> bool" where
  "channel_pattern_matches pat channel =
     (if pat = ''*'' \<or> pat = channel then True
      else (case strip_suffix_char (CHR ''*'') pat of
              Some pre \<Rightarrow> prefix pre channel
            | None \<Rightarrow> False))"

definition filter_matches :: "subscription_filter \<Rightarrow> string \<Rightarrow> bool \<Rightarrow> bool" where
  "filter_matches flt channel durable =
     (if sf_durable_only flt \<and> \<not> durable then False
      else (\<exists>pat\<in>set (sf_channel_patterns flt). channel_pattern_matches pat channel))"

definition subscription_matches :: "subscription \<Rightarrow> state_delta \<Rightarrow> bool" where
  "subscription_matches s delta = filter_matches (sub_filter s) (sd_channel delta) (sd_durable delta)"

section \<open>subscribe\<close>

text \<open>The queue of a new subscription is a number no queue has.\<close>

definition fresh_queue :: "bus \<Rightarrow> queue_id" where
  "fresh_queue b = Suc (Max (insert 0 (set (keys (bus_queues b)))))"

definition clamp :: "nat \<Rightarrow> nat \<Rightarrow> nat \<Rightarrow> nat" where
  "clamp lo hi n = (if n < lo then lo else if hi < n then hi else n)"

definition subscribe :: "string \<Rightarrow> subscription_filter \<Rightarrow> nat \<Rightarrow> bus \<Rightarrow> bus \<times> queue_id" where
  "subscribe subscriber_id flt capacity b =
     (let capacity = clamp 1 8192 capacity;
          q = fresh_queue b;
          b = set_queue q \<lparr>qu_capacity = capacity, qu_items = [], qu_closed = False\<rparr> b;
          b = b\<lparr>bus_subscriptions := AList.update subscriber_id
                 \<lparr>sub_subscriber_id = subscriber_id, sub_filter = flt, sub_sender = q,
                  sub_dropped_count = 0\<rparr> (bus_subscriptions b)\<rparr>;
          b = b\<lparr>bus_metrics := (bus_metrics b)\<lparr>mt_subscriptions_total := of_nat (subscription_count b)\<rparr>\<rparr>
      in (b, q))"

section \<open>broadcast\<close>

definition update_channel :: "state_delta \<Rightarrow> bus \<Rightarrow> bus" where
  "update_channel delta b =
     (let state = unwrap_or
            \<lparr>cst_latest = None, cst_durable_count = 0, cst_ephemeral_count = 0, cst_publishers = []\<rparr>
            (map_of (bus_channels b) (sd_channel delta));
          state = state\<lparr>cst_latest := Some delta\<rparr>;
          state = (if sd_durable delta
                   then state\<lparr>cst_durable_count := inc (cst_durable_count state)\<rparr>
                   else state\<lparr>cst_ephemeral_count := inc (cst_ephemeral_count state)\<rparr>);
          state = (if sd_agent_id delta \<in> set (cst_publishers state) then state
                   else state\<lparr>cst_publishers := cst_publishers state @ [sd_agent_id delta]\<rparr>);
          b = b\<lparr>bus_channels := AList.update (sd_channel delta) state (bus_channels b)\<rparr>
      in b\<lparr>bus_metrics := (bus_metrics b)\<lparr>mt_channels_total := of_nat (channel_count b)\<rparr>\<rparr>)"

definition delta_info_of :: "state_delta \<Rightarrow> string \<Rightarrow> delta_info" where
  "delta_info_of delta commit_id =
     \<lparr>di_delta_id = sd_delta_id delta, di_commit_id = commit_id, di_channel = sd_channel delta,
      di_agent_id = sd_agent_id delta, di_run_id = sd_run_id delta, di_durable = sd_durable delta,
      di_summary = sd_summary delta, di_wall_time_seconds = seconds_of (sd_wall_time delta)\<rparr>"

definition push_recent :: "state_delta \<Rightarrow> string \<Rightarrow> bus \<Rightarrow> bus" where
  "push_recent delta commit_id b =
     b\<lparr>bus_recent_deltas := push_bounded 256 (delta_info_of delta commit_id) (bus_recent_deltas b)\<rparr>"

definition record_drop :: "string \<Rightarrow> bus \<Rightarrow> bus" where
  "record_drop subscriber_id b =
     (let b = (case map_of (bus_subscriptions b) subscriber_id of
                 None \<Rightarrow> b
               | Some s \<Rightarrow> b\<lparr>bus_subscriptions := AList.update subscriber_id
                   (s\<lparr>sub_dropped_count := inc (sub_dropped_count s)\<rparr>) (bus_subscriptions b)\<rparr>);
          m = bus_metrics b
      in b\<lparr>bus_metrics := m\<lparr>mt_backpressure_events_total := inc (mt_backpressure_events_total m),
                            mt_dropped_ephemeral_total := inc (mt_dropped_ephemeral_total m)\<rparr>\<rparr>)"

text \<open>
  A place that tokio has set aside for a sender that waits counts as free here; in a sequence of whole
  requests no sender waits.
\<close>

datatype try_send_result = SendOk | SendFull | SendClosed

definition try_send :: "queue \<Rightarrow> try_send_result" where
  "try_send x = (if qu_closed x then SendClosed
                 else if length (qu_items x) < qu_capacity x then SendOk else SendFull)"

text \<open>
  One target of the loop. \<open>None\<close> is a send that is awaited for ever: a durable message to a full
  queue whose receiver neither reads nor goes away.
\<close>

definition send_one :: "env \<Rightarrow> broadcast_delta \<Rightarrow> bool \<Rightarrow> string \<Rightarrow> queue_id \<Rightarrow> bus \<Rightarrow> bus option" where
  "send_one E msg durable subscriber_id q b =
     (let x = queue_of b q in
      case try_send x of
        SendOk \<Rightarrow> Some (set_queue q (x\<lparr>qu_items := qu_items x @ [msg]\<rparr>) b)
      | SendFull \<Rightarrow>
          if durable
          then (case receiver E q of
                  Drains n \<Rightarrow>
                    if n = 0 then None
                    else Some (set_queue q (x\<lparr>qu_items := drop n (qu_items x) @ [msg]\<rparr>) b)
                | Closes \<Rightarrow> Some (set_queue q (x\<lparr>qu_closed := True\<rparr>) b)
                | Stalls \<Rightarrow> None)
          else Some (record_drop subscriber_id b)
      | SendClosed \<Rightarrow>
          Some (b\<lparr>bus_subscriptions := AList.delete subscriber_id (bus_subscriptions b)\<rparr>))"

text \<open>The loop over the targets; the result says whether it returned.\<close>

fun deliver :: "env \<Rightarrow> broadcast_delta \<Rightarrow> bool \<Rightarrow> (string \<times> queue_id) list \<Rightarrow> bus \<Rightarrow> bus \<times> bool" where
  "deliver E msg durable [] b = (b, True)"
| "deliver E msg durable ((subscriber_id, q) # targets) b =
     (case send_one E msg durable subscriber_id q b of
        None \<Rightarrow> (b, False)
      | Some b' \<Rightarrow> deliver E msg durable targets b')"

definition targets_of :: "state_delta \<Rightarrow> bus \<Rightarrow> (string \<times> queue_id) list" where
  "targets_of delta b =
     map (\<lambda>(_, s). (sub_subscriber_id s, sub_sender s))
       (filter (\<lambda>(_, s). subscription_matches s delta) (bus_subscriptions b))"

definition count_delta :: "bool \<Rightarrow> metrics \<Rightarrow> metrics" where
  "count_delta durable m =
     (let m = m\<lparr>mt_deltas_total := inc (mt_deltas_total m)\<rparr> in
      if durable then m\<lparr>mt_durable_deltas_total := inc (mt_durable_deltas_total m)\<rparr>
      else m\<lparr>mt_ephemeral_deltas_total := inc (mt_ephemeral_deltas_total m)\<rparr>)"

definition broadcast :: "env \<Rightarrow> state_delta \<Rightarrow> string \<Rightarrow> bus \<Rightarrow> bus \<times> bool" where
  "broadcast E delta commit_id b =
     (let b = push_recent delta commit_id (update_channel delta b);
          msg = \<lparr>bd_delta = Some delta, bd_commit_id = commit_id, bd_redacted = True\<rparr>;
          (b, returned) = deliver E msg (sd_durable delta) (targets_of delta b) b
      in if returned then (b\<lparr>bus_metrics := count_delta (sd_durable delta) (bus_metrics b)\<rparr>, True)
         else (b, False))"

section \<open>Reads\<close>

definition snapshot :: "string \<Rightarrow> bus \<Rightarrow> channel_snapshot_response" where
  "snapshot channel b =
     (case map_of (bus_channels b) channel of
        None \<Rightarrow> \<lparr>cs_channel = channel, cs_latest_payload = None, cs_durable_count = 0,
                 cs_ephemeral_count = 0\<rparr>
      | Some state \<Rightarrow>
          \<lparr>cs_channel = channel,
           cs_latest_payload = Option.bind (cst_latest state) sd_payload,
           cs_durable_count = cst_durable_count state,
           cs_ephemeral_count = cst_ephemeral_count state\<rparr>)"

record channel_info =
  ci_name :: string
  ci_durable_count :: u64
  ci_ephemeral_count :: u64
  ci_publishers :: "string list"
  ci_subscribers :: "string list"

definition channels :: "bus \<Rightarrow> channel_info list" where
  "channels b =
     map (\<lambda>(name, state).
       \<lparr>ci_name = name, ci_durable_count = cst_durable_count state,
        ci_ephemeral_count = cst_ephemeral_count state, ci_publishers = cst_publishers state,
        ci_subscribers = map (\<lambda>(_, s). sub_subscriber_id s)
          (filter (\<lambda>(_, s). filter_matches (sub_filter s) name False) (bus_subscriptions b))\<rparr>)
       (bus_channels b)"

record agent_info =
  ai_agent_id :: string
  ai_run_id :: string
  ai_thread_id :: string
  ai_status :: string
  ai_framework :: string
  ai_language :: string
  ai_capabilities :: "string list"
  ai_last_seen_seconds :: i64
  ai_active_channels :: "string list"

definition agents :: "bus \<Rightarrow> agent_info list" where
  "agents b =
     map (\<lambda>(_, p).
       \<lparr>ai_agent_id = ap_agent_id p, ai_run_id = ap_run_id p, ai_thread_id = ap_thread_id p,
        ai_status = ap_status p,
        ai_framework = unwrap_or [] (map_option am_framework (ap_metadata p)),
        ai_language = unwrap_or [] (map_option am_language (ap_metadata p)),
        ai_capabilities = unwrap_or [] (map_option ac_capabilities (ap_capabilities p)),
        ai_last_seen_seconds = seconds_of (ap_last_seen p),
        ai_active_channels = ap_active_channels p\<rparr>)
       (bus_presence b)"

definition recent_deltas :: "string option \<Rightarrow> bus \<Rightarrow> delta_info list" where
  "recent_deltas channel b =
     filter (\<lambda>d. unwrap_or True (map_option (\<lambda>value. value = di_channel d) channel)) (bus_recent_deltas b)"

definition dropped_for :: "string \<Rightarrow> bus \<Rightarrow> u64" where
  "dropped_for subscriber_id b =
     unwrap_or 0 (map_option sub_dropped_count (map_of (bus_subscriptions b) subscriber_id))"

section \<open>Patterns\<close>

lemma channel_pattern_scope: "channel_pattern_matches pat channel = scope_matches pat channel"
  by (simp add: channel_pattern_matches_def scope_matches_def split: option.splits)

text \<open>
  A subscription sees a delta exactly when one of its patterns is the channel itself,
  \<open>*\<close>, or a prefix of the channel followed by \<open>*\<close>, and, if it asked for durable deltas only,
  the delta is durable. Patterns mean the same as permission scopes. The tags of the filter play
  no part, and a subscription without patterns sees nothing.
\<close>

theorem filter_matches_iff:
  "filter_matches flt channel durable \<longleftrightarrow>
     (durable \<or> \<not> sf_durable_only flt)
     \<and> (\<exists>pat\<in>set (sf_channel_patterns flt). pat = channel \<or> (\<exists>pre. pat = pre @ ''*'' \<and> prefix pre channel))"
proof -
  have "channel_pattern_matches pat channel \<longleftrightarrow>
      pat = channel \<or> (\<exists>pre. pat = pre @ ''*'' \<and> prefix pre channel)" for pat
    unfolding channel_pattern_scope scope_matches_iff by auto
  then show ?thesis by (auto simp: filter_matches_def)
qed

theorem filter_matches_iff_witness:
  "filter_matches \<lparr>sf_channel_patterns = [''topic:*''], sf_durable_only = True, sf_tags = [''x'']\<rparr> ''topic:a'' True
   \<and> \<not> filter_matches \<lparr>sf_channel_patterns = [''topic:*''], sf_durable_only = True, sf_tags = []\<rparr> ''topic:a'' False
   \<and> \<not> filter_matches \<lparr>sf_channel_patterns = [], sf_durable_only = False, sf_tags = []\<rparr> ''topic:a'' True"
proof -
  have "''topic:*'' = ''topic:'' @ ''*'' \<and> prefix ''topic:'' ''topic:a''" by simp
  then show ?thesis unfolding filter_matches_iff by fastforce
qed

section \<open>Delivery\<close>

text \<open>What one target's queue and one subscription become, and when its send never returns.\<close>

definition sent :: "env \<Rightarrow> broadcast_delta \<Rightarrow> bool \<Rightarrow> queue_id \<Rightarrow> queue \<Rightarrow> queue" where
  "sent E msg durable q x =
     (case try_send x of
        SendClosed \<Rightarrow> x
      | SendOk \<Rightarrow> x\<lparr>qu_items := qu_items x @ [msg]\<rparr>
      | SendFull \<Rightarrow>
          if durable
          then (case receiver E q of
                  Drains n \<Rightarrow> x\<lparr>qu_items := drop n (qu_items x) @ [msg]\<rparr>
                | Closes \<Rightarrow> x\<lparr>qu_closed := True\<rparr>
                | Stalls \<Rightarrow> x)
          else x)"

definition after_send :: "bool \<Rightarrow> queue \<Rightarrow> subscription \<Rightarrow> subscription option" where
  "after_send durable x s =
     (case try_send x of
        SendClosed \<Rightarrow> None
      | SendOk \<Rightarrow> Some s
      | SendFull \<Rightarrow> if durable then Some s
                    else Some (s\<lparr>sub_dropped_count := inc (sub_dropped_count s)\<rparr>))"

definition stuck :: "env \<Rightarrow> queue_id \<Rightarrow> queue \<Rightarrow> bool" where
  "stuck E q x \<longleftrightarrow> try_send x = SendFull \<and> (receiver E q = Stalls \<or> receiver E q = Drains 0)"

lemma queue_of_set_queue [simp]: "queue_of (set_queue q x b) p = (if p = q then x else queue_of b p)"
  by (simp add: queue_of_def set_queue_def table_simps)

lemma set_queue_simps [simp]:
  "bus_subscriptions (set_queue q x b) = bus_subscriptions b"
  "bus_channels (set_queue q x b) = bus_channels b"
  "bus_recent_deltas (set_queue q x b) = bus_recent_deltas b"
  "bus_presence (set_queue q x b) = bus_presence b"
  "bus_metrics (set_queue q x b) = bus_metrics b"
  by (simp_all add: set_queue_def)

lemma record_drop_simps [simp]:
  "queue_of (record_drop i b) q = queue_of b q"
  "bus_channels (record_drop i b) = bus_channels b"
  "bus_recent_deltas (record_drop i b) = bus_recent_deltas b"
  "bus_presence (record_drop i b) = bus_presence b"
  "map_of (bus_subscriptions (record_drop i b)) j =
     (if j = i then map_option (\<lambda>s. s\<lparr>sub_dropped_count := inc (sub_dropped_count s)\<rparr>)
        (map_of (bus_subscriptions b) i) else map_of (bus_subscriptions b) j)"
  by (simp_all add: record_drop_def queue_of_def Let_def table_simps split: option.splits)

lemma queue_of_subscriptions [simp]: "queue_of (b\<lparr>bus_subscriptions := ss\<rparr>) q = queue_of b q"
  by (simp add: queue_of_def)

lemma send_one_None: "send_one E msg durable i p b = None \<longleftrightarrow> durable \<and> stuck E p (queue_of b p)"
  by (simp add: send_one_def stuck_def Let_def split: try_send_result.splits receiver_behaviour.splits)

lemma send_one_queue:
  "send_one E msg durable i p b = Some c \<Longrightarrow>
   queue_of c q = (if q = p then sent E msg durable p (queue_of b p) else queue_of b q)"
  by (auto simp: send_one_def sent_def Let_def
      split: try_send_result.splits receiver_behaviour.splits if_splits)

lemma send_one_subscriptions:
  "send_one E msg durable i p b = Some c \<Longrightarrow>
   map_of (bus_subscriptions c) k =
     (if k = i then Option.bind (map_of (bus_subscriptions b) i) (after_send durable (queue_of b p))
      else map_of (bus_subscriptions b) k)"
  by (cases "map_of (bus_subscriptions b) i")
    (auto simp: send_one_def after_send_def Let_def AList.delete_conv'
      split: try_send_result.splits receiver_behaviour.splits if_splits)

lemma send_one_keeps:
  "send_one E msg durable i p b = Some c \<Longrightarrow>
   bus_channels c = bus_channels b \<and> bus_recent_deltas c = bus_recent_deltas b
   \<and> bus_presence c = bus_presence b"
  by (auto simp: send_one_def Let_def
      split: try_send_result.splits receiver_behaviour.splits if_splits)

lemma deliver_keeps [simp]:
  "bus_channels (fst (deliver E msg durable ts b)) = bus_channels b"
  "bus_recent_deltas (fst (deliver E msg durable ts b)) = bus_recent_deltas b"
  "bus_presence (fst (deliver E msg durable ts b)) = bus_presence b"
  by (induction ts arbitrary: b) (auto dest: send_one_keeps split: option.splits)

lemma deliver_returns:
  assumes "distinct (map snd ts)"
  shows "snd (deliver E msg durable ts b) \<longleftrightarrow> \<not> (durable \<and> (\<exists>q\<in>snd ` set ts. stuck E q (queue_of b q)))"
  using assms
proof (induction ts arbitrary: b)
  case (Cons t ts)
  obtain i p where t: "t = (i, p)" by (cases t)
  show ?case
  proof (cases "send_one E msg durable i p b")
    case None
    then show ?thesis using t by (simp add: send_one_None [THEN iffD1, OF None])
  next
    case (Some c)
    then have "\<not> (durable \<and> stuck E p (queue_of b p))"
      using send_one_None by (metis option.distinct(1))
    moreover have "queue_of c q = queue_of b q" if "q \<in> snd ` set ts" for q
      using send_one_queue [OF Some, of q] Cons.prems t that by auto
    ultimately show ?thesis using Cons t Some by auto
  qed
qed simp

lemma deliver_queues:
  assumes "distinct (map snd ts)" "snd (deliver E msg durable ts b)"
  shows "queue_of (fst (deliver E msg durable ts b)) q =
    (if q \<in> snd ` set ts then sent E msg durable q (queue_of b q) else queue_of b q)"
  using assms
proof (induction ts arbitrary: b)
  case (Cons t ts)
  obtain i p where t: "t = (i, p)" by (cases t)
  obtain c where c: "send_one E msg durable i p b = Some c"
    using Cons.prems(2) t by (auto split: option.splits)
  have "queue_of (fst (deliver E msg durable ts c)) q =
      (if q \<in> snd ` set ts then sent E msg durable q (queue_of c q) else queue_of c q)"
    using Cons.prems t c by (intro Cons.IH) simp_all
  moreover have "p \<notin> snd ` set ts" using Cons.prems(1) t by simp
  ultimately show ?case using t c send_one_queue [OF c, of q] by auto
qed simp

lemma deliver_subscriptions:
  assumes "distinct (map fst ts)" "distinct (map snd ts)" "snd (deliver E msg durable ts b)"
  shows "map_of (bus_subscriptions (fst (deliver E msg durable ts b))) i =
    (case map_of ts i of
       None \<Rightarrow> map_of (bus_subscriptions b) i
     | Some q \<Rightarrow> Option.bind (map_of (bus_subscriptions b) i) (after_send durable (queue_of b q)))"
  using assms
proof (induction ts arbitrary: b)
  case (Cons t ts)
  obtain j p where t: "t = (j, p)" by (cases t)
  obtain c where c: "send_one E msg durable j p b = Some c"
    using Cons.prems(3) t by (auto split: option.splits)
  have IH: "map_of (bus_subscriptions (fst (deliver E msg durable ts c))) i =
    (case map_of ts i of
       None \<Rightarrow> map_of (bus_subscriptions c) i
     | Some q \<Rightarrow> Option.bind (map_of (bus_subscriptions c) i) (after_send durable (queue_of c q)))"
    using Cons.prems t c by (intro Cons.IH) simp_all
  have j: "map_of ts j = None" using Cons.prems(1) t by (simp add: map_of_eq_None_iff)
  have other: "queue_of c q = queue_of b q" if "map_of ts i = Some q" for q
    using send_one_queue [OF c, of q] Cons.prems(2) t map_of_SomeD [OF that] by force
  show ?case
  proof (cases "i = j")
    case True
    then show ?thesis using IH send_one_subscriptions [OF c, of i] j t c by simp
  next
    case False
    then show ?thesis using IH send_one_subscriptions [OF c, of i] t c other
      by (cases "map_of ts i") simp_all
  qed
qed simp

section \<open>The invariant of the bus\<close>

definition bus_ok :: "bus \<Rightarrow> bool" where
  "bus_ok b \<longleftrightarrow> distinct (keys (bus_subscriptions b))
     \<and> list_all (\<lambda>(i, s). sub_subscriber_id s = i) (bus_subscriptions b)
     \<and> distinct (map (\<lambda>(i, s). sub_sender s) (bus_subscriptions b))
     \<and> list_all (\<lambda>(i, s). sub_sender s \<in> set (keys (bus_queues b))) (bus_subscriptions b)"

lemma bus_ok_new [simp]: "bus_ok (new_bus m)"
  by (simp add: bus_ok_def new_bus_def)

lemma fresh_queue_new: "fresh_queue b \<notin> set (keys (bus_queues b))"
proof
  assume "fresh_queue b \<in> set (keys (bus_queues b))"
  then have "fresh_queue b \<le> Max (insert 0 (set (keys (bus_queues b))))" by (intro Max_ge) auto
  then show False by (simp add: fresh_queue_def)
qed

lemma update_distinct:
  assumes "distinct (map f ss)" "f (i, t) \<notin> f ` set ss"
  shows "distinct (map f (AList.update i t ss))
     \<and> f ` set (AList.update i t ss) \<subseteq> insert (f (i, t)) (f ` set ss)"
  using assms
proof (induction ss)
  case (Cons x ss)
  then have IH: "distinct (map f (AList.update i t ss))"
    "f ` set (AList.update i t ss) \<subseteq> insert (f (i, t)) (f ` set ss)" by simp_all
  obtain j u where x: "x = (j, u)" by (cases x)
  show ?case
  proof (cases "j = i")
    case True
    then show ?thesis using Cons.prems x by auto
  next
    case False
    have "f x \<notin> f ` set (AList.update i t ss)" using IH(2) Cons.prems by auto
    then show ?thesis using IH x False by auto
  qed
qed simp

lemma delete_distinct: "distinct (map f ss) \<Longrightarrow> distinct (map f (AList.delete i ss))"
  by (simp add: AList.delete_eq distinct_map_filter)

lemma update_same_map:
  assumes "map_of ss i = Some s" "\<And>j. f (j, t) = f (j, s)"
  shows "map f (AList.update i t ss) = map f ss"
  using assms(1) by (induction ss) (auto simp: assms(2) split: if_splits)

lemma set_update_subset: "set (AList.update k v t) \<subseteq> insert (k, v) (set t)"
  by (induction t) auto

lemma list_all_update: "list_all P t \<Longrightarrow> P (k, v) \<Longrightarrow> list_all P (AList.update k v t)"
  by (induction t) auto

lemma list_all_delete: "list_all P t \<Longrightarrow> list_all P (AList.delete k t)"
  by (simp add: AList.delete_eq list_all_iff)

lemma subscribe_ok:
  assumes "bus_ok b"
  shows "bus_ok (fst (subscribe i flt capacity b))"
proof -
  let ?q = "fresh_queue b"
  let ?t = "\<lparr>sub_subscriber_id = i, sub_filter = flt, sub_sender = ?q, sub_dropped_count = 0\<rparr>"
  let ?ss = "AList.update i ?t (bus_subscriptions b)"
  have new: "?q \<notin> (\<lambda>(i, s). sub_sender s) ` set (bus_subscriptions b)"
    using assms fresh_queue_new [of b] unfolding bus_ok_def list_all_iff by (auto simp del: set_map)
  have d: "distinct (map (\<lambda>(i, s). sub_sender s) ?ss)"
    "(\<lambda>(i, s). sub_sender s) ` set ?ss \<subseteq> insert ?q ((\<lambda>(i, s). sub_sender s) ` set (bus_subscriptions b))"
    using update_distinct [of "\<lambda>(i, s). sub_sender s" "bus_subscriptions b" i ?t] new assms
    by (simp_all add: bus_ok_def)
  have mem: "set ?ss \<subseteq> insert (i, ?t) (set (bus_subscriptions b))" by (rule set_update_subset)
  have ids: "list_all (\<lambda>(i, s). sub_subscriber_id s = i) ?ss"
    using mem assms by (auto simp: bus_ok_def list_all_iff)
  have queues: "list_all (\<lambda>(j, s). sub_sender s \<in> insert ?q (set (keys (bus_queues b)))) ?ss"
    using mem assms by (auto simp: bus_ok_def list_all_iff simp del: set_map)
  have dk: "distinct (keys ?ss)" using assms by (simp add: bus_ok_def)
  have bq: "bus_subscriptions (fst (subscribe i flt capacity b)) = ?ss"
      "set (keys (bus_queues (fst (subscribe i flt capacity b)))) = insert ?q (set (keys (bus_queues b)))"
    by (simp_all add: subscribe_def Let_def set_queue_def set_keys_update del: set_map)
  show ?thesis using dk ids d(1) queues unfolding bus_ok_def bq by blast
qed

text \<open>What sends do to the table of subscriptions.\<close>

lemma send_one_ok:
  assumes "bus_ok b" "send_one E msg durable i q b = Some c"
  shows "bus_ok c"
proof -
  consider x where "c = set_queue q x b" | "c = record_drop i b"
    | "c = b\<lparr>bus_subscriptions := AList.delete i (bus_subscriptions b)\<rparr>"
    using assms(2) unfolding send_one_def Let_def
    by (auto split: try_send_result.splits if_splits receiver_behaviour.splits)
  then show ?thesis
  proof cases
    case 1
    then show ?thesis using assms(1)
      by (auto simp: bus_ok_def list_all_iff set_queue_def set_keys_update simp del: set_map)
  next
    case 2
    show ?thesis
    proof (cases "map_of (bus_subscriptions b) i")
      case None
      then show ?thesis using 2 assms(1) by (simp add: bus_ok_def record_drop_def Let_def)
    next
      case (Some s)
      let ?t = "s\<lparr>sub_dropped_count := inc (sub_dropped_count s)\<rparr>"
      have "map (\<lambda>(i, s). sub_sender s) (AList.update i ?t (bus_subscriptions b))
          = map (\<lambda>(i, s). sub_sender s) (bus_subscriptions b)"
        using Some by (rule update_same_map) simp
      moreover have s: "(i, s) \<in> set (bus_subscriptions b)" using Some by (rule map_of_SomeD)
      then have "sub_subscriber_id s = i" "sub_sender s \<in> set (keys (bus_queues b))"
        using assms(1) unfolding bus_ok_def list_all_iff by blast+
      ultimately show ?thesis using 2 assms(1) Some
        by (simp add: bus_ok_def record_drop_def Let_def list_all_update del: set_map)
    qed
  next
    case 3
    then show ?thesis using assms(1)
      by (simp add: bus_ok_def delete_distinct list_all_delete del: set_map)
  qed
qed

lemma deliver_ok: "bus_ok b \<Longrightarrow> bus_ok (fst (deliver E msg durable ts b))"
proof (induction ts arbitrary: b)
  case (Cons t ts)
  obtain i q where t: "t = (i, q)" by (cases t)
  show ?case using Cons.IH Cons.prems send_one_ok [OF Cons.prems] t by (auto split: option.splits)
qed simp

section \<open>Properties of broadcast\<close>

abbreviation delivered :: "state_delta \<Rightarrow> string \<Rightarrow> broadcast_delta" where
  "delivered delta commit_id \<equiv> \<lparr>bd_delta = Some delta, bd_commit_id = commit_id, bd_redacted = True\<rparr>"

lemma prepare_simps [simp]:
  "queue_of (push_recent d i b) q = queue_of b q"
  "queue_of (update_channel d b) q = queue_of b q"
  "bus_subscriptions (push_recent d i b) = bus_subscriptions b"
  "bus_subscriptions (update_channel d b) = bus_subscriptions b"
  "targets_of e (push_recent d i b) = targets_of e b"
  "targets_of e (update_channel d b) = targets_of e b"
  "bus_ok (push_recent d i b) = bus_ok b"
  "bus_ok (update_channel d b) = bus_ok b"
  "bus_recent_deltas (update_channel d b) = bus_recent_deltas b"
  "bus_recent_deltas (push_recent d i b) = push_bounded 256 (delta_info_of d i) (bus_recent_deltas b)"
  "bus_channels (push_recent d i b) = bus_channels b"
  by (simp_all add: push_recent_def update_channel_def queue_of_def Let_def targets_of_def bus_ok_def)

lemma metrics_simps [simp]:
  "queue_of (b\<lparr>bus_metrics := m\<rparr>) q = queue_of b q"
  "bus_ok (b\<lparr>bus_metrics := m\<rparr>) = bus_ok b"
  by (simp_all add: queue_of_def bus_ok_def)

text \<open>The targets of a broadcast are distinct, and a subscription is one of them when it matches.\<close>

lemma targets_distinct:
  assumes "bus_ok b"
  shows "distinct (map fst (targets_of d b))" "distinct (map snd (targets_of d b))"
proof -
  have "map fst (targets_of d b)
      = map fst (filter (\<lambda>(_, s). subscription_matches s d) (bus_subscriptions b))"
    using assms by (auto simp: targets_of_def bus_ok_def list_all_iff)
  then show "distinct (map fst (targets_of d b))"
    using assms by (simp add: bus_ok_def distinct_map_filter)
  have "map snd (targets_of d b)
      = map (\<lambda>(i, s). sub_sender s) (filter (\<lambda>(_, s). subscription_matches s d) (bus_subscriptions b))"
    by (auto simp: targets_of_def)
  then show "distinct (map snd (targets_of d b))"
    using assms by (simp add: bus_ok_def distinct_map_filter)
qed

lemma map_of_targets:
  assumes "bus_ok b"
  shows "map_of (targets_of d b) i =
    (case map_of (bus_subscriptions b) i of
       None \<Rightarrow> None
     | Some s \<Rightarrow> if subscription_matches s d then Some (sub_sender s) else None)"
proof -
  have "map_of (map (\<lambda>(_, s). (sub_subscriber_id s, sub_sender s))
        (filter (\<lambda>(_, s). subscription_matches s d) ss)) i =
    (case map_of ss i of None \<Rightarrow> None
     | Some s \<Rightarrow> if subscription_matches s d then Some (sub_sender s) else None)"
    if "distinct (keys ss)" "list_all (\<lambda>(i, s). sub_subscriber_id s = i) ss" for ss
    using that
  proof (induction ss)
    case (Cons x ss)
    obtain j s where x: "x = (j, s)" by (cases x)
    have "map_of ss j = None" using Cons.prems x by (simp add: map_of_eq_None_iff)
    with Cons x show ?case by (auto split: option.splits)
  qed simp
  then show ?thesis using assms by (simp add: bus_ok_def targets_of_def)
qed

lemma target_senders:
  assumes "bus_ok b" "map_of (bus_subscriptions b) i = Some s"
  shows "sub_sender s \<in> snd ` set (targets_of d b) \<longleftrightarrow> subscription_matches s d"
proof
  assume "sub_sender s \<in> snd ` set (targets_of d b)"
  then obtain j t where t: "(j, t) \<in> set (bus_subscriptions b)" "subscription_matches t d"
    "sub_sender t = sub_sender s" by (auto simp: targets_of_def)
  have "inj_on (\<lambda>(i, s). sub_sender s) (set (bus_subscriptions b))"
    using assms(1) by (simp add: bus_ok_def distinct_map)
  then have "(j, t) = (i, s)"
    by (rule inj_onD) (use t(1,3) map_of_SomeD [OF assms(2)] in simp_all)
  with t(2) show "subscription_matches s d" by simp
next
  assume "subscription_matches s d"
  then have "map_of (targets_of d b) i = Some (sub_sender s)"
    using assms by (simp add: map_of_targets)
  from map_of_SomeD [OF this] show "sub_sender s \<in> snd ` set (targets_of d b)" by force
qed

lemma broadcast_delivery:
  assumes "bus_ok b" "broadcast E d cid b = (b', True)" "map_of (bus_subscriptions b) i = Some s"
  shows "queue_of b' (sub_sender s) =
      (if subscription_matches s d
       then sent E (delivered d cid) (sd_durable d) (sub_sender s) (queue_of b (sub_sender s))
       else queue_of b (sub_sender s))"
    and "map_of (bus_subscriptions b') i =
      (if subscription_matches s d then after_send (sd_durable d) (queue_of b (sub_sender s)) s else Some s)"
proof -
  let ?b = "push_recent d cid (update_channel d b)" and ?ts = "targets_of d b"
  let ?c = "deliver E (delivered d cid) (sd_durable d) ?ts ?b"
  have ret: "snd ?c" and b': "queue_of b' q = queue_of (fst ?c) q"
      "bus_subscriptions b' = bus_subscriptions (fst ?c)" for q
    using assms(2) by (auto simp: broadcast_def Let_def split_beta split: if_splits)
  have d: "distinct (map fst ?ts)" "distinct (map snd ?ts)"
    using assms(1) by (simp_all add: targets_distinct)
  show "queue_of b' (sub_sender s) =
      (if subscription_matches s d
       then sent E (delivered d cid) (sd_durable d) (sub_sender s) (queue_of b (sub_sender s))
       else queue_of b (sub_sender s))"
    using b' deliver_queues [OF d(2) ret] target_senders [OF assms(1,3)] by simp
  show "map_of (bus_subscriptions b') i =
      (if subscription_matches s d then after_send (sd_durable d) (queue_of b (sub_sender s)) s else Some s)"
    using b' deliver_subscriptions [OF d ret] map_of_targets [OF assms(1)] assms(3) by simp
qed

lemma broadcast_returns:
  assumes "bus_ok b"
  shows "snd (broadcast E d cid b) \<longleftrightarrow>
    \<not> (sd_durable d \<and> (\<exists>(i, s)\<in>set (bus_subscriptions b).
        subscription_matches s d \<and> stuck E (sub_sender s) (queue_of b (sub_sender s))))"
proof -
  have "snd (broadcast E d cid b) \<longleftrightarrow>
      \<not> (sd_durable d \<and> (\<exists>q\<in>snd ` set (targets_of d b). stuck E q (queue_of b q)))"
    using deliver_returns [OF targets_distinct(2) [OF assms]]
    by (simp add: broadcast_def Let_def split_beta)
  then show ?thesis by (force simp: targets_of_def)
qed

text \<open>
  A durable delta is never dropped: when the broadcast returns, every matching
  subscription whose receiver was open has the delta at the end of its queue, unless the receiver
  went away while the daemon waited for room, and no drop is counted against it.
\<close>

theorem durable_never_dropped:
  assumes "bus_ok b" "broadcast E d cid b = (b', True)" "map_of (bus_subscriptions b) i = Some s"
    and "subscription_matches s d" "sd_durable d" "\<not> qu_closed (queue_of b (sub_sender s))"
  shows "map_of (bus_subscriptions b') i = Some s
     \<and> ((\<exists>items. qu_items (queue_of b' (sub_sender s)) = items @ [delivered d cid])
        \<or> receiver E (sub_sender s) = Closes \<and> qu_closed (queue_of b' (sub_sender s)))"
proof -
  have "\<not> stuck E (sub_sender s) (queue_of b (sub_sender s))"
    using broadcast_returns [OF assms(1), of E d cid] assms(2,4,5) map_of_SomeD [OF assms(3)] by auto
  then show ?thesis
    using broadcast_delivery [OF assms(1-3)] assms(4-6)
    by (auto simp: sent_def after_send_def try_send_def stuck_def split: receiver_behaviour.splits if_splits)
qed

text \<open>
  Claim C23. An ephemeral delta meets backpressure by dropping itself: a full queue keeps exactly
  what it holds, the oldest message included, the newest delta is lost and the subscription counts
  one drop. A queue with room takes the delta at its end.
\<close>

theorem ephemeral_drops_newest:
  assumes "bus_ok b" "broadcast E d cid b = (b', True)" "map_of (bus_subscriptions b) i = Some s"
    and "subscription_matches s d" "\<not> sd_durable d" "\<not> qu_closed (queue_of b (sub_sender s))"
  shows "if length (qu_items (queue_of b (sub_sender s))) < qu_capacity (queue_of b (sub_sender s))
     then qu_items (queue_of b' (sub_sender s)) = qu_items (queue_of b (sub_sender s)) @ [delivered d cid]
        \<and> dropped_for i b' = dropped_for i b
     else queue_of b' (sub_sender s) = queue_of b (sub_sender s)
        \<and> dropped_for i b' = dropped_for i b + 1"
  using broadcast_delivery [OF assms(1-3)] assms(3-6)
  by (simp add: sent_def after_send_def try_send_def dropped_for_def inc_def)

text \<open>
  Claim C24. A publisher can be held up for ever: a broadcast fails to return exactly when the
  delta is durable and some matching subscription has a full, open queue whose receiver never
  reads. An ephemeral broadcast always returns.
\<close>

theorem broadcast_returns_iff:
  assumes "bus_ok b"
  shows "snd (broadcast E d cid b) \<longleftrightarrow>
    \<not> (sd_durable d \<and> (\<exists>(i, s)\<in>set (bus_subscriptions b).
        subscription_matches s d \<and> stuck E (sub_sender s) (queue_of b (sub_sender s))))"
  using assms by (rule broadcast_returns)

section \<open>Sequences of broadcasts\<close>

text \<open>Broadcasts one after another, each with the environment of its request.\<close>

fun broadcast_all :: "(env \<times> state_delta \<times> string) list \<Rightarrow> bus \<Rightarrow> bus" where
  "broadcast_all [] b = b"
| "broadcast_all ((E, d, cid) # ds) b = broadcast_all ds (fst (broadcast E d cid b))"

lemma broadcast_all_append [simp]:
  "broadcast_all (xs @ ys) b = broadcast_all ys (broadcast_all xs b)"
  by (induction xs b rule: broadcast_all.induct) simp_all

lemma broadcast_keeps:
  "bus_recent_deltas (fst (broadcast E d cid b)) = push_bounded 256 (delta_info_of d cid) (bus_recent_deltas b)"
  "bus_channels (fst (broadcast E d cid b)) = bus_channels (update_channel d b)"
  by (simp_all add: broadcast_def Let_def split_beta)

text \<open>
  The list of recent deltas is bounded and exact: after any sequence of broadcasts on a
  new bus it holds the last 256 of them, oldest first.
\<close>

theorem recent_is_latest:
  "bus_recent_deltas (broadcast_all ds (new_bus m)) = latest 256 (map (\<lambda>(E, d, cid). delta_info_of d cid) ds)"
proof (induction ds rule: rev_induct)
  case (snoc x ds)
  obtain E d cid where x: "x = (E, d, cid)" by (cases x)
  show ?case using snoc x
    latest_snoc [of 256 "map (\<lambda>(E, d, cid). delta_info_of d cid) ds" "delta_info_of d cid"]
    by (simp add: broadcast_keeps)
qed (simp add: new_bus_def)

text \<open>The deltas of one channel, and how many of them are durable.\<close>

definition on_channel :: "string \<Rightarrow> (env \<times> state_delta \<times> string) list \<Rightarrow> state_delta list" where
  "on_channel c ds = filter (\<lambda>d. sd_channel d = c) (map (\<lambda>(E, d, cid). d) ds)"

definition count_if :: "('a \<Rightarrow> bool) \<Rightarrow> 'a list \<Rightarrow> u64" where
  "count_if P xs = of_nat (length (filter P xs))"

lemma snapshot_cong: "bus_channels a = bus_channels b \<Longrightarrow> snapshot c a = snapshot c b"
  by (simp add: snapshot_def)

lemma snapshot_update:
  "snapshot c (update_channel d b) =
     (if sd_channel d = c
      then \<lparr>cs_channel = c, cs_latest_payload = sd_payload d,
            cs_durable_count = cs_durable_count (snapshot c b) + of_bool (sd_durable d),
            cs_ephemeral_count = cs_ephemeral_count (snapshot c b) + of_bool (\<not> sd_durable d)\<rparr>
      else snapshot c b)"
  by (cases "map_of (bus_channels b) c")
    (auto simp: snapshot_def update_channel_def Let_def table_simps inc_def)

text \<open>
  The snapshot of a channel is the history of the channel: its counts are the numbers of
  durable and of ephemeral deltas broadcast on it (modulo 2 to the 64), and its payload is that of
  the last one.
\<close>

theorem snapshot_counts:
  "snapshot c (broadcast_all ds (new_bus m)) =
     \<lparr>cs_channel = c,
      cs_latest_payload = (if on_channel c ds = [] then None else sd_payload (last (on_channel c ds))),
      cs_durable_count = count_if sd_durable (on_channel c ds),
      cs_ephemeral_count = count_if (\<lambda>d. \<not> sd_durable d) (on_channel c ds)\<rparr>"
proof (induction ds rule: rev_induct)
  case Nil
  then show ?case by (simp add: snapshot_def new_bus_def on_channel_def count_if_def)
next
  case (snoc x ds)
  obtain E d cid where x: "x = (E, d, cid)" by (cases x)
  let ?b = "broadcast_all ds (new_bus m)"
  have "snapshot c (broadcast_all (ds @ [x]) (new_bus m)) = snapshot c (update_channel d ?b)"
    unfolding x by (simp add: snapshot_cong [OF broadcast_keeps(2)])
  then show ?case unfolding snapshot_update snoc x
    by (auto simp: on_channel_def count_if_def)
qed

section \<open>A bus with one slow subscriber\<close>

definition slow_filter :: subscription_filter where
  "slow_filter = \<lparr>sf_channel_patterns = [''*''], sf_durable_only = False, sf_tags = []\<rparr>"

definition slow_subscription :: "u64 \<Rightarrow> subscription" where
  "slow_subscription n = \<lparr>sub_subscriber_id = ''s'', sub_filter = slow_filter, sub_sender = Suc 0, sub_dropped_count = n\<rparr>"

definition slow_bus :: bus where
  "slow_bus = fst (subscribe ''s'' slow_filter 0 (new_bus new_metrics))"

definition example_delta :: "bool \<Rightarrow> state_delta" where
  "example_delta durable = \<lparr>sd_delta_id = ''d'', sd_channel = ''c'', sd_agent_id = ''a'', sd_run_id = ''r'',
     sd_thread_id = ''t'', sd_logical_clock = 0, sd_wall_time = None, sd_payload = None,
     sd_durable = durable, sd_tags = [], sd_summary = [], sd_metadata = None\<rparr>"

lemma slow_bus_simps [simp]:
  "bus_subscriptions slow_bus = [(''s'', slow_subscription 0)]"
  "queue_of slow_bus (Suc 0) = \<lparr>qu_capacity = 1, qu_items = [], qu_closed = False\<rparr>"
  by (simp_all add: slow_bus_def subscribe_def Let_def fresh_queue_def new_bus_def set_queue_def
      queue_of_def clamp_def slow_subscription_def)

lemma slow_bus_ok [simp]: "bus_ok slow_bus"
  by (simp add: slow_bus_def subscribe_ok)

lemma slow_matches [simp]: "subscription_matches (slow_subscription n) (example_delta durable)"
  by (simp add: subscription_matches_def filter_matches_def slow_subscription_def slow_filter_def
      example_delta_def channel_pattern_matches_def)

lemma example_delta_durable [simp]: "sd_durable (example_delta durable) = durable"
  by (simp add: example_delta_def)

lemma slow_sender [simp]: "sub_sender (slow_subscription n) = Suc 0"
  by (simp add: slow_subscription_def)

text \<open>The first delta fills the queue; the second meets it full.\<close>

definition full_bus :: "env \<Rightarrow> bus" where
  "full_bus E = fst (broadcast E (example_delta True) ''x'' slow_bus)"

lemma broadcast_fst: "snd (broadcast E d cid b) \<Longrightarrow> broadcast E d cid b = (fst (broadcast E d cid b), True)"
  by (metis prod.collapse)

lemma full_broadcast: "broadcast E (example_delta True) ''x'' slow_bus = (full_bus E, True)"
  using broadcast_returns [OF slow_bus_ok, of E "example_delta True" "''x''"]
  unfolding full_bus_def by (intro broadcast_fst) (simp add: stuck_def try_send_def)

lemma full_bus_simps [simp]:
  "map_of (bus_subscriptions (full_bus E)) ''s'' = Some (slow_subscription 0)"
  "queue_of (full_bus E) (Suc 0) = \<lparr>qu_capacity = 1, qu_items = [delivered (example_delta True) ''x''], qu_closed = False\<rparr>"
  using broadcast_delivery [OF slow_bus_ok full_broadcast, of "''s''" "slow_subscription 0"]
  by (simp_all add: sent_def after_send_def try_send_def)

lemma full_bus_ok [simp]: "bus_ok (full_bus E)"
  using deliver_ok [of "push_recent (example_delta True) ''x'' (update_channel (example_delta True) slow_bus)"]
  by (simp add: full_bus_def broadcast_def Let_def split_beta)

lemma full_ephemeral: "\<exists>b'. broadcast E (example_delta False) ''y'' (full_bus E') = (b', True)"
  using broadcast_returns [OF full_bus_ok, of E "example_delta False" "''y''"]
  by (metis broadcast_fst example_delta_durable)

theorem durable_never_dropped_witness:
  "\<exists>items. qu_items (queue_of (full_bus example_env) (Suc 0)) = items @ [delivered (example_delta True) ''x'']"
  using durable_never_dropped [OF slow_bus_ok full_broadcast [of example_env], of "''s''" "slow_subscription 0"]
  by (simp add: example_env_def)

theorem ephemeral_drops_newest_witness:
  "\<exists>b'. broadcast example_env (example_delta False) ''y'' (full_bus example_env) = (b', True)
     \<and> dropped_for ''s'' b' = 1
     \<and> qu_items (queue_of b' (Suc 0)) = [delivered (example_delta True) ''x'']"
proof -
  obtain b' where b': "broadcast example_env (example_delta False) ''y'' (full_bus example_env) = (b', True)"
    using full_ephemeral by blast
  have "dropped_for ''s'' (full_bus example_env) = 0"
    by (simp add: dropped_for_def slow_subscription_def)
  with ephemeral_drops_newest [OF full_bus_ok b' full_bus_simps(1)] b' show ?thesis by simp
qed

theorem broadcast_returns_iff_witness:
  "\<not> snd (broadcast example_env (example_delta True) ''y'' (full_bus example_env))"
proof -
  have "(''s'', slow_subscription 0) \<in> set (bus_subscriptions (full_bus example_env))"
    by (rule map_of_SomeD) simp
  moreover have "stuck example_env (Suc 0) (queue_of (full_bus example_env) (Suc 0))"
    by (simp add: stuck_def try_send_def example_env_def)
  ultimately have "\<exists>(i, s)\<in>set (bus_subscriptions (full_bus example_env)).
      subscription_matches s (example_delta True)
      \<and> stuck example_env (sub_sender s) (queue_of (full_bus example_env) (sub_sender s))"
    by (intro bexI [of _ "(''s'', slow_subscription 0)"]) simp_all
  then show ?thesis
    using broadcast_returns_iff [OF full_bus_ok, of example_env "example_delta True" "''y''" example_env]
    by (simp only: example_delta_durable simp_thms)
qed

end
