(* ===== verification/CommitBuild.thy ===== *)
theory CommitBuild
  imports Env
begin

text \<open>
  \<open>daemon/src/ledger/commit.rs\<close>: a commit is built from a normalised delta, and its content
  hash and its id are both derived from its protobuf encoding.
\<close>

section \<open>from_delta\<close>

record commit_extras =
  ex_objective :: string
  ex_tool_calls :: "tool_call list"
  ex_tool_results :: "tool_result list"
  ex_artifact_refs :: "artifact_ref list"
  ex_external_side_effects :: "external_side_effect list"
  ex_sdk_name :: string
  ex_sdk_version :: string

definition unsealed :: "state_delta \<Rightarrow> string list \<Rightarrow> payload \<Rightarrow> redaction_report \<Rightarrow> commit_extras \<Rightarrow> commit" where
  "unsealed delta parent_commit_ids p report extras =
     \<lparr>cm_commit_id = [],
      cm_delta_id = sd_delta_id delta,
      cm_run_id = sd_run_id delta,
      cm_thread_id = sd_thread_id delta,
      cm_agent_id = sd_agent_id delta,
      cm_channel = sd_channel delta,
      cm_parent_commit_ids = parent_commit_ids,
      cm_logical_clock = sd_logical_clock delta,
      cm_wall_time = sd_wall_time delta,
      cm_objective = ex_objective extras,
      cm_state_delta = Some p,
      cm_messages_delta = None,
      cm_tool_calls = ex_tool_calls extras,
      cm_tool_results = ex_tool_results extras,
      cm_artifact_refs = ex_artifact_refs extras,
      cm_external_side_effects = ex_external_side_effects extras,
      cm_summary = sd_summary delta,
      cm_tags = sd_tags delta,
      cm_metadata = sd_metadata delta,
      cm_schema_version = 1,
      cm_sdk_name = ex_sdk_name extras,
      cm_sdk_version = ex_sdk_version extras,
      cm_content_hash = [],
      cm_previous_hashes = [],
      cm_redaction_report = Some report\<rparr>"

definition seal :: "env \<Rightarrow> commit \<Rightarrow> commit" where
  "seal E c =
     (let content_bytes = encode_commit E c;
          c = c\<lparr>cm_content_hash := blake3_hex E content_bytes\<rparr>;
          id_bytes = encode_commit E c;
          full_hash = blake3_hex E id_bytes
      in c\<lparr>cm_commit_id := ''c_'' @ take 32 full_hash\<rparr>)"

definition from_delta ::
    "env \<Rightarrow> state_delta \<Rightarrow> string list \<Rightarrow> payload \<Rightarrow> redaction_report \<Rightarrow> commit_extras \<Rightarrow> commit" where
  "from_delta E delta parent_commit_ids p report extras =
     seal E (unsealed delta parent_commit_ids p report extras)"

text \<open>The projections of a built commit that the callers use.\<close>

lemma from_delta_simps [simp]:
  "cm_delta_id (from_delta E d ps p r x) = sd_delta_id d"
  "cm_run_id (from_delta E d ps p r x) = sd_run_id d"
  "cm_thread_id (from_delta E d ps p r x) = sd_thread_id d"
  "cm_agent_id (from_delta E d ps p r x) = sd_agent_id d"
  "cm_channel (from_delta E d ps p r x) = sd_channel d"
  "cm_parent_commit_ids (from_delta E d ps p r x) = ps"
  "cm_logical_clock (from_delta E d ps p r x) = sd_logical_clock d"
  "cm_wall_time (from_delta E d ps p r x) = sd_wall_time d"
  "cm_state_delta (from_delta E d ps p r x) = Some p"
  "cm_tool_calls (from_delta E d ps p r x) = ex_tool_calls x"
  "cm_external_side_effects (from_delta E d ps p r x) = ex_external_side_effects x"
  "cm_tags (from_delta E d ps p r x) = sd_tags d"
  "cm_summary (from_delta E d ps p r x) = sd_summary d"
  "cm_redaction_report (from_delta E d ps p r x) = Some r"
  by (simp_all add: from_delta_def seal_def unsealed_def Let_def)

section \<open>Content addressing\<close>

text \<open>
  An auditor recomputes the two hashes of a stored commit from its other fields.
\<close>

definition blank_id :: "commit \<Rightarrow> commit" where
  "blank_id c = c\<lparr>cm_commit_id := []\<rparr>"

definition blank_hashes :: "commit \<Rightarrow> commit" where
  "blank_hashes c = c\<lparr>cm_commit_id := [], cm_content_hash := []\<rparr>"

definition sealed :: "env \<Rightarrow> commit \<Rightarrow> bool" where
  "sealed E c \<longleftrightarrow>
     cm_content_hash c = blake3_hex E (encode_commit E (blank_hashes c))
     \<and> cm_commit_id c = ''c_'' @ take 32 (blake3_hex E (encode_commit E (blank_id c)))"

lemma sealed_seal: "blank_hashes c = c \<Longrightarrow> sealed E (seal E c)"
  by (cases c) (simp add: sealed_def seal_def blank_id_def blank_hashes_def Let_def)

lemma blank_unsealed [simp]: "blank_hashes (unsealed d ps p r x) = unsealed d ps p r x"
  by (simp add: blank_hashes_def unsealed_def)

text \<open>
  Every commit the daemon builds is sealed: its content hash is the hash of its
  encoding without hash and id, and its id is \<open>c_\<close> and the first 32 digits of the hash of its
  encoding without id. Both can be recomputed from the commit alone.
\<close>

theorem from_delta_sealed: "sealed E (from_delta E d ps p r x)"
  unfolding from_delta_def by (rule sealed_seal) simp

text \<open>
  Two encodings do not collide on the 32 digits that make an id. This is what content
  addressing assumes of the hash on the values at hand; no hash satisfies it on all pairs.
\<close>

definition id_collision_free :: "env \<Rightarrow> commit \<Rightarrow> commit \<Rightarrow> bool" where
  "id_collision_free E a b \<longleftrightarrow>
     (take 32 (blake3_hex E (encode_commit E (blank_id a)))
        = take 32 (blake3_hex E (encode_commit E (blank_id b)))
      \<longrightarrow> encode_commit E (blank_id a) = encode_commit E (blank_id b))"

lemma blank_id_eq: "blank_id a = blank_id b \<Longrightarrow> cm_commit_id a = cm_commit_id b \<Longrightarrow> a = b"
  by (cases a; cases b) (simp add: blank_id_def)

text \<open>
  Tamper evidence: two sealed commits with the same id are the same commit, parents,
  payload and all, if the codec tells their encodings apart and the hash does not collide on
  them.
\<close>

theorem sealed_id_inject:
  assumes "sealed E a" "sealed E b" "cm_commit_id a = cm_commit_id b"
    and "id_collision_free E a b"
    and "decode_commit E (encode_commit E (blank_id a)) = Inr (blank_id a)"
    and "decode_commit E (encode_commit E (blank_id b)) = Inr (blank_id b)"
  shows "a = b"
proof -
  have "take 32 (blake3_hex E (encode_commit E (blank_id a)))
      = take 32 (blake3_hex E (encode_commit E (blank_id b)))"
    using assms(1-3) by (simp add: sealed_def)
  with assms(4) have "encode_commit E (blank_id a) = encode_commit E (blank_id b)"
    by (simp add: id_collision_free_def)
  then have "Inr (blank_id a) = (Inr (blank_id b) :: commit result)"
    using assms(5,6) by (simp only:)
  then have "blank_id a = blank_id b" by simp
  then show ?thesis using assms(3) by (rule blank_id_eq)
qed

text \<open>A codec that carries the summary and the content hash, for the example.\<close>

definition summary_env :: env where
  "summary_env = example_env\<lparr>
     encode_commit := (\<lambda>c. cm_summary c @ (if cm_content_hash c = [] then [] else ''!'')),
     blake3 := (\<lambda>bs. bs),
     decode_commit := (\<lambda>b. if b = ''s!'' then
        Inr (default_commit\<lparr>cm_summary := ''s'', cm_content_hash := ''s''\<rparr>)
      else Inl (Anyhow ''decode''))\<rparr>"

definition summary_commit :: commit where
  "summary_commit = seal summary_env (default_commit\<lparr>cm_summary := ''s''\<rparr>)"

definition read_commit :: commit where
  "read_commit = default_commit\<lparr>cm_summary := ''s'', cm_content_hash := ''s'', cm_commit_id := ''c_s!''\<rparr>"

lemma summary_env_simps [simp]:
  "encode_commit summary_env c = cm_summary c @ (if cm_content_hash c = [] then [] else ''!'')"
  "blake3_hex summary_env bs = bs"
  "decode_commit summary_env ''s!'' =
     Inr (default_commit\<lparr>cm_summary := ''s'', cm_content_hash := ''s''\<rparr>)"
  by (simp_all add: summary_env_def example_env_def blake3_hex_def)

lemma read_commit_simps [simp]:
  "sealed summary_env read_commit"
  "blank_id read_commit = default_commit\<lparr>cm_summary := ''s'', cm_content_hash := ''s''\<rparr>"
  "cm_commit_id read_commit = ''c_s!''"
  by (simp_all add: sealed_def read_commit_def blank_id_def blank_hashes_def default_commit_def)

lemma summary_commit_simps [simp]:
  "sealed summary_env summary_commit"
  "blank_id summary_commit = default_commit\<lparr>cm_summary := ''s'', cm_content_hash := ''s''\<rparr>"
  "cm_commit_id summary_commit = ''c_s!''"
  by (simp_all add: sealed_def summary_commit_def seal_def Let_def blank_id_def blank_hashes_def
      default_commit_def)

theorem sealed_id_inject_witness: "summary_commit = read_commit"
  by (rule sealed_id_inject [of summary_env]) (simp_all add: id_collision_free_def)

end
