(* ===== verification/Utf8.thy ===== *)
theory Utf8
  imports Prelude
begin

text \<open>
  The standard library's UTF-8 decoding of byte vectors, used on TEXT payloads:
  \<open>std::str::from_utf8\<close> (does the vector hold well-formed UTF-8?) and
  \<open>String::from_utf8_lossy\<close> (each maximal ill-formed prefix becomes U+FFFD, that is the
  bytes EF BF BD).
\<close>

definition byte :: "char \<Rightarrow> nat" where
  "byte c = of_char c"

definition continuation :: "char \<Rightarrow> bool" where
  "continuation c = (0x80 \<le> byte c \<and> byte c \<le> 0xBF)"

text \<open>
  For a first byte: the length of the sequence and the range of its second byte
  (the table of well-formed sequences of the Unicode standard).
\<close>

definition lead :: "char \<Rightarrow> (nat \<times> nat \<times> nat) option" where
  "lead c = (let b = byte c in
     if b \<le> 0x7F then Some (1, 0, 0)
     else if 0xC2 \<le> b \<and> b \<le> 0xDF then Some (2, 0x80, 0xBF)
     else if b = 0xE0 then Some (3, 0xA0, 0xBF)
     else if 0xE1 \<le> b \<and> b \<le> 0xEC then Some (3, 0x80, 0xBF)
     else if b = 0xED then Some (3, 0x80, 0x9F)
     else if 0xEE \<le> b \<and> b \<le> 0xEF then Some (3, 0x80, 0xBF)
     else if b = 0xF0 then Some (4, 0x90, 0xBF)
     else if 0xF1 \<le> b \<and> b \<le> 0xF3 then Some (4, 0x80, 0xBF)
     else if b = 0xF4 then Some (4, 0x80, 0x8F)
     else None)"

text \<open>How many continuation bytes, at most \<open>n\<close>, a list begins with.\<close>

fun continuations :: "nat \<Rightarrow> bytes \<Rightarrow> nat" where
  "continuations (Suc n) (c # cs) = (if continuation c then Suc (continuations n cs) else 0)"
| "continuations _ _ = 0"

text \<open>
  The first chunk of a non-empty vector: is it a well-formed sequence, and how long is it,
  or how long is the ill-formed prefix to skip?
\<close>

fun chunk :: "char \<Rightarrow> bytes \<Rightarrow> bool \<times> nat" where
  "chunk b cs =
     (case lead b of
        None \<Rightarrow> (False, 1)
      | Some (n, lo, hi) \<Rightarrow>
          if n = 1 then (True, 1)
          else (case cs of
             [] \<Rightarrow> (False, 1)
           | c # ds \<Rightarrow>
               if lo \<le> byte c \<and> byte c \<le> hi
               then (let k = continuations (n - 2) ds in (k = n - 2, 2 + k))
               else (False, 1)))"

lemma chunk_pos: "chunk b cs = (ok, n) \<Longrightarrow> 0 < n"
  by (auto simp: Let_def split: option.splits if_splits list.splits)

function from_utf8_lossy :: "bytes \<Rightarrow> string" where
  "from_utf8_lossy [] = []"
| "from_utf8_lossy (b # cs) =
     (let (ok, n) = chunk b cs in
      (if ok then take n (b # cs) else [CHR 0xEF, CHR 0xBF, CHR 0xBD])
        @ from_utf8_lossy (drop n (b # cs)))"
  by pat_completeness auto
termination
  by (relation "measure length") (auto dest!: chunk_pos [OF sym] simp del: chunk.simps)

function from_utf8 :: "bytes \<Rightarrow> bool" where
  "from_utf8 [] = True"
| "from_utf8 (b # cs) =
     (let (ok, n) = chunk b cs in ok \<and> from_utf8 (drop n (b # cs)))"
  by pat_completeness auto
termination
  by (relation "measure length") (auto dest!: chunk_pos [OF sym] simp del: chunk.simps)

declare chunk.simps [simp del]

lemma from_utf8_lossy_valid: "from_utf8 bs \<Longrightarrow> from_utf8_lossy bs = bs"
  by (induction bs rule: from_utf8.induct)
     (auto simp: Let_def split: prod.splits simp del: take_Cons' drop_Cons')

lemma lead_ascii: "byte b \<le> 0x7F \<Longrightarrow> lead b = Some (1, 0, 0)"
  by (simp add: lead_def)

text \<open>ASCII text is well-formed.\<close>

lemma from_utf8_ascii: "\<forall>b\<in>set bs. byte b \<le> 0x7F \<Longrightarrow> from_utf8 bs"
  by (induction bs) (auto simp: chunk.simps lead_ascii)

end
