(* ===== verification/Redaction.thy ===== *)
theory Redaction
  imports Env Utf8
begin

text \<open>
  \<open>daemon/src/security/redaction.rs\<close>. The findings that the code pushes are returned next to the
  redacted value. Regular expressions are a parameter (\<open>replace_all\<close>), applied to the patterns of
  the source; the order of the patterns and the comparison of the text before and after are
  modelled as the code has them.
\<close>

section \<open>Names and patterns\<close>

definition marker :: string where "marker = ''[REDACTED]''"

definition secret_key_name :: "string \<Rightarrow> bool" where
  "secret_key_name key =
     (\<exists>needle\<in>set [''password'', ''token'', ''api_key'', ''apikey'', ''secret'', ''private_key'',
        ''access_token'', ''refresh_token'']. contains needle (to_ascii_lowercase key))"

text \<open>The patterns of the source with each backslash written as an exclamation mark.\<close>

definition raw :: "string \<Rightarrow> string" where
  "raw = map (\<lambda>c. if c = CHR ''!'' then CHR 0x5C else c)"

definition patterns :: "(string \<times> string) list" where
  "patterns =
     [(''bearer_token'', raw ''(?i)Bearer!s+[A-Za-z0-9._!-]+''),
      (''pem_block'', raw ''-----BEGIN [A-Z ]+-----[!s!S]+?-----END [A-Z ]+-----''),
      (''aws_access_key'', raw ''!b(AKIA|ASIA)[0-9A-Z]{16}!b''),
      (''github_token'', raw ''!bgh[pousr]_[A-Za-z0-9_]{20,}!b''),
      (''openai_token'', raw ''!bsk-[A-Za-z0-9_!-]{20,}!b''),
      (''anthropic_token'', raw ''!bsk-ant-[A-Za-z0-9_!-]{20,}!b''),
      (''jwt'', raw ''!beyJ[A-Za-z0-9_!-]+!.[A-Za-z0-9_!-]+!.[A-Za-z0-9_!-]+!b''),
      (''database_url_password'', raw ''(?i)!b[a-z][a-z0-9+.-]*://[^:!s/]+:[^@!s]+@'')]"

definition finding :: "string \<Rightarrow> string \<Rightarrow> redaction_finding" where
  "finding path redaction_type =
     \<lparr>rf_field_path = path, rf_redaction_type = redaction_type, rf_replacement_marker = marker\<rparr>"

definition index_path :: "string \<Rightarrow> nat \<Rightarrow> string" where
  "index_path path idx = path @ ''['' @ show_nat idx @ '']''"

definition child_path :: "string \<Rightarrow> string \<Rightarrow> string" where
  "child_path path key = path @ ''.'' @ key"

section \<open>Text\<close>

fun apply_patterns ::
    "env \<Rightarrow> (string \<times> string) list \<Rightarrow> string \<Rightarrow> string \<Rightarrow> string \<times> redaction_finding list" where
  "apply_patterns E [] output path = (output, [])"
| "apply_patterns E ((name, regex) # rest) output path =
     (let replaced = replace_all E regex output marker in
      if replaced \<noteq> output
      then (let (final, findings) = apply_patterns E rest replaced path
            in (final, finding path name # findings))
      else apply_patterns E rest output path)"

definition redact_text :: "env \<Rightarrow> string \<Rightarrow> string \<Rightarrow> string \<times> redaction_finding list" where
  "redact_text E txt path = apply_patterns E patterns txt path"

section \<open>JSON\<close>

fun redact_json :: "env \<Rightarrow> json \<Rightarrow> string \<Rightarrow> json \<times> redaction_finding list"
  and redact_json_object :: "env \<Rightarrow> json_map \<Rightarrow> string \<Rightarrow> json_map \<times> redaction_finding list"
  and redact_json_items :: "env \<Rightarrow> json list \<Rightarrow> nat \<Rightarrow> string \<Rightarrow> json list \<times> redaction_finding list" where
  "redact_json E (JObj m) path =
     (let (m', findings) = redact_json_object E m path in (JObj m', findings))"
| "redact_json E (JArr items) path =
     (let (items', findings) = redact_json_items E items 0 path in (JArr items', findings))"
| "redact_json E (JStr txt) path =
     (let (replacement, findings) = redact_text E txt path in (JStr replacement, findings))"
| "redact_json E JNull path = (JNull, [])"
| "redact_json E (JBool b) path = (JBool b, [])"
| "redact_json E (JNum n) path = (JNum n, [])"
| "redact_json_object E [] path = ([], [])"
| "redact_json_object E ((key, v) # m) path =
     (let ((v', fs), (m', gs)) =
            (if secret_key_name key
             then (JStr marker, [finding (child_path path key) ''secret_key''])
             else redact_json E v (child_path path key),
             redact_json_object E m path)
      in ((key, v') # m', fs @ gs))"
| "redact_json_items E [] idx path = ([], [])"
| "redact_json_items E (item # items) idx path =
     (let ((item', fs), (items', gs)) =
            (redact_json E item (index_path path idx), redact_json_items E items (Suc idx) path)
      in (item' # items', fs @ gs))"

section \<open>google.protobuf.Struct\<close>

fun redact_prost_value :: "env \<Rightarrow> pvalue \<Rightarrow> string \<Rightarrow> pvalue \<times> redaction_finding list"
  and redact_kind :: "env \<Rightarrow> pkind \<Rightarrow> string \<Rightarrow> pkind \<times> redaction_finding list"
  and redact_struct :: "env \<Rightarrow> pstruct \<Rightarrow> string \<Rightarrow> pstruct \<times> redaction_finding list"
  and redact_values :: "env \<Rightarrow> pvalue list \<Rightarrow> nat \<Rightarrow> string \<Rightarrow> pvalue list \<times> redaction_finding list" where
  "redact_prost_value E (PValue None) path = (PValue None, [])"
| "redact_prost_value E (PValue (Some k)) path =
     (let (k', fs) = redact_kind E k path in (PValue (Some k'), fs))"
| "redact_kind E (PString txt) path =
     (let (replacement, fs) = redact_text E txt path in (PString replacement, fs))"
| "redact_kind E (PStruct inner) path =
     (let (inner', fs) = redact_struct E inner path in (PStruct inner', fs))"
| "redact_kind E (PList vals) path =
     (let (vals', fs) = redact_values E vals 0 path in (PList vals', fs))"
| "redact_kind E (PNull n) path = (PNull n, [])"
| "redact_kind E (PNumber n) path = (PNumber n, [])"
| "redact_kind E (PBool b) path = (PBool b, [])"
| "redact_struct E [] path = ([], [])"
| "redact_struct E ((key, v) # flds) path =
     (let ((v', fs), (flds', gs)) =
            (if secret_key_name key
             then (PValue (Some (PString marker)), [finding (child_path path key) ''secret_key''])
             else redact_prost_value E v (child_path path key),
             redact_struct E flds path)
      in ((key, v') # flds', fs @ gs))"
| "redact_values E [] idx path = ([], [])"
| "redact_values E (item # items) idx path =
     (let ((item', fs), (items', gs)) =
            (redact_prost_value E item (index_path path idx), redact_values E items (Suc idx) path)
      in (item' # items', fs @ gs))"

section \<open>redact_payload\<close>

definition with_data :: "env \<Rightarrow> bytes \<Rightarrow> payload \<Rightarrow> payload" where
  "with_data E bs p = p\<lparr>pl_data := bs, pl_size_bytes := of_nat (length bs), pl_content_hash := blake3_hex E bs\<rparr>"

text \<open>The two parts of \<open>redact_payload\<close>: the structured data, then the bytes.\<close>

definition redact_struct_data :: "env \<Rightarrow> payload \<Rightarrow> payload \<times> redaction_finding list" where
  "redact_struct_data E payload =
     (case pl_struct_data payload of
        None \<Rightarrow> (payload, [])
      | Some struct_data \<Rightarrow>
          (let (s, fs) = redact_struct E struct_data ''$''
           in (payload\<lparr>pl_struct_data := Some s\<rparr>, fs)))"

definition redact_data :: "env \<Rightarrow> payload \<Rightarrow> payload \<times> redaction_finding list" where
  "redact_data E payload =
     (case encoding_of (pl_encoding payload) of
        EncJson \<Rightarrow>
          (case json_parse E (pl_data payload) of
             None \<Rightarrow> (payload, [])
           | Some json \<Rightarrow>
               (let (json, fs) = redact_json E json ''$'' in
                case json_print E json of
                  Inl _ \<Rightarrow> (payload, fs)
                | Inr bs \<Rightarrow> (with_data E bs payload, fs)))
      | EncText \<Rightarrow>
          (if from_utf8 (pl_data payload)
           then (let (redacted, fs) = redact_text E (pl_data payload) ''$''
                 in (with_data E redacted payload, fs))
           else (payload, []))
      | _ \<Rightarrow> (payload, []))"

definition redact_payload :: "env \<Rightarrow> payload \<Rightarrow> payload \<times> redaction_report" where
  "redact_payload E payload =
     (let (payload, struct_findings) = redact_struct_data E payload;
          (payload, data_findings) = redact_data E payload;
          findings = struct_findings @ data_findings
      in (payload, \<lparr>rr_findings = findings, rr_redacted = (findings \<noteq> [])\<rparr>))"

section \<open>No secret keeps its value\<close>

fun hides :: "json \<Rightarrow> bool" where
  "hides (JArr vs) = list_all hides vs"
| "hides (JObj m) =
     list_all (\<lambda>kv. (secret_key_name (fst kv) \<longrightarrow> snd kv = JStr marker) \<and> hides (snd kv)) m"
| "hides _ = True"

fun hides_value :: "pvalue \<Rightarrow> bool" and hides_kind :: "pkind \<Rightarrow> bool" where
  "hides_value (PValue None) = True"
| "hides_value (PValue (Some k)) = hides_kind k"
| "hides_kind (PStruct flds) =
     list_all (\<lambda>kv. (secret_key_name (fst kv) \<longrightarrow> snd kv = PValue (Some (PString marker)))
                     \<and> hides_value (snd kv)) flds"
| "hides_kind (PList vs) = list_all hides_value vs"
| "hides_kind _ = True"

lemma redact_json_hides:
  "hides (fst (redact_json E v path))"
  "hides (JObj (fst (redact_json_object E m path)))"
  "list_all hides (fst (redact_json_items E items idx path))"
  by (induction E v path and E m path and E items idx path
      rule: redact_json_redact_json_object_redact_json_items.induct)
    (auto simp: split_beta Let_def)

lemma redact_struct_hides:
  "hides_value (fst (redact_prost_value E v path))"
  "hides_kind (fst (redact_kind E k path))"
  "hides_kind (PStruct (fst (redact_struct E flds path)))"
  "list_all hides_value (fst (redact_values E items idx path))"
  by (induction E v path and E k path and E flds path and E items idx path
      rule: redact_prost_value_redact_kind_redact_struct_redact_values.induct)
    (auto simp: split_beta Let_def)

section \<open>Without findings nothing changed\<close>

lemma apply_patterns_unchanged: "snd (apply_patterns E ps t path) = [] \<Longrightarrow> fst (apply_patterns E ps t path) = t"
  by (induction E ps t path rule: apply_patterns.induct) (auto simp: split_beta Let_def split: if_splits)

lemma redact_text_unchanged: "snd (redact_text E t path) = [] \<Longrightarrow> fst (redact_text E t path) = t"
  by (simp add: redact_text_def apply_patterns_unchanged)

lemma redact_json_unchanged:
  "snd (redact_json E v path) = [] \<Longrightarrow> fst (redact_json E v path) = v"
  "snd (redact_json_object E m path) = [] \<Longrightarrow> fst (redact_json_object E m path) = m"
  "snd (redact_json_items E items idx path) = [] \<Longrightarrow> fst (redact_json_items E items idx path) = items"
  by (induction E v path and E m path and E items idx path
      rule: redact_json_redact_json_object_redact_json_items.induct)
    (auto simp: split_beta Let_def redact_text_unchanged split: if_splits)

lemma redact_struct_unchanged:
  "snd (redact_prost_value E v path) = [] \<Longrightarrow> fst (redact_prost_value E v path) = v"
  "snd (redact_kind E k path) = [] \<Longrightarrow> fst (redact_kind E k path) = k"
  "snd (redact_struct E flds path) = [] \<Longrightarrow> fst (redact_struct E flds path) = flds"
  "snd (redact_values E items idx path) = [] \<Longrightarrow> fst (redact_values E items idx path) = items"
  by (induction E v path and E k path and E flds path and E items idx path
      rule: redact_prost_value_redact_kind_redact_struct_redact_values.induct)
    (auto simp: split_beta Let_def redact_text_unchanged split: if_splits)

text \<open>The keys of every object stay as they were.\<close>

lemma redact_json_object_keys: "keys (fst (redact_json_object E m path)) = keys m"
  by (induction m) (auto simp: split_beta Let_def)

lemma redact_json_wf:
  "wf_json v \<Longrightarrow> wf_json (fst (redact_json E v path))"
  "list_all (\<lambda>kv. wf_json (snd kv)) m \<Longrightarrow> list_all (\<lambda>kv. wf_json (snd kv)) (fst (redact_json_object E m path))"
  "list_all wf_json items \<Longrightarrow> list_all wf_json (fst (redact_json_items E items idx path))"
  by (induction E v path and E m path and E items idx path
      rule: redact_json_redact_json_object_redact_json_items.induct)
    (auto simp: split_beta Let_def sorted_keys_def redact_json_object_keys)

section \<open>Redaction keeps the shape of what it redacts\<close>

text \<open>\<open>w\<close> is \<open>v\<close> with some texts replaced, and with the marker under the secret keys.\<close>

fun redacted_json :: "json \<Rightarrow> json \<Rightarrow> bool"
  and redacted_fields :: "json_map \<Rightarrow> json_map \<Rightarrow> bool"
  and redacted_items :: "json list \<Rightarrow> json list \<Rightarrow> bool" where
  "redacted_json (JObj m) w = (\<exists>m'. w = JObj m' \<and> redacted_fields m m')"
| "redacted_json (JArr vs) w = (\<exists>ws. w = JArr ws \<and> redacted_items vs ws)"
| "redacted_json (JStr s) w = (\<exists>t. w = JStr t)"
| "redacted_json v w = (w = v)"
| "redacted_fields [] m' = (m' = [])"
| "redacted_fields ((key, v) # m) m' = (\<exists>w n. m' = (key, w) # n \<and> redacted_fields m n
     \<and> (if secret_key_name key then w = JStr marker else redacted_json v w))"
| "redacted_items [] ws = (ws = [])"
| "redacted_items (v # vs) ws = (\<exists>w us. ws = w # us \<and> redacted_json v w \<and> redacted_items vs us)"

lemma redact_json_shape:
  "redacted_json v (fst (redact_json E v path))"
  "redacted_fields m (fst (redact_json_object E m path))"
  "redacted_items items (fst (redact_json_items E items idx path))"
  by (induction E v path and E m path and E items idx path
      rule: redact_json_redact_json_object_redact_json_items.induct)
    (auto simp: split_beta Let_def)

fun redacted_value :: "pvalue \<Rightarrow> pvalue \<Rightarrow> bool"
  and redacted_kind :: "pkind \<Rightarrow> pkind \<Rightarrow> bool"
  and redacted_struct :: "pstruct \<Rightarrow> pstruct \<Rightarrow> bool"
  and redacted_values :: "pvalue list \<Rightarrow> pvalue list \<Rightarrow> bool" where
  "redacted_value (PValue None) w = (w = PValue None)"
| "redacted_value (PValue (Some k)) w = (\<exists>l. w = PValue (Some l) \<and> redacted_kind k l)"
| "redacted_kind (PStruct s) l = (\<exists>t. l = PStruct t \<and> redacted_struct s t)"
| "redacted_kind (PList vs) l = (\<exists>ws. l = PList ws \<and> redacted_values vs ws)"
| "redacted_kind (PString s) l = (\<exists>t. l = PString t)"
| "redacted_kind k l = (l = k)"
| "redacted_struct [] t = (t = [])"
| "redacted_struct ((key, v) # s) t = (\<exists>w u. t = (key, w) # u \<and> redacted_struct s u
     \<and> (if secret_key_name key then w = PValue (Some (PString marker)) else redacted_value v w))"
| "redacted_values [] ws = (ws = [])"
| "redacted_values (v # vs) ws = (\<exists>w us. ws = w # us \<and> redacted_value v w \<and> redacted_values vs us)"

lemma redact_struct_shape:
  "redacted_value v (fst (redact_prost_value E v path))"
  "redacted_kind k (fst (redact_kind E k path))"
  "redacted_struct s (fst (redact_struct E s path))"
  "redacted_values items (fst (redact_values E items idx path))"
  by (induction E v path and E k path and E s path and E items idx path
      rule: redact_prost_value_redact_kind_redact_struct_redact_values.induct)
    (auto simp: split_beta Let_def)

section \<open>Properties of redact_payload\<close>

lemma with_data_simps [simp]:
  "pl_encoding (with_data E bs p) = pl_encoding p" "pl_data (with_data E bs p) = bs"
  "pl_struct_data (with_data E bs p) = pl_struct_data p"
  "pl_size_bytes (with_data E bs p) = of_nat (length bs)"
  "pl_content_hash (with_data E bs p) = blake3_hex E bs"
  "pl_artifact_ref (with_data E bs p) = pl_artifact_ref p"
  "pl_compressed (with_data E bs p) = pl_compressed p"
  by (simp_all add: with_data_def)

lemma redact_struct_data_simps [simp]:
  "pl_encoding (fst (redact_struct_data E p)) = pl_encoding p"
  "pl_data (fst (redact_struct_data E p)) = pl_data p"
  "pl_size_bytes (fst (redact_struct_data E p)) = pl_size_bytes p"
  "pl_content_hash (fst (redact_struct_data E p)) = pl_content_hash p"
  "pl_artifact_ref (fst (redact_struct_data E p)) = pl_artifact_ref p"
  "pl_struct_data (fst (redact_struct_data E p)) =
     map_option (\<lambda>s. fst (redact_struct E s ''$'')) (pl_struct_data p)"
  by (simp_all add: redact_struct_data_def split_beta Let_def split: option.splits)

lemma redact_data_simps [simp]:
  "pl_encoding (fst (redact_data E p)) = pl_encoding p"
  "pl_struct_data (fst (redact_data E p)) = pl_struct_data p"
  "pl_artifact_ref (fst (redact_data E p)) = pl_artifact_ref p"
  "pl_compressed (fst (redact_data E p)) = pl_compressed p"
  by (simp_all add: redact_data_def split_beta Let_def split: option.splits sum.splits
      payload_encoding.splits)

lemma redact_payload_fst:
  "fst (redact_payload E p) = fst (redact_data E (fst (redact_struct_data E p)))"
  by (simp add: redact_payload_def split_beta Let_def)

lemma redact_payload_findings:
  "rr_findings (snd (redact_payload E p)) =
     snd (redact_struct_data E p) @ snd (redact_data E (fst (redact_struct_data E p)))"
  "rr_redacted (snd (redact_payload E p)) \<longleftrightarrow> rr_findings (snd (redact_payload E p)) \<noteq> []"
  by (simp_all add: redact_payload_def split_beta Let_def)

text \<open>The bytes of a payload with their size and hash.\<close>

definition same_data :: "payload \<Rightarrow> payload \<Rightarrow> bool" where
  "same_data p q \<longleftrightarrow> pl_data p = pl_data q \<and> pl_size_bytes p = pl_size_bytes q
     \<and> pl_content_hash p = pl_content_hash q"

definition rehashed :: "env \<Rightarrow> payload \<Rightarrow> bool" where
  "rehashed E p \<longleftrightarrow> pl_size_bytes p = of_nat (length (pl_data p)) \<and> pl_content_hash p = blake3_hex E (pl_data p)"

text \<open>
  Claim C21. What redaction hides, and where it does not look. In the structured data of a redacted
  payload every key whose name looks like a secret, at any depth, holds the marker. If the payload is
  JSON and its bytes parse, the new bytes print the parsed value with the marker under all such keys
  and with no other change than in texts; if it is UTF-8 text, the new bytes are the text with the
  patterns replaced; in both cases size and hash are computed anew. The bytes of every other payload,
  of another encoding or not readable in their own, stay as they came, secrets included, with the
  size and the hash that came with them. It is assumed that printing a JSON value does not fail.
\<close>

theorem redact_payload_hides:
  assumes "\<And>w. is_ok (json_print E w)"
  shows "(\<forall>s. pl_struct_data (fst (redact_payload E p)) = Some s \<longrightarrow> hides_kind (PStruct s))
     \<and> (case encoding_of (pl_encoding p) of
          EncJson \<Rightarrow>
            (case json_parse E (pl_data p) of
               None \<Rightarrow> same_data (fst (redact_payload E p)) p
             | Some v \<Rightarrow> rehashed E (fst (redact_payload E p))
                 \<and> (\<exists>w. redacted_json v w \<and> hides w \<and> json_print E w = Inr (pl_data (fst (redact_payload E p)))))
        | EncText \<Rightarrow>
            (if from_utf8 (pl_data p)
             then rehashed E (fst (redact_payload E p))
               \<and> pl_data (fst (redact_payload E p)) = fst (redact_text E (pl_data p) ''$'')
             else same_data (fst (redact_payload E p)) p)
        | _ \<Rightarrow> same_data (fst (redact_payload E p)) p)"
proof
  show "\<forall>s. pl_struct_data (fst (redact_payload E p)) = Some s \<longrightarrow> hides_kind (PStruct s)"
    using redact_struct_hides(3) by (auto simp: redact_payload_fst)
  note data = redact_payload_fst redact_data_def split_beta Let_def same_data_def rehashed_def
  show "case encoding_of (pl_encoding p) of
          EncJson \<Rightarrow>
            (case json_parse E (pl_data p) of
               None \<Rightarrow> same_data (fst (redact_payload E p)) p
             | Some v \<Rightarrow> rehashed E (fst (redact_payload E p))
                 \<and> (\<exists>w. redacted_json v w \<and> hides w \<and> json_print E w = Inr (pl_data (fst (redact_payload E p)))))
        | EncText \<Rightarrow>
            (if from_utf8 (pl_data p)
             then rehashed E (fst (redact_payload E p))
               \<and> pl_data (fst (redact_payload E p)) = fst (redact_text E (pl_data p) ''$'')
             else same_data (fst (redact_payload E p)) p)
        | _ \<Rightarrow> same_data (fst (redact_payload E p)) p"
  proof (cases "encoding_of (pl_encoding p) = EncJson \<and> json_parse E (pl_data p) \<noteq> None")
    case True
    then obtain v where v: "encoding_of (pl_encoding p) = EncJson" "json_parse E (pl_data p) = Some v" by auto
    obtain bs where "json_print E (fst (redact_json E v ''$'')) = Inr bs" using assms by (rule is_okE)
    then show ?thesis
      using v redact_json_shape(1) [of v E "''$''"] redact_json_hides(1) [of E v "''$''"] by (auto simp: data)
  qed (auto simp: data split: payload_encoding.splits)
qed

text \<open>
  A report without findings means that nothing was touched: the structured data is
  the same and the bytes are the same, or, for JSON, print the very value that was parsed.
\<close>

theorem redact_payload_unchanged:
  assumes "\<not> rr_redacted (snd (redact_payload E p))"
  shows "pl_struct_data (fst (redact_payload E p)) = pl_struct_data p
     \<and> (pl_data (fst (redact_payload E p)) = pl_data p
        \<or> (\<exists>v. json_parse E (pl_data p) = Some v \<and> json_print E v = Inr (pl_data (fst (redact_payload E p)))))"
proof -
  have f: "snd (redact_struct_data E p) = []" "snd (redact_data E (fst (redact_struct_data E p))) = []"
    using assms by (simp_all add: redact_payload_findings)
  have "pl_struct_data (fst (redact_payload E p)) = pl_struct_data p"
    using f(1) by (auto simp: redact_payload_fst redact_struct_data_def split_beta Let_def
        redact_struct_unchanged split: option.splits)
  moreover have "pl_data (fst (redact_payload E p)) = pl_data p
      \<or> (\<exists>v. json_parse E (pl_data p) = Some v \<and> json_print E v = Inr (pl_data (fst (redact_payload E p))))"
    using f(2) by (auto simp: redact_payload_fst redact_data_def split_beta Let_def
        redact_json_unchanged redact_text_unchanged
        split: option.splits sum.splits payload_encoding.splits if_splits)
  ultimately show ?thesis by blast
qed

text \<open>
  What redaction does not look at: the bytes of a payload that is neither JSON nor
  text, and of a JSON payload that does not parse or a text payload that is not UTF-8, go
  through as they are, with the size and hash they came with and no finding of their own.
\<close>

theorem redact_payload_opaque:
  assumes "encoding_of (pl_encoding p) \<notin> {EncJson, EncText}
     \<or> encoding_of (pl_encoding p) = EncJson \<and> json_parse E (pl_data p) = None
     \<or> encoding_of (pl_encoding p) = EncText \<and> \<not> from_utf8 (pl_data p)"
  shows "pl_data (fst (redact_payload E p)) = pl_data p
     \<and> pl_size_bytes (fst (redact_payload E p)) = pl_size_bytes p
     \<and> pl_content_hash (fst (redact_payload E p)) = pl_content_hash p
     \<and> rr_findings (snd (redact_payload E p)) = snd (redact_struct_data E p)"
proof -
  have "redact_data E (fst (redact_struct_data E p)) = (fst (redact_struct_data E p), [])"
    using assms by (auto simp: redact_data_def split: payload_encoding.splits)
  then show ?thesis by (simp add: redact_payload_fst redact_payload_findings)
qed

text \<open>
  Claim C22. Redaction is type preserving: the bytes of a redacted JSON payload print a well-formed
  value of the shape of the one that came in, with the same keys in the same order, arrays of the
  same length and the same numbers, booleans and nulls, in which only texts differ and secret keys
  hold the marker; the same is true of the structured data, and encoding, compression and artifact
  reference are untouched.
\<close>

theorem redact_payload_well_typed:
  assumes "encoding_of (pl_encoding p) = EncJson" "json_parse E (pl_data p) = Some v" "wf_json v"
    and "\<And>w. is_ok (json_print E w)"
  shows "\<exists>w. wf_json w \<and> redacted_json v w \<and> json_print E w = Inr (pl_data (fst (redact_payload E p)))
     \<and> rel_option redacted_struct (pl_struct_data p) (pl_struct_data (fst (redact_payload E p)))
     \<and> pl_encoding (fst (redact_payload E p)) = pl_encoding p
     \<and> pl_compressed (fst (redact_payload E p)) = pl_compressed p
     \<and> pl_artifact_ref (fst (redact_payload E p)) = pl_artifact_ref p"
proof -
  let ?w = "fst (redact_json E v ''$'')"
  obtain bs where bs: "json_print E ?w = Inr bs" using assms(4) by (rule is_okE)
  have p: "fst (redact_payload E p) = with_data E bs (fst (redact_struct_data E p))"
    using assms(1,2) bs by (simp add: redact_payload_fst redact_data_def split_beta Let_def)
  have "rel_option redacted_struct (pl_struct_data p) (map_option (\<lambda>s. fst (redact_struct E s ''$'')) (pl_struct_data p))"
    by (cases "pl_struct_data p") (simp_all add: redact_struct_shape)
  moreover have "pl_compressed (fst (redact_struct_data E p)) = pl_compressed p"
    by (simp add: redact_struct_data_def split_beta Let_def split: option.splits)
  ultimately show ?thesis
    using bs p redact_json_shape(1) [of v E "''$''"] redact_json_wf(1) [OF assms(3)] by (intro exI [of _ ?w]) simp
qed

section \<open>Witnesses\<close>

definition secret_payload :: "payload_encoding \<Rightarrow> payload" where
  "secret_payload e = \<lparr>pl_encoding = encoding_i32 e, pl_data = ''x'', pl_struct_data = None,
     pl_size_bytes = 1, pl_content_hash = ''h'', pl_compressed = False, pl_artifact_ref = []\<rparr>"

definition secret_env :: env where
  "secret_env = example_env\<lparr>json_parse := (\<lambda>_. Some (JObj [(''API_KEY'', JStr ''x'')]))\<rparr>"

theorem redact_payload_hides_witness:
  "\<exists>w. redacted_json (JObj [(''API_KEY'', JStr ''x'')]) w \<and> hides w
     \<and> json_print secret_env w = Inr (pl_data (fst (redact_payload secret_env (secret_payload EncJson))))"
proof -
  have "is_ok (json_print secret_env w)" for w by (simp add: secret_env_def example_env_def)
  from redact_payload_hides [OF this, of "secret_payload EncJson"] show ?thesis
    by (simp add: secret_payload_def encoding_of_def secret_env_def)
qed

theorem redact_payload_well_typed_witness:
  "\<exists>w. redacted_json (JObj [(''API_KEY'', JStr ''x'')]) w \<and> wf_json w
     \<and> json_print secret_env w = Inr (pl_data (fst (redact_payload secret_env (secret_payload EncJson))))"
proof -
  have "\<exists>w. wf_json w \<and> redacted_json (JObj [(''API_KEY'', JStr ''x'')]) w
     \<and> json_print secret_env w = Inr (pl_data (fst (redact_payload secret_env (secret_payload EncJson))))
     \<and> rel_option redacted_struct (pl_struct_data (secret_payload EncJson))
          (pl_struct_data (fst (redact_payload secret_env (secret_payload EncJson))))
     \<and> pl_encoding (fst (redact_payload secret_env (secret_payload EncJson))) = pl_encoding (secret_payload EncJson)
     \<and> pl_compressed (fst (redact_payload secret_env (secret_payload EncJson))) = pl_compressed (secret_payload EncJson)
     \<and> pl_artifact_ref (fst (redact_payload secret_env (secret_payload EncJson))) = pl_artifact_ref (secret_payload EncJson)"
    by (rule redact_payload_well_typed)
      (simp_all add: secret_payload_def encoding_of_def secret_env_def example_env_def)
  then show ?thesis by blast
qed

theorem redact_payload_unchanged_witness:
  "pl_data (fst (redact_payload example_env (secret_payload EncText))) = ''x''"
proof -
  have "\<not> rr_redacted (snd (redact_payload example_env (secret_payload EncText)))"
    by (simp add: redact_payload_findings redact_struct_data_def redact_data_def secret_payload_def
        encoding_of_def redact_text_def patterns_def example_env_def split_beta Let_def)
  from redact_payload_unchanged [OF this] show ?thesis
    by (simp add: secret_payload_def example_env_def)
qed

theorem redact_payload_opaque_witness:
  "pl_data (fst (redact_payload secret_env (secret_payload EncBytes))) = ''x''"
  using redact_payload_opaque [of "secret_payload EncBytes" secret_env]
  by (simp add: secret_payload_def encoding_of_def)

end
