(* ===== verification/LoopDetection.thy ===== *)
theory LoopDetection
  imports Env
begin

text \<open>
  \<open>daemon/src/loop_detection\<close>: the fingerprint of a commit (fingerprints.rs), the severity of a
  repetition (heuristics.rs) and the sliding windows of the detector (detector.rs).
\<close>

section \<open>fingerprints.rs\<close>

text \<open>
  \<open>{:?}\<close> of a \<open>Vec<String>\<close>: each string is quoted and its quotes, backslashes and control
  characters are escaped. Bytes of a multi-byte character are copied, which is what
  \<open>Debug\<close> does for every printable character; parent ids are ASCII (\<open>c_\<close> and hex digits).
\<close>

definition hex_digit :: "nat \<Rightarrow> char" where
  "hex_digit d = char_of (if d < 10 then 48 + d else 87 + d)"

definition escape_debug :: "char \<Rightarrow> string" where
  "escape_debug c =
     (let n = (of_char c :: nat) in
      if n = 0 then [CHR 0x5C, CHR ''0'']
      else if n = 9 then [CHR 0x5C, CHR ''t'']
      else if n = 10 then [CHR 0x5C, CHR ''n'']
      else if n = 13 then [CHR 0x5C, CHR ''r'']
      else if n = 34 \<or> n = 92 then [CHR 0x5C, c]
      else if n < 16 then [CHR 0x5C, CHR ''u'', CHR 0x7B, hex_digit n, CHR 0x7D]
      else if n < 32 \<or> n = 127
      then [CHR 0x5C, CHR ''u'', CHR 0x7B, hex_digit (n div 16), hex_digit (n mod 16), CHR 0x7D]
      else [c])"

definition debug_str :: "string \<Rightarrow> string" where
  "debug_str s = [CHR 0x22] @ concat (map escape_debug s) @ [CHR 0x22]"

definition debug_list :: "string list \<Rightarrow> string" where
  "debug_list xs = ''['' @ join '', '' (map debug_str xs) @ '']''"

definition fingerprint_text :: "commit \<Rightarrow> string" where
  "fingerprint_text commit =
     (let tool_names = join '','' (map tc_name (cm_tool_calls commit));
          error_types = join '','' (List.map_filter (\<lambda>result. map_option er_code (tr_error result))
                          (cm_tool_results commit));
          payload_hash = unwrap_or [] (map_option pl_content_hash (cm_state_delta commit))
      in cm_objective commit @ ''|'' @ cm_summary commit @ ''|'' @ payload_hash @ ''|''
         @ tool_names @ ''|'' @ error_types @ ''|'' @ debug_list (cm_parent_commit_ids commit))"

definition fingerprint :: "env \<Rightarrow> commit \<Rightarrow> string" where
  "fingerprint E commit = blake3_hex E (fingerprint_text commit)"

section \<open>heuristics.rs\<close>

definition severity_for_repetitions :: "u64 \<Rightarrow> loop_severity" where
  "severity_for_repetitions repetitions =
     (if repetitions \<le> 2 then SevLow else if repetitions \<le> 4 then SevMedium else SevHigh)"

section \<open>detector.rs\<close>

record fingerprint_entry =
  fe_fingerprint :: string
  fe_commit_id :: string

record loop_detector =
  ld_window_size :: nat
  ld_windows :: "(string, fingerprint_entry list) table"

definition new_detector :: "nat \<Rightarrow> loop_detector" where
  "new_detector window_size = \<lparr>ld_window_size = window_size, ld_windows = []\<rparr>"

definition default_detector :: loop_detector where
  "default_detector = new_detector 12"

definition window_key :: "commit \<Rightarrow> string" where
  "window_key commit = cm_run_id commit @ ''|'' @ cm_agent_id commit @ ''|'' @ cm_channel commit"

definition window_of :: "loop_detector \<Rightarrow> string \<Rightarrow> fingerprint_entry list" where
  "window_of d key = unwrap_or [] (map_of (ld_windows d) key)"

definition inspect :: "env \<Rightarrow> commit \<Rightarrow> loop_detector \<Rightarrow> loop_detector \<times> loop_warning option" where
  "inspect E commit self =
     (let key = window_key commit;
          fp = fingerprint E commit;
          window = window_of self key;
          repetition_count =
            of_nat (length (filter (\<lambda>entry. fe_fingerprint entry = fp) window)) + 1;
          suggested_stable_commit_id =
            unwrap_or [] (map_option fe_commit_id
              (List.find (\<lambda>entry. fe_fingerprint entry \<noteq> fp) (rev window)));
          self = self\<lparr>ld_windows := AList.update key
            (push_bounded (ld_window_size self)
               \<lparr>fe_fingerprint = fp, fe_commit_id = cm_commit_id commit\<rparr> window)
            (ld_windows self)\<rparr>
      in if repetition_count < 3 then (self, None)
         else (self, Some
           \<lparr>lw_warning_id = new_id E LoopSite ''loop'',
            lw_run_id = cm_run_id commit,
            lw_agent_id = cm_agent_id commit,
            lw_channel = cm_channel commit,
            lw_severity = severity_i32 (severity_for_repetitions repetition_count),
            lw_fingerprint = fp,
            lw_repetition_count = repetition_count,
            lw_first_seen = Some (now E LoopSite),
            lw_last_seen = Some (now E LoopSite),
            lw_suggested_stable_commit_id = suggested_stable_commit_id,
            lw_message =
              ''Repeated captured context and tool pattern detected in the sliding window.''\<rparr>))"

section \<open>The windows hold the last commits of their key\<close>

definition entry_of :: "env \<Rightarrow> commit \<Rightarrow> fingerprint_entry" where
  "entry_of E c = \<lparr>fe_fingerprint = fingerprint E c, fe_commit_id = cm_commit_id c\<rparr>"

text \<open>The detector after a sequence of inspections, each with the environment of its request.\<close>

fun inspect_all :: "(env \<times> commit) list \<Rightarrow> loop_detector \<Rightarrow> loop_detector" where
  "inspect_all [] d = d"
| "inspect_all ((E, c) # ecs) d = inspect_all ecs (fst (inspect E c d))"

definition entries_for :: "string \<Rightarrow> (env \<times> commit) list \<Rightarrow> fingerprint_entry list" where
  "entries_for key ecs = map (\<lambda>(E, c). entry_of E c) (filter (\<lambda>(E, c). window_key c = key) ecs)"

lemma inspect_window:
  "window_of (fst (inspect E c d)) key =
     (if key = window_key c then push_bounded (ld_window_size d) (entry_of E c) (window_of d key)
      else window_of d key)"
  "ld_window_size (fst (inspect E c d)) = ld_window_size d"
  by (simp_all add: inspect_def Let_def window_of_def entry_of_def table_simps)

lemma inspect_all_append [simp]:
  "inspect_all (as @ bs) d = inspect_all bs (inspect_all as d)"
  by (induction as d rule: inspect_all.induct) simp_all

lemma window_latest:
  assumes "0 < n"
  shows "window_of (inspect_all ecs (new_detector n)) key = latest n (entries_for key ecs)
     \<and> ld_window_size (inspect_all ecs (new_detector n)) = n"
proof (induction ecs rule: rev_induct)
  case Nil
  then show ?case by (simp add: new_detector_def window_of_def entries_for_def latest_def)
next
  case (snoc ec ecs)
  obtain E c where ec: "ec = (E, c)" by (cases ec)
  have "entries_for key (ecs @ [(E, c)]) =
      entries_for key ecs @ (if window_key c = key then [entry_of E c] else [])"
    by (simp add: entries_for_def)
  then show ?case
    using snoc ec latest_snoc [OF assms, of "entries_for key ecs" "entry_of E c"]
    by (auto simp: inspect_window)
qed

text \<open>
  The detector's memory is bounded and exact: after any sequence of inspections a
  detector of positive window size \<open>n\<close> holds, for each key, the entries of the last \<open>n\<close> commits
  with that key, in order.
\<close>

theorem window_is_latest:
  assumes "0 < n"
  shows "window_of (inspect_all ecs (new_detector n)) key = latest n (entries_for key ecs)
     \<and> length (window_of (inspect_all ecs (new_detector n)) key) \<le> n"
  using window_latest [OF assms] by simp

theorem window_is_latest_witness:
  "length (window_of (inspect_all (replicate 5 (example_env, example_commit ''a'' []))
      (new_detector 3)) ''||'') \<le> 3"
  using window_is_latest [of 3] by simp

section \<open>When the detector warns\<close>

definition repetitions :: "env \<Rightarrow> commit \<Rightarrow> fingerprint_entry list \<Rightarrow> nat" where
  "repetitions E c window =
     length (filter (\<lambda>entry. fe_fingerprint entry = fingerprint E c) window)"

lemma of_nat_less_3: "k < 2 ^ 63 \<Longrightarrow> (of_nat k + 1 :: u64) < 3 \<longleftrightarrow> k < 2"
proof -
  assume k: "k < 2 ^ 63"
  have "(of_nat k + 1 :: u64) = of_nat (Suc k)" by simp
  moreover have "unat (of_nat (Suc k) :: u64) = Suc k" using k by (simp add: unat_of_nat del: of_nat_Suc)
  ultimately have "unat (of_nat k + 1 :: u64) = Suc k" by (simp only:)
  then show ?thesis by (simp add: word_less_nat_alt)
qed

lemma inspect_result:
  "snd (inspect E c d) =
     (let n = of_nat (repetitions E c (window_of d (window_key c))) + 1 in
      if n < 3 then None
      else Some
        \<lparr>lw_warning_id = new_id E LoopSite ''loop'', lw_run_id = cm_run_id c,
         lw_agent_id = cm_agent_id c, lw_channel = cm_channel c,
         lw_severity = severity_i32 (severity_for_repetitions n), lw_fingerprint = fingerprint E c,
         lw_repetition_count = n, lw_first_seen = Some (now E LoopSite),
         lw_last_seen = Some (now E LoopSite),
         lw_suggested_stable_commit_id = unwrap_or [] (map_option fe_commit_id
           (List.find (\<lambda>entry. fe_fingerprint entry \<noteq> fingerprint E c)
              (rev (window_of d (window_key c))))),
         lw_message =
           ''Repeated captured context and tool pattern detected in the sliding window.''\<rparr>)"
  by (simp add: inspect_def Let_def repetitions_def)

lemma repetitions_bound: "repetitions E c window \<le> length window"
  by (simp add: repetitions_def)

text \<open>
  Claim C31. The detector warns about a commit exactly when at least two of the last \<open>n\<close> commits
  of the same run, agent and channel key have its fingerprint. The warning carries the number of
  occurrences, this one included, and its severity is medium or high: the low severity of
  \<open>severity_for_repetitions\<close> is never reported.
\<close>

theorem inspect_warns_iff:
  fixes ecs E c n
  defines "k \<equiv> repetitions E c (latest n (entries_for (window_key c) ecs))"
  assumes "0 < n" "n < 2 ^ 63"
  shows "(snd (inspect E c (inspect_all ecs (new_detector n))) \<noteq> None \<longleftrightarrow> 2 \<le> k)
     \<and> (\<forall>w. snd (inspect E c (inspect_all ecs (new_detector n))) = Some w \<longrightarrow>
          lw_repetition_count w = of_nat k + 1
          \<and> lw_severity w \<in> {severity_i32 SevMedium, severity_i32 SevHigh})"
proof -
  have win: "window_of (inspect_all ecs (new_detector n)) (window_key c)
      = latest n (entries_for (window_key c) ecs)"
    using window_latest [OF assms(2)] by blast
  have "k \<le> n" unfolding k_def by (rule order_trans [OF repetitions_bound]) simp
  then have "k < 2 ^ 63" using assms(3) by simp
  then have less: "(of_nat k + 1 :: u64) < 3 \<longleftrightarrow> k < 2" by (rule of_nat_less_3)
  have sev: "severity_for_repetitions m \<in> {SevMedium, SevHigh}" if "\<not> m < 3" for m :: u64
  proof -
    have "\<not> m \<le> 2" using that by (simp add: word_le_nat_alt word_less_nat_alt)
    then show ?thesis by (simp add: severity_for_repetitions_def)
  qed
  show ?thesis
    unfolding inspect_result win k_def [symmetric] Let_def less
    using sev [of "of_nat k + 1"] less by auto
qed

theorem inspect_warns_iff_witness:
  "snd (inspect example_env (example_commit ''a'' [])
     (inspect_all (replicate 2 (example_env, example_commit ''a'' [])) (new_detector 12))) \<noteq> None"
proof -
  have "repetitions example_env (example_commit ''a'' []) (latest 12 (entries_for
      (window_key (example_commit ''a'' [])) (replicate 2 (example_env, example_commit ''a'' [])))) = 2"
    by (simp add: repetitions_def latest_def entries_for_def entry_of_def numeral_2_eq_2)
  then show ?thesis
    using inspect_warns_iff [of 12 example_env "example_commit ''a'' []"
        "replicate 2 (example_env, example_commit ''a'' [])"] by simp
qed

text \<open>
  A commit whose only parent is \<open>p\<close>. An id without quotes, backslashes, control characters
  or bytes beyond ASCII is printed as it is between quotes.
\<close>

definition plain_id :: "string \<Rightarrow> bool" where
  "plain_id p \<longleftrightarrow> list_all (\<lambda>c. escape_debug c = [c] \<and> c \<noteq> CHR 0x22) p"

lemma concat_escape_plain: "plain_id p \<Longrightarrow> concat (map escape_debug p) = p"
  by (induction p) (auto simp: plain_id_def)

lemma debug_list_single: "plain_id p \<Longrightarrow> debug_list [p] = ''[\"'' @ p @ ''\"]''"
  by (simp add: debug_list_def debug_str_def concat_escape_plain)

lemma quote_split:
  "c \<notin> set p \<Longrightarrow> c \<notin> set q \<Longrightarrow> p @ c # x = q @ c # y \<Longrightarrow> p = q"
proof (induction p arbitrary: q)
  case Nil
  then show ?case by (cases q) auto
next
  case (Cons z p)
  then show ?case by (cases q) auto
qed

lemma quoted_suffix:
  assumes eq: "x @ CHR 0x22 # p @ ''\"]'' = y @ CHR 0x22 # q @ ''\"]''"
    and "CHR 0x22 \<notin> set p" "CHR 0x22 \<notin> set q"
  shows "p = q"
proof -
  have "rev (x @ CHR 0x22 # p @ ''\"]'') = rev (y @ CHR 0x22 # q @ ''\"]'')"
    using eq by (rule arg_cong)
  then have "rev p @ CHR 0x22 # rev x = rev q @ CHR 0x22 # rev y" by simp
  from _ _ this have "rev p = rev q" by (rule quote_split) (use assms(2,3) in simp_all)
  then show ?thesis by simp
qed

lemma fingerprint_text_parent:
  assumes "fingerprint_text a = fingerprint_text b"
    and "cm_parent_commit_ids a = [p]" "cm_parent_commit_ids b = [q]" "plain_id p" "plain_id q"
  shows "p = q"
proof -
  have quote: "CHR 0x22 \<notin> set r" if "plain_id r" for r
    using that by (auto simp: plain_id_def list_all_iff)
  obtain x where x: "fingerprint_text a = x @ CHR 0x22 # p @ ''\"]''"
    using assms(2,4) by (simp add: fingerprint_text_def Let_def debug_list_single)
  obtain y where y: "fingerprint_text b = y @ CHR 0x22 # q @ ''\"]''"
    using assms(3,5) by (simp add: fingerprint_text_def Let_def debug_list_single)
  from assms(1) x y quote assms(4,5) show ?thesis by (metis quoted_suffix)
qed

definition single_parents :: "commit list \<Rightarrow> string list \<Rightarrow> bool" where
  "single_parents cs ps \<longleftrightarrow> map cm_parent_commit_ids cs = map (\<lambda>p. [p]) ps
     \<and> list_all plain_id ps \<and> distinct ps"

lemma single_parents_repetitions:
  assumes "single_parents (cs @ [c]) ps" "inj_on (blake3 E) (fingerprint_text ` set (cs @ [c]))"
    and "set window \<subseteq> entry_of E ` set cs"
  shows "repetitions E c window = 0"
proof -
  have len: "length ps = Suc (length cs)"
    using arg_cong [of _ _ length, OF assms(1) [unfolded single_parents_def, THEN conjunct1]] by simp
  have par: "cm_parent_commit_ids ((cs @ [c]) ! i) = [ps ! i]" if "i \<le> length cs" for i
    using that len arg_cong [of _ _ "\<lambda>l. l ! i", OF assms(1) [unfolded single_parents_def, THEN conjunct1]]
    by (simp del: map_append)
  have pl: "plain_id (ps ! i)" if "i \<le> length cs" for i
    using that len assms(1) by (simp add: single_parents_def list_all_length)
  have "fingerprint E d \<noteq> fingerprint E c" if d: "d \<in> set cs" for d
  proof
    assume eq: "fingerprint E d = fingerprint E c"
    obtain i where i: "i < length cs" "d = cs ! i" using d by (auto simp: in_set_conv_nth)
    have txts: "fingerprint_text d = fingerprint_text c"
      by (rule inj_onD [OF assms(2)]) (use eq d in \<open>simp_all add: fingerprint_def blake3_hex_def\<close>)
    have parents: "cm_parent_commit_ids d = [ps ! i]" "cm_parent_commit_ids c = [ps ! length cs]"
      using par [of i] par [of "length cs"] i by (simp_all add: nth_append)
    have "plain_id (ps ! i)" "plain_id (ps ! length cs)" using pl i by simp_all
    with txts parents have "ps ! i = ps ! length cs" by (rule fingerprint_text_parent)
    moreover have "distinct ps" using assms(1) by (simp add: single_parents_def)
    ultimately show False using i len by (simp add: nth_eq_iff_index_eq)
  qed
  then have "fe_fingerprint e \<noteq> fingerprint E c" if "e \<in> set window" for e
    using assms(3) that by (auto simp: entry_of_def)
  then show ?thesis by (auto simp: repetitions_def filter_empty_conv)
qed

text \<open>
  Claim C32. A run that never warns: when every commit has exactly one parent and the parents
  differ, no two fingerprints agree, so the detector never warns however often an agent repeats objective,
  summary, payload, tools and errors. The hash is assumed not to collide on the texts at hand.
\<close>

theorem implicit_parents_never_warn:
  assumes "single_parents (cs @ [c]) ps" "inj_on (blake3 E) (fingerprint_text ` set (cs @ [c]))"
  shows "snd (inspect E c (inspect_all (map (Pair E) cs) default_detector)) = None"
proof -
  have win: "window_of (inspect_all (map (Pair E) cs) default_detector) (window_key c)
      = latest 12 (entries_for (window_key c) (map (Pair E) cs))"
    using window_latest [of 12] by (simp add: default_detector_def)
  have "set (latest 12 (entries_for (window_key c) (map (Pair E) cs))) \<subseteq> entry_of E ` set cs"
    by (auto simp: latest_def entries_for_def dest!: in_set_dropD)
  from single_parents_repetitions [OF assms this] show ?thesis
    by (simp add: inspect_result win)
qed

text \<open>The same work four times over, each commit the child of the one before.\<close>

definition repeated_work :: "commit list" where
  "repeated_work = map (\<lambda>p. example_commit ''c'' [p]) [''c_1'', ''c_2'', ''c_3'']"

theorem implicit_parents_never_warn_witness:
  "snd (inspect (example_env\<lparr>blake3 := (\<lambda>t. t)\<rparr>) (example_commit ''c'' [''c_4''])
     (inspect_all (map (Pair (example_env\<lparr>blake3 := (\<lambda>t. t)\<rparr>)) repeated_work) default_detector)) = None"
  by (rule implicit_parents_never_warn [of _ _ "[''c_1'', ''c_2'', ''c_3'', ''c_4'']"])
    (simp_all add: single_parents_def repeated_work_def plain_id_def escape_debug_def)

end
