(* ===== verification/Diff.thy ===== *)
theory Diff
  imports Env Utf8
begin

text \<open>
  \<open>daemon/src/ledger/diff.rs\<close>: the JSON view of a payload and the structural difference of
  two commits. The entries that the code pushes onto a vector are returned as a list.
\<close>

section \<open>The JSON view of a payload\<close>

definition payload_to_json :: "env \<Rightarrow> payload option \<Rightarrow> json" where
  "payload_to_json E p =
     (case p of
        None \<Rightarrow> JNull
      | Some payload \<Rightarrow>
          (case encoding_of (pl_encoding payload) of
             EncJson \<Rightarrow>
               unwrap_or
                 (json_object [(''content_hash'', JStr (pl_content_hash payload)),
                               (''size_bytes'', JNum (PosInt (pl_size_bytes payload)))])
                 (json_parse E (pl_data payload))
           | EncText \<Rightarrow> JStr (from_utf8_lossy (pl_data payload))
           | _ \<Rightarrow>
               json_object [(''content_hash'', JStr (pl_content_hash payload)),
                            (''size_bytes'', JNum (PosInt (pl_size_bytes payload))),
                            (''artifact_ref'', JStr (pl_artifact_ref payload))]))"

section \<open>Entries\<close>

definition print_or_null :: "env \<Rightarrow> json \<Rightarrow> string" where
  "print_or_null E v = (case json_print E v of Inl _ \<Rightarrow> ''null'' | Inr s \<Rightarrow> s)"

definition entry :: "env \<Rightarrow> string \<Rightarrow> string \<Rightarrow> json \<Rightarrow> json \<Rightarrow> diff_entry" where
  "entry E path change_type before after =
     \<lparr>de_path = path, de_change_type = change_type,
      de_before_json = print_or_null E before, de_after_json = print_or_null E after\<rparr>"

text \<open>The first loop of \<open>diff_object\<close>: keys that are gone.\<close>

fun diff_removed :: "env \<Rightarrow> string \<Rightarrow> json_map \<Rightarrow> json_map \<Rightarrow> diff_entry list" where
  "diff_removed E path [] after = []"
| "diff_removed E path ((key, before_value) # before) after =
     (if key \<notin> set (keys after)
      then [entry E (path @ ''.'' @ key) ''removed'' before_value JNull] else [])
     @ diff_removed E path before after"

text \<open>\<open>diff_value\<close>, and the second loop of \<open>diff_object\<close>.\<close>

fun diff_value :: "env \<Rightarrow> string \<Rightarrow> json \<Rightarrow> json \<Rightarrow> diff_entry list"
  and diff_object :: "env \<Rightarrow> string \<Rightarrow> json_map \<Rightarrow> json_map \<Rightarrow> diff_entry list" where
  "diff_value E path before after =
     (case (before, after) of
        (JObj left, JObj right) \<Rightarrow> diff_removed E path left right @ diff_object E path left right
      | _ \<Rightarrow> if before = after then [] else [entry E path ''changed'' before after])"
| "diff_object E path before [] = []"
| "diff_object E path before ((key, after_value) # after) =
     (case map_of before key of
        Some before_value \<Rightarrow> diff_value E (path @ ''.'' @ key) before_value after_value
      | None \<Rightarrow> [entry E (path @ ''.'' @ key) ''added'' JNull after_value])
     @ diff_object E path before after"

declare diff_value.simps [simp del]

lemma diff_value_object [simp]:
  "diff_value E path (JObj left) (JObj right) =
     diff_removed E path left right @ diff_object E path left right"
  by (simp add: diff_value.simps)

lemma diff_value_other:
  "\<not> (is_object before \<and> is_object after) \<Longrightarrow>
   diff_value E path before after =
     (if before = after then [] else [entry E path ''changed'' before after])"
  by (cases before; cases after) (simp_all add: diff_value.simps)

section \<open>The difference of two commits\<close>

definition changed_if :: "bool \<Rightarrow> diff_entry \<Rightarrow> diff_entry list" where
  "changed_if b e = (if b then [e] else [])"

definition diff_entries :: "env \<Rightarrow> commit \<Rightarrow> commit \<Rightarrow> diff_entry list" where
  "diff_entries E from_c to_c =
     diff_value E ''$'' (payload_to_json E (cm_state_delta from_c)) (payload_to_json E (cm_state_delta to_c))
     @ changed_if (cm_summary from_c \<noteq> cm_summary to_c)
         (entry E ''summary'' ''changed'' (JStr (cm_summary from_c)) (JStr (cm_summary to_c)))
     @ changed_if (cm_tags from_c \<noteq> cm_tags to_c)
         (entry E ''tags'' ''changed'' (JArr (map JStr (cm_tags from_c))) (JArr (map JStr (cm_tags to_c))))
     @ changed_if (length (cm_tool_calls from_c) \<noteq> length (cm_tool_calls to_c))
         (entry E ''tool_calls'' ''changed''
            (json_of_nat (length (cm_tool_calls from_c))) (json_of_nat (length (cm_tool_calls to_c))))
     @ changed_if (length (cm_tool_results from_c) \<noteq> length (cm_tool_results to_c))
         (entry E ''tool_results'' ''changed''
            (json_of_nat (length (cm_tool_results from_c))) (json_of_nat (length (cm_tool_results to_c))))
     @ changed_if (length (cm_artifact_refs from_c) \<noteq> length (cm_artifact_refs to_c))
         (entry E ''artifacts'' ''changed''
            (json_of_nat (length (cm_artifact_refs from_c))) (json_of_nat (length (cm_artifact_refs to_c))))
     @ changed_if (length (cm_external_side_effects from_c) \<noteq> length (cm_external_side_effects to_c))
         (entry E ''external_side_effects'' ''changed''
            (json_of_nat (length (cm_external_side_effects from_c)))
            (json_of_nat (length (cm_external_side_effects to_c))))"

definition diff_commits :: "env \<Rightarrow> commit \<Rightarrow> commit \<Rightarrow> commit_diff" where
  "diff_commits E from_c to_c =
     (let entries = diff_entries E from_c to_c in
      \<lparr>cd_from_commit_id = cm_commit_id from_c, cd_to_commit_id = cm_commit_id to_c,
       cd_entries = entries,
       cd_human_summary =
         (if entries = [] then ''No captured logical state changes.''
          else show_nat (length entries) @ '' captured logical state change(s).'')\<rparr>)"

section \<open>The difference is empty exactly on equal values\<close>

lemma diff_removed_empty:
  "diff_removed E path before after = [] \<longleftrightarrow> set (keys before) \<subseteq> set (keys after)"
  by (induction E path before after rule: diff_removed.induct) (auto simp del: set_map)

lemma diff_value_empty_iff:
  "wf_json before \<Longrightarrow> wf_json after \<Longrightarrow> diff_value E path before after = [] \<longleftrightarrow> before = after"
  "list_all (\<lambda>kv. wf_json (snd kv)) left \<Longrightarrow> list_all (\<lambda>kv. wf_json (snd kv)) right \<Longrightarrow>
     diff_object E path left right = [] \<longleftrightarrow> (\<forall>(k, v)\<in>set right. map_of left k = Some v)"
proof (induction E path before after and E path left right
    rule: diff_value_diff_object.induct)
  case (1 E path before after)
  show ?case
  proof (cases "is_object before \<and> is_object after")
    case False
    then show ?thesis by (simp add: diff_value_other)
  next
    case True
    then obtain left right where o: "before = JObj left" "after = JObj right"
      by (cases before; cases after) auto
    have obj: "diff_object E path left right = [] \<longleftrightarrow> (\<forall>(k, v)\<in>set right. map_of left k = Some v)"
      using "1.IH" "1.prems" o by simp
    show ?thesis
    proof
      assume "diff_value E path before after = []"
      then have sub: "set (keys left) \<subseteq> set (keys right)"
        and val: "\<forall>(k, v)\<in>set right. map_of left k = Some v"
        using o obj by (simp_all add: diff_removed_empty del: set_map)
      have "map_of left = map_of right"
      proof
        fix k
        show "map_of left k = map_of right k"
        proof (cases "map_of right k")
          case None
          then have "k \<notin> set (keys left)"
            using sub by (metis map_of_None_iff_keys subsetD)
          then have "map_of left k = None" by (simp only: map_of_None_iff_keys not_False_eq_True)
          with None show ?thesis by simp
        next
          case (Some v)
          then show ?thesis using val by (auto dest: map_of_SomeD)
        qed
      qed
      then show "before = after" using "1.prems" o by (auto intro: sorted_keys_ext)
    next
      assume eq: "before = after"
      then have "map_of left k = Some v" if "(k, v) \<in> set right" for k v
        using that "1.prems" o by (auto intro: map_of_sorted_keys)
      then show "diff_value E path before after = []"
        using eq o obj by (auto simp: diff_removed_empty simp del: set_map)
    qed
  qed
next
  case (3 E path before key after_value after)
  show ?case
  proof (cases "map_of before key")
    case None
    then show ?thesis by simp
  next
    case (Some before_value)
    then have "wf_json before_value"
      using "3.prems"(1) by (fastforce simp: list_all_iff dest: map_of_SomeD)
    then show ?thesis using Some "3.IH" "3.prems" by simp
  qed
qed simp

lemma changed_if_empty [simp]: "changed_if b e = [] \<longleftrightarrow> \<not> b"
  by (simp add: changed_if_def)

text \<open>
  Two commits have an empty diff exactly when the JSON views of their payloads are equal
  and so are their summaries, their tags and the numbers of their tool calls, tool results,
  artifacts and side effects: metadata and the contents of tool calls, results, artifacts and
  side effects are never compared.
\<close>

theorem diff_commits_empty_iff:
  assumes "wf_json (payload_to_json E (cm_state_delta a))"
    and "wf_json (payload_to_json E (cm_state_delta b))"
  shows "cd_entries (diff_commits E a b) = [] \<longleftrightarrow>
     payload_to_json E (cm_state_delta a) = payload_to_json E (cm_state_delta b)
     \<and> cm_summary a = cm_summary b \<and> cm_tags a = cm_tags b
     \<and> length (cm_tool_calls a) = length (cm_tool_calls b)
     \<and> length (cm_tool_results a) = length (cm_tool_results b)
     \<and> length (cm_artifact_refs a) = length (cm_artifact_refs b)
     \<and> length (cm_external_side_effects a) = length (cm_external_side_effects b)"
  using diff_value_empty_iff(1) [OF assms, of E "''$''"]
  by (simp add: diff_commits_def Let_def diff_entries_def)

text \<open>Two states that differ in one key of a JSON object.\<close>

definition counter_env :: env where
  "counter_env = example_env\<lparr>json_parse :=
     (\<lambda>t. if t = [] then None else Some (JObj [(''n'', JStr t)]))\<rparr>"

definition counter_commit :: "string \<Rightarrow> commit" where
  "counter_commit n = default_commit\<lparr>cm_commit_id := n, cm_state_delta :=
     Some \<lparr>pl_encoding = 2, pl_data = n, pl_struct_data = None, pl_size_bytes = 1,
           pl_content_hash = [], pl_compressed = False, pl_artifact_ref = []\<rparr>\<rparr>"

lemma counter_payload [simp]:
  "payload_to_json counter_env (cm_state_delta (counter_commit [c])) = JObj [(''n'', JStr [c])]"
  by (simp add: payload_to_json_def counter_commit_def counter_env_def encoding_of_def)

theorem diff_commits_empty_iff_witness:
  "cd_entries (diff_commits counter_env (counter_commit ''1'') (counter_commit ''2'')) \<noteq> []
   \<and> cd_entries (diff_commits counter_env (counter_commit ''1'') (counter_commit ''1'')) = []"
  using diff_commits_empty_iff [of counter_env "counter_commit ''1''" "counter_commit ''2''"]
    diff_commits_empty_iff [of counter_env "counter_commit ''1''" "counter_commit ''1''"]
  by simp

end
