(* ===== verification/Replay.thy ===== *)
theory Replay
  imports Dag Store Diff
begin

text \<open>
  \<open>daemon/src/ledger/replay.rs\<close>: collecting the ancestry of a commit from the store, ordering
  it and merging the JSON views of the payloads.
\<close>

section \<open>merge_value\<close>

text \<open>
  \<open>entry(key).or_insert(Value::Null)\<close> followed by the recursive call through the returned
  reference is one insertion of the merged value.
\<close>

fun merge_value :: "json \<Rightarrow> json \<Rightarrow> json"
  and merge_entries :: "json_map \<Rightarrow> json_map \<Rightarrow> json_map" where
  "merge_value target (JObj patch_map) =
     (case target of
        JObj target_map \<Rightarrow> JObj (merge_entries target_map patch_map)
      | _ \<Rightarrow> JObj patch_map)"
| "merge_value target JNull = JNull"
| "merge_value target (JBool b) = JBool b"
| "merge_value target (JNum n) = JNum n"
| "merge_value target (JStr s) = JStr s"
| "merge_value target (JArr vs) = JArr vs"
| "merge_entries target_map [] = target_map"
| "merge_entries target_map ((key, v) # patch_map) =
     merge_entries
       (btree_insert key (merge_value (unwrap_or JNull (map_of target_map key)) v) target_map)
       patch_map"

section \<open>collect\<close>

text \<open>
  The recursion over the parents has no visited set, so on a cyclic store it would not end:
  the model takes fuel, one unit per level, and \<open>None\<close> is running out of it. A unit stands for one
  frame of the native recursion, which holds the commit it has read; the size of the stack is not
  modelled, and a history that is too deep for it ends the process. Nor is time: an ancestor that
  several children share is read and walked again for each of them.
\<close>

fun fold_result :: "('a \<Rightarrow> 's \<Rightarrow> 's result option) \<Rightarrow> 'a list \<Rightarrow> 's \<Rightarrow> 's result option" where
  "fold_result f [] s = Some (Inr s)"
| "fold_result f (x # xs) s =
     (case f x s of
        None \<Rightarrow> None
      | Some (Inl e) \<Rightarrow> Some (Inl e)
      | Some (Inr s') \<Rightarrow> fold_result f xs s')"

fun collect :: "(string \<Rightarrow> commit option result) \<Rightarrow> nat \<Rightarrow> string \<Rightarrow> commit list \<Rightarrow> commit list result option" where
  "collect get 0 commit_id out = None"
| "collect get (Suc fuel) commit_id out =
     (case get commit_id of
        Inl e \<Rightarrow> Some (Inl e)
      | Inr None \<Rightarrow> Some (Inl (Anyhow (''commit '' @ commit_id @ '' not found'')))
      | Inr (Some commit) \<Rightarrow>
          (case fold_result (collect get fuel) (cm_parent_commit_ids commit) out of
             None \<Rightarrow> None
           | Some (Inl e) \<Rightarrow> Some (Inl e)
           | Some (Inr out') \<Rightarrow>
               Some (Inr
                 (if \<exists>existing\<in>set out'. cm_commit_id existing = cm_commit_id commit
                  then out' else out' @ [commit]))))"

definition ancestry_commits :: "env \<Rightarrow> sqlite_store \<Rightarrow> nat \<Rightarrow> string \<Rightarrow> commit list result option" where
  "ancestry_commits E s fuel commit_id = collect (get_commit E s) fuel commit_id []"

section \<open>replay\<close>

text \<open>\<open>sort_by_key\<close> is stable; the key is a \<open>u64\<close> and an \<open>i64\<close>.\<close>

definition replay_key :: "commit \<Rightarrow> nat \<times> int" where
  "replay_key c = (unat (cm_logical_clock c), sint (seconds_of (cm_wall_time c)))"

definition side_effect_warning :: "external_side_effect \<Rightarrow> string" where
  "side_effect_warning e =
     ''External side effect '' @ [CHR 0x27] @ se_side_effect_id e @ [CHR 0x27] @ '' of kind ''
     @ [CHR 0x27] @ se_kind e @ [CHR 0x27]
     @ '' is irreversible unless an adapter supplies a compensating action.''"

definition replay_state :: "env \<Rightarrow> commit list \<Rightarrow> json" where
  "replay_state E commits =
     fold (\<lambda>commit state. merge_value state (payload_to_json E (cm_state_delta commit))) commits (JObj [])"

definition json_payload :: "env \<Rightarrow> bytes \<Rightarrow> payload" where
  "json_payload E bs =
     \<lparr>pl_encoding = encoding_i32 EncJson, pl_data = bs, pl_struct_data = None,
      pl_size_bytes = of_nat (length bs), pl_content_hash = blake3_hex E bs,
      pl_compressed = False, pl_artifact_ref = []\<rparr>"

definition replay_result_of :: "env \<Rightarrow> string \<Rightarrow> commit list \<Rightarrow> replay_result result" where
  "replay_result_of E commit_id commits =
     and_then (json_print E (replay_state E commits)) (\<lambda>bs. Inr
       \<lparr>rs_commit_id = commit_id,
        rs_reconstructed_state = Some (json_payload E bs),
        rs_messages = [],
        rs_tool_outputs = concat (map cm_tool_results commits),
        rs_artifacts = concat (map cm_artifact_refs commits),
        rs_side_effect_warnings =
          concat (map (\<lambda>c. map side_effect_warning (cm_external_side_effects c)) commits),
        rs_provenance_commit_ids = map cm_commit_id commits,
        rs_missing_artifact_warnings = []\<rparr>)"

definition replay :: "env \<Rightarrow> sqlite_store \<Rightarrow> nat \<Rightarrow> replay_request \<Rightarrow> replay_result result option" where
  "replay E s fuel request =
     (let mode = unwrap_or ModeStateOnly (replay_mode_of (rq_mode request)) in
      if mode = ModeReexecuteTools \<and> \<not> rq_confirm_reexecute_tools request
      then Some (Inl (Anyhow ''reexecute_tools requires explicit confirmation''))
      else (case ancestry_commits E s fuel (rq_commit_id request) of
              None \<Rightarrow> None
            | Some (Inl e) \<Rightarrow> Some (Inl e)
            | Some (Inr commits) \<Rightarrow>
                Some (replay_result_of E (rq_commit_id request) (sort_key replay_key commits))))"

section \<open>The history as a graph\<close>

definition hist_edges :: "(string \<Rightarrow> commit option) \<Rightarrow> (string \<times> string) set" where
  "hist_edges h = {(i, p). \<exists>c. h i = Some c \<and> p \<in> set (cm_parent_commit_ids c)}"

text \<open>A history whose parents are all stored and whose edges have no cycle.\<close>

definition history_ok :: "(string \<Rightarrow> commit option) \<Rightarrow> bool" where
  "history_ok h \<longleftrightarrow> finite (dom h) \<and> acyclic (hist_edges h)
     \<and> (\<forall>i c. h i = Some c \<longrightarrow> cm_commit_id c = i \<and> set (cm_parent_commit_ids c) \<subseteq> dom h)"

lemma hist_edges_Image: "h i = Some c \<Longrightarrow> hist_edges h `` {i} = set (cm_parent_commit_ids c)"
  by (auto simp: hist_edges_def)

lemma hist_edges_dom: "history_ok h \<Longrightarrow> (i, p) \<in> hist_edges h \<Longrightarrow> i \<in> dom h \<and> p \<in> dom h"
  unfolding hist_edges_def history_ok_def by blast

lemma ancestors_dom:
  assumes "history_ok h"
  shows "(hist_edges h)\<^sup>+ `` {i} \<subseteq> dom h"
proof
  fix p assume "p \<in> (hist_edges h)\<^sup>+ `` {i}"
  then have "(i, p) \<in> (hist_edges h)\<^sup>+" by simp
  then show "p \<in> dom h" by (cases rule: tranclE) (use hist_edges_dom [OF assms] in blast)+
qed

definition depth :: "(string \<Rightarrow> commit option) \<Rightarrow> string \<Rightarrow> nat" where
  "depth h i = card ((hist_edges h)\<^sup>+ `` {i})"

lemma depth_parent:
  assumes "history_ok h" "(i, p) \<in> hist_edges h"
  shows "depth h p < depth h i"
proof -
  have fin: "finite ((hist_edges h)\<^sup>+ `` {i})"
    using ancestors_dom [OF assms(1)] assms(1) unfolding history_ok_def by (blast intro: finite_subset)
  have "(hist_edges h)\<^sup>+ `` {p} \<subseteq> (hist_edges h)\<^sup>+ `` {i}"
    using assms(2) by (auto intro: trancl_into_trancl2)
  moreover have "p \<in> (hist_edges h)\<^sup>+ `` {i}" using assms(2) by blast
  moreover have "p \<notin> (hist_edges h)\<^sup>+ `` {p}"
    using assms(1) by (auto simp: history_ok_def acyclic_def)
  ultimately have "(hist_edges h)\<^sup>+ `` {p} \<subset> (hist_edges h)\<^sup>+ `` {i}" by blast
  with fin show ?thesis unfolding depth_def by (rule psubset_card_mono)
qed

lemma depth_bound: "history_ok h \<Longrightarrow> i \<in> dom h \<Longrightarrow> depth h i < card (dom h)"
proof -
  assume h: "history_ok h" and i: "i \<in> dom h"
  have "i \<notin> (hist_edges h)\<^sup>+ `` {i}" using h by (auto simp: history_ok_def acyclic_def)
  then have "(hist_edges h)\<^sup>+ `` {i} \<subset> dom h" using ancestors_dom [OF h, of i] i by blast
  moreover have "finite (dom h)" using h by (simp add: history_ok_def)
  ultimately show "depth h i < card (dom h)" unfolding depth_def by (metis psubset_card_mono)
qed

section \<open>collect returns the ancestors, parents first\<close>

definition collected :: "(string \<Rightarrow> commit option) \<Rightarrow> commit list \<Rightarrow> bool" where
  "collected h out \<longleftrightarrow> (\<forall>c\<in>set out. h (cm_commit_id c) = Some c)
     \<and> distinct (map cm_commit_id out) \<and> parents_first (hist_edges h) {} (map cm_commit_id out)"

lemma collected_Nil [simp]: "collected h []"
  by (simp add: collected_def)

lemma rtrancl_Image_step: "(R\<^sup>*) `` {i} = insert i ((R\<^sup>*) `` (R `` {i}))"
  by (auto elim: converse_rtranclE intro: converse_rtrancl_into_rtrancl)

lemma collected_snoc:
  assumes "collected h out" "h (cm_commit_id c) = Some c"
    and "cm_commit_id c \<notin> cm_commit_id ` set out"
    and "set (cm_parent_commit_ids c) \<subseteq> cm_commit_id ` set out"
  shows "collected h (out @ [c])"
  using assms hist_edges_Image [of h "cm_commit_id c" c]
  by (auto simp: collected_def parents_first_append)

lemma fold_collect_ok:
  assumes "\<And>p out. p \<in> set ps \<Longrightarrow> collected h out \<Longrightarrow>
      \<exists>out'. f p out = Some (Inr out') \<and> collected h out'
         \<and> cm_commit_id ` set out' = cm_commit_id ` set out \<union> (hist_edges h)\<^sup>* `` {p}"
    and "collected h out"
  shows "\<exists>out'. fold_result f ps out = Some (Inr out') \<and> collected h out'
         \<and> cm_commit_id ` set out' = cm_commit_id ` set out \<union> (hist_edges h)\<^sup>* `` set ps"
  using assms
proof (induction ps arbitrary: out)
  case (Cons p ps)
  from Cons.prems(1) [of p out] Cons.prems(2) obtain o1 where
    o1: "f p out = Some (Inr o1)" "collected h o1"
      "cm_commit_id ` set o1 = cm_commit_id ` set out \<union> (hist_edges h)\<^sup>* `` {p}"
    by auto
  have "\<exists>o2. fold_result f ps o1 = Some (Inr o2) \<and> collected h o2
      \<and> cm_commit_id ` set o2 = cm_commit_id ` set o1 \<union> (hist_edges h)\<^sup>* `` set ps"
    using Cons.prems(1) o1(2) by (intro Cons.IH) simp_all
  with o1 show ?case by auto
qed simp

lemma collect_ok:
  assumes "history_ok h" "\<And>j. get j = Inr (h j)"
  shows "h i = Some c \<Longrightarrow> depth h i < fuel \<Longrightarrow> collected h out \<Longrightarrow>
    \<exists>out'. collect get fuel i out = Some (Inr out') \<and> collected h out'
      \<and> cm_commit_id ` set out' = cm_commit_id ` set out \<union> (hist_edges h)\<^sup>* `` {i}"
proof (induction fuel arbitrary: i c out)
  case (Suc fuel)
  let ?R = "hist_edges h" and ?ps = "cm_parent_commit_ids c"
  have c: "cm_commit_id c = i" "set ?ps \<subseteq> dom h"
    using assms(1) Suc.prems(1) unfolding history_ok_def by blast+
  have img: "?R `` {i} = set ?ps" using Suc.prems(1) by (rule hist_edges_Image)
  have step: "\<exists>out'. collect get fuel p out = Some (Inr out') \<and> collected h out'
      \<and> cm_commit_id ` set out' = cm_commit_id ` set out \<union> ?R\<^sup>* `` {p}"
    if p: "p \<in> set ?ps" and out: "collected h out" for p out
  proof -
    obtain d where d: "h p = Some d" using p c(2) by blast
    have "(i, p) \<in> ?R" using p img by blast
    then have "depth h p < depth h i" using assms(1) by (rule depth_parent [rotated])
    then have "depth h p < fuel" using Suc.prems(2) by simp
    from Suc.IH [OF d this out] show ?thesis .
  qed
  obtain o1 where o1: "fold_result (collect get fuel) ?ps out = Some (Inr o1)" "collected h o1"
      "cm_commit_id ` set o1 = cm_commit_id ` set out \<union> ?R\<^sup>* `` set ?ps"
    using fold_collect_ok [OF step Suc.prems(3)] by blast
  have anc: "?R\<^sup>* `` {i} = insert i (?R\<^sup>* `` set ?ps)"
    using rtrancl_Image_step [of ?R i] img by simp
  show ?case
  proof (cases "i \<in> cm_commit_id ` set o1")
    case True
    then have "collect get (Suc fuel) i out = Some (Inr o1)"
      using assms(2) Suc.prems(1) o1(1) c(1) by auto
    with o1 anc True show ?thesis by auto
  next
    case False
    then have "\<not> (\<exists>existing\<in>set o1. cm_commit_id existing = cm_commit_id c)"
      using c(1) by (metis image_eqI)
    then have run: "collect get (Suc fuel) i out = Some (Inr (o1 @ [c]))"
      using assms(2) Suc.prems(1) o1(1) by simp
    have "set ?ps \<subseteq> cm_commit_id ` set o1" using o1(3) by auto
    with o1(2) False Suc.prems(1) c(1) have "collected h (o1 @ [c])"
      by (intro collected_snoc) simp_all
    with run o1(3) anc c(1) show ?thesis by auto
  qed
qed simp

text \<open>The store is acyclic and closed under parents, and reads do not fail.\<close>

definition replayable :: "env \<Rightarrow> sqlite_store \<Rightarrow> bool" where
  "replayable E s \<longleftrightarrow> store_ok E s \<and> history_ok (history E s)"

lemma card_history:
  assumes "store_ok E s"
  shows "card (dom (history E s)) \<le> length (st_commits s)"
proof -
  have "dom (history E s) = set (map row_commit_id (st_commits s))"
    using history_None_iff [OF assms] unfolding set_eq_iff domIff by metis
  then have "card (dom (history E s)) = card (set (map row_commit_id (st_commits s)))" by simp
  also have "\<dots> \<le> length (map row_commit_id (st_commits s))" by (rule card_length)
  finally show ?thesis by simp
qed

lemma ancestry_commits_ok:
  assumes "replayable E s" "\<And>j. db_fault E (DbGetCommit j) = None"
    and "history E s i = Some c" "length (st_commits s) \<le> fuel"
  shows "\<exists>cs. ancestry_commits E s fuel i = Some (Inr cs) \<and> collected (history E s) cs
     \<and> cm_commit_id ` set cs = (hist_edges (history E s))\<^sup>* `` {i}"
proof -
  have s: "store_ok E s" "history_ok (history E s)" using assms(1) by (simp_all add: replayable_def)
  have get: "get_commit E s j = Inr (history E s j)" for j
    using s(1) assms(2) by (simp add: get_commit_ok)
  have "depth (history E s) i < card (dom (history E s))"
    using s(2) assms(3) by (intro depth_bound) auto
  then have "depth (history E s) i < fuel" using card_history [OF s(1)] assms(4) by simp
  from collect_ok [OF s(2) get assms(3) this collected_Nil]
  show ?thesis by (simp add: ancestry_commits_def)
qed

section \<open>How deep the recursion goes\<close>

text \<open>On a store that may lack parents: the number of stored proper ancestors.\<close>

definition stored_depth :: "(string \<Rightarrow> commit option) \<Rightarrow> string \<Rightarrow> nat" where
  "stored_depth h i = card ((hist_edges h)\<^sup>+ `` {i} \<inter> dom h)"

lemma stored_depth_parent:
  assumes "finite (dom h)" "acyclic (hist_edges h)" "(i, p) \<in> hist_edges h" "p \<in> dom h"
  shows "stored_depth h p < stored_depth h i"
proof -
  have "(hist_edges h)\<^sup>+ `` {p} \<subseteq> (hist_edges h)\<^sup>+ `` {i}"
    using assms(3) by (auto intro: trancl_into_trancl2)
  moreover have "p \<in> (hist_edges h)\<^sup>+ `` {i}" using assms(3) by blast
  moreover have "p \<notin> (hist_edges h)\<^sup>+ `` {p}" using assms(2) by (auto simp: acyclic_def)
  ultimately have "(hist_edges h)\<^sup>+ `` {p} \<inter> dom h \<subset> (hist_edges h)\<^sup>+ `` {i} \<inter> dom h"
    using assms(4) by blast
  moreover have "finite ((hist_edges h)\<^sup>+ `` {i} \<inter> dom h)" using assms(1) by blast
  ultimately show ?thesis unfolding stored_depth_def by (rule psubset_card_mono [rotated])
qed

lemma stored_depth_bound:
  assumes "finite (dom h)" "acyclic (hist_edges h)" "i \<in> dom h"
  shows "stored_depth h i < card (dom h)"
proof -
  have "i \<notin> (hist_edges h)\<^sup>+ `` {i}" using assms(2) by (auto simp: acyclic_def)
  then have "(hist_edges h)\<^sup>+ `` {i} \<inter> dom h \<subset> dom h" using assms(3) by blast
  then show ?thesis unfolding stored_depth_def using assms(1) by (metis psubset_card_mono)
qed

lemma fold_result_returns:
  "(\<And>x s. x \<in> set xs \<Longrightarrow> f x s \<noteq> None) \<Longrightarrow> fold_result f xs s \<noteq> None"
  by (induction xs arbitrary: s) (auto split: option.splits sum.splits)

text \<open>Missing parents and failing reads included, the recursion comes back.\<close>

lemma collect_returns:
  assumes "finite (dom h)" "acyclic (hist_edges h)" "\<And>j c. get j = Inr c \<Longrightarrow> c = h j"
  shows "(i \<in> dom h \<longrightarrow> Suc (stored_depth h i) < fuel) \<Longrightarrow> 0 < fuel \<Longrightarrow> collect get fuel i out \<noteq> None"
proof (induction fuel arbitrary: i out)
  case (Suc fuel)
  show ?case
  proof (cases "get i")
    case (Inr found)
    show ?thesis
    proof (cases found)
      case (Some c)
      have c: "h i = Some c" using assms(3) [OF Inr] Some by simp
      then have fuel: "stored_depth h i < fuel" using Suc.prems(1) by auto
      have "collect get fuel p out \<noteq> None" if p: "p \<in> set (cm_parent_commit_ids c)" for p out
      proof (rule Suc.IH)
        have "(i, p) \<in> hist_edges h" using c p by (auto simp: hist_edges_def)
        then show "p \<in> dom h \<longrightarrow> Suc (stored_depth h p) < fuel"
          using stored_depth_parent [OF assms(1,2)] fuel by fastforce
      qed (use fuel in simp)
      then have "fold_result (collect get fuel) (cm_parent_commit_ids c) out \<noteq> None"
        by (rule fold_result_returns)
      then show ?thesis using Inr Some by (auto split: sum.splits)
    qed (use Inr in simp)
  qed simp
qed simp

lemma fold_result_each:
  "fold_result f xs s = Some (Inr s') \<Longrightarrow> x \<in> set xs \<Longrightarrow> \<exists>t t'. f x t = Some (Inr t')"
  by (induction xs arbitrary: s) (auto split: option.splits sum.splits)

text \<open>A walk that succeeds has been as deep as any chain of ancestors.\<close>

lemma collect_nests:
  assumes "\<And>j. get j = Inr (h j)"
  shows "collect get fuel i out = Some (Inr cs) \<Longrightarrow> (i, p) \<in> hist_edges h ^^ n \<Longrightarrow> n < fuel"
proof (induction fuel arbitrary: i out cs n)
  case (Suc fuel)
  show ?case
  proof (cases n)
    case (Suc m)
    then obtain q where q: "(i, q) \<in> hist_edges h" "(q, p) \<in> hist_edges h ^^ m"
      using Suc.prems(2) relpow_Suc_D2 by metis
    then obtain c where c: "h i = Some c" "q \<in> set (cm_parent_commit_ids c)" by (auto simp: hist_edges_def)
    obtain out' where "fold_result (collect get fuel) (cm_parent_commit_ids c) out = Some (Inr out')"
      using Suc.prems(1) c(1) assms [of i] by (auto split: option.splits sum.splits)
    then obtain t t' where "collect get fuel q t = Some (Inr t')" using c(2) fold_result_each by metis
    from Suc.IH [OF this q(2)] show ?thesis using Suc by simp
  qed simp
qed simp

lemma replay_returns:
  assumes "store_ok E s" "acyclic (hist_edges (history E s))" "length (st_commits s) < fuel"
  shows "replay E s fuel request \<noteq> None"
proof -
  have fin: "finite (dom (history E s))"
  proof -
    have "dom (history E s) = set (map row_commit_id (st_commits s))"
      using history_None_iff [OF assms(1)] unfolding set_eq_iff domIff by metis
    then show ?thesis by simp
  qed
  have "Suc (stored_depth (history E s) i) < fuel" if "i \<in> dom (history E s)" for i
    using stored_depth_bound [OF fin assms(2) that] card_history [OF assms(1)] assms(3) by simp
  then have "ancestry_commits E s fuel i \<noteq> None" for i
    unfolding ancestry_commits_def using get_commit_history [OF assms(1)] assms(3)
    by (intro collect_returns [OF fin assms(2)]) auto
  then obtain x where "ancestry_commits E s fuel (rq_commit_id request) = Some x" by auto
  then show ?thesis by (cases x) (simp_all add: replay_def Let_def)
qed

lemma replay_nests:
  assumes "replay E s fuel request = Some (Inr r)" "store_ok E s" "\<And>j. db_fault E (DbGetCommit j) = None"
    and "(rq_commit_id request, p) \<in> hist_edges (history E s) ^^ n"
  shows "n < fuel"
proof -
  obtain cs where "collect (get_commit E s) fuel (rq_commit_id request) [] = Some (Inr cs)"
    using assms(1) by (auto simp: replay_def Let_def ancestry_commits_def split: if_splits option.splits sum.splits)
  then show ?thesis using assms(2-4) by (intro collect_nests [of "get_commit E s" "history E s"]) (simp_all add: get_commit_ok)
qed

section \<open>Properties of replay\<close>

text \<open>
  Replay's walk over the store is total on an acyclic store that is closed under
  parents: it returns the commit and all its ancestors, each once, every commit after its
  parents. Fuel of one level per stored commit is enough.
\<close>

theorem ancestry_commits_parents_first:
  assumes "replayable E s" "\<And>j. db_fault E (DbGetCommit j) = None"
    and "history E s i = Some c" "length (st_commits s) \<le> fuel"
  shows "\<exists>cs. ancestry_commits E s fuel i = Some (Inr cs)
     \<and> distinct (map cm_commit_id cs)
     \<and> set (map cm_commit_id cs) = (hist_edges (history E s))\<^sup>* `` {i}
     \<and> parents_first (hist_edges (history E s)) {} (map cm_commit_id cs)"
  using ancestry_commits_ok [OF assms] by (auto simp: collected_def)

text \<open>The order in which replay applies the commits.\<close>

lemma parents_first_sorted:
  assumes "distinct (map cm_commit_id cs)"
    and "\<And>c p. c \<in> set cs \<Longrightarrow> p \<in> R `` {cm_commit_id c} \<Longrightarrow>
           \<exists>d\<in>set cs. cm_commit_id d = p \<and> replay_key d < replay_key c"
    and "sorted (map replay_key cs)"
  shows "parents_first R {} (map cm_commit_id cs)"
proof -
  have "parents_first R {} (map cm_commit_id (take n cs))" if "n \<le> length cs" for n
    using that
  proof (induction n)
    case (Suc n)
    then have n: "n < length cs" by simp
    have sub: "R `` {cm_commit_id (cs ! n)} \<subseteq> cm_commit_id ` set (take n cs)"
    proof
      fix p assume "p \<in> R `` {cm_commit_id (cs ! n)}"
      then obtain d where d: "d \<in> set cs" "cm_commit_id d = p" "replay_key d < replay_key (cs ! n)"
        using assms(2) [of "cs ! n" p] n by auto
      from d(1) obtain m where m: "m < length cs" "d = cs ! m" unfolding in_set_conv_nth by blast
      have "m < n"
      proof (rule ccontr)
        assume "\<not> m < n"
        then have "map replay_key cs ! n \<le> map replay_key cs ! m"
          using assms(3) m(1) by (intro sorted_nth_mono) simp_all
        then have "replay_key (cs ! n) \<le> replay_key d" using n m by simp
        with d(3) show False by (simp add: not_le [symmetric] del: not_le)
      qed
      then have "d \<in> set (take n cs)" using m n by (auto simp: in_set_conv_nth intro!: exI [of _ m])
      with d(2) show "p \<in> cm_commit_id ` set (take n cs)" by blast
    qed
    have "take (Suc n) cs = take n cs @ [cs ! n]" using n by (rule take_Suc_conv_app_nth)
    with Suc sub n show ?case by (simp add: parents_first_append)
  qed simp
  from this [of "length cs"] show ?thesis by simp
qed

definition replay_mode_allowed :: "replay_request \<Rightarrow> bool" where
  "replay_mode_allowed request \<longleftrightarrow>
     (replay_mode_of (rq_mode request) = Some ModeReexecuteTools \<longrightarrow> rq_confirm_reexecute_tools request)"

text \<open>Along every edge the clock, or at equal clocks the wall-clock second, grows.\<close>

definition clocks_grow :: "(string \<Rightarrow> commit option) \<Rightarrow> bool" where
  "clocks_grow h \<longleftrightarrow> (\<forall>i c p d. h i = Some c \<and> p \<in> set (cm_parent_commit_ids c) \<and> h p = Some d
     \<longrightarrow> replay_key d < replay_key c)"

lemma replay_ok:
  assumes "replayable E s" "\<And>j. db_fault E (DbGetCommit j) = None"
    and "history E s (rq_commit_id request) = Some c" "length (st_commits s) \<le> fuel"
    and "replay_mode_allowed request"
  shows "\<exists>cs. replay E s fuel request = Some (replay_result_of E (rq_commit_id request) (sort_key replay_key cs))
     \<and> collected (history E s) cs
     \<and> cm_commit_id ` set cs = (hist_edges (history E s))\<^sup>* `` {rq_commit_id request}"
proof -
  obtain cs where cs: "ancestry_commits E s fuel (rq_commit_id request) = Some (Inr cs)"
    "collected (history E s) cs"
    "cm_commit_id ` set cs = (hist_edges (history E s))\<^sup>* `` {rq_commit_id request}"
    using ancestry_commits_ok [OF assms(1-4)] by blast
  have "\<not> (unwrap_or ModeStateOnly (replay_mode_of (rq_mode request)) = ModeReexecuteTools
      \<and> \<not> rq_confirm_reexecute_tools request)"
    using assms(5) by (cases "replay_mode_of (rq_mode request)") (auto simp: replay_mode_allowed_def)
  then have "replay E s fuel request
      = Some (replay_result_of E (rq_commit_id request) (sort_key replay_key cs))"
    using cs(1) by (auto simp: replay_def Let_def)
  with cs show ?thesis by blast
qed

lemma replay_result_fields:
  assumes "replay_result_of E i cs = Inr r"
  shows "rs_provenance_commit_ids r = map cm_commit_id cs"
    and "rs_missing_artifact_warnings r = []"
    and "\<exists>bs. json_print E (replay_state E cs) = Inr bs \<and> rs_reconstructed_state r = Some (json_payload E bs)"
  using assms by (auto simp: replay_result_of_def result_simps)

text \<open>
  Replay is total and complete: on such a store, with the mode allowed and a printer
  that works, it answers with a provenance that lists the commit and all its ancestors, each
  once; and when clocks grow along the edges, every commit is applied after its parents.
\<close>

theorem replay_complete:
  assumes "replayable E s" "\<And>j. db_fault E (DbGetCommit j) = None" "\<And>v. is_ok (json_print E v)"
    and "history E s (rq_commit_id request) = Some c" "length (st_commits s) \<le> fuel"
    and "replay_mode_allowed request"
  shows "\<exists>r. replay E s fuel request = Some (Inr r)
     \<and> distinct (rs_provenance_commit_ids r)
     \<and> set (rs_provenance_commit_ids r) = (hist_edges (history E s))\<^sup>* `` {rq_commit_id request}
     \<and> (clocks_grow (history E s) \<longrightarrow>
          parents_first (hist_edges (history E s)) {} (rs_provenance_commit_ids r))"
proof -
  let ?h = "history E s" and ?i = "rq_commit_id request"
  obtain cs where cs: "replay E s fuel request = Some (replay_result_of E ?i (sort_key replay_key cs))"
    "collected ?h cs" "cm_commit_id ` set cs = (hist_edges ?h)\<^sup>* `` {?i}"
    using replay_ok [OF assms(1,2,4-6)] by blast
  obtain bs where "json_print E (replay_state E (sort_key replay_key cs)) = Inr bs"
    using assms(3) by (rule is_okE)
  then obtain r where r: "replay_result_of E ?i (sort_key replay_key cs) = Inr r"
    by (simp add: replay_result_of_def)
  have dist: "distinct (map cm_commit_id (sort_key replay_key cs))"
    using cs(2) by (simp add: collected_def distinct_map)
  have mem: "?h (cm_commit_id d) = Some d" if "d \<in> set cs" for d
    using cs(2) that by (simp add: collected_def)
  have "parents_first (hist_edges ?h) {} (map cm_commit_id (sort_key replay_key cs))"
    if grow: "clocks_grow ?h"
  proof (rule parents_first_sorted [OF dist])
    fix d p assume d: "d \<in> set (sort_key replay_key cs)" and p: "p \<in> hist_edges ?h `` {cm_commit_id d}"
    have hd: "?h (cm_commit_id d) = Some d" using mem d by simp
    have "cm_commit_id d \<in> (hist_edges ?h)\<^sup>* `` {?i}" using cs(3) d by auto
    then have "p \<in> (hist_edges ?h)\<^sup>* `` {?i}" using p by (auto intro: rtrancl_into_rtrancl)
    then have "p \<in> cm_commit_id ` set cs" by (simp only: cs(3))
    then obtain q where q: "q \<in> set cs" "cm_commit_id q = p" by blast
    have "p \<in> set (cm_parent_commit_ids d)" using p hd hist_edges_Image by blast
    then have "replay_key q < replay_key d"
      using grow hd mem [OF q(1)] q(2) unfolding clocks_grow_def by blast
    with q show "\<exists>q\<in>set (sort_key replay_key cs). cm_commit_id q = p \<and> replay_key q < replay_key d"
      by auto
  qed simp
  moreover have "set (map cm_commit_id (sort_key replay_key cs)) = (hist_edges ?h)\<^sup>* `` {?i}"
    using cs(3) by simp
  ultimately show ?thesis
    using cs(1) r dist replay_result_fields(1) [OF r] by simp
qed

text \<open>
  Tools are never re-executed without consent: a request whose mode is
  \<open>REEXECUTE_TOOLS\<close> and that does not confirm is refused before the store is read.
\<close>

theorem replay_needs_confirmation:
  assumes "rq_mode request = replay_mode_i32 ModeReexecuteTools" "\<not> rq_confirm_reexecute_tools request"
  shows "replay E s fuel request = Some (Inl (Anyhow ''reexecute_tools requires explicit confirmation''))"
  using assms by (simp add: replay_def Let_def replay_mode_of_def)

theorem replay_needs_confirmation_witness:
  "replay library_env empty_store 0
     \<lparr>rq_commit_id = ''a'', rq_mode = 3, rq_confirm_reexecute_tools = False\<rparr>
   = Some (Inl (Anyhow ''reexecute_tools requires explicit confirmation''))"
  using replay_needs_confirmation
    [of "\<lparr>rq_commit_id = ''a'', rq_mode = 3, rq_confirm_reexecute_tools = False\<rparr>"] by simp

section \<open>A store of two commits\<close>

lemma library_two:
  obtains s1 s2 where
    "append_commit library_env (example_commit ''a'' []) empty_store = Inr s1"
    "append_commit library_env (example_commit ''b'' [''a'']) s1 = Inr s2"
    "store_ok library_env s2"
    "history library_env s2 = [''a'' \<mapsto> example_commit ''a'' [], ''b'' \<mapsto> example_commit ''b'' [''a'']]"
    "length (st_commits s2) = 2"
proof -
  obtain s1 where s1: "append_commit library_env (example_commit ''a'' []) empty_store = Inr s1"
    using library_append by blast
  obtain s2 where s2: "append_commit library_env (example_commit ''b'' [''a'']) s1 = Inr s2"
    using library_append by blast
  have ok1: "store_ok library_env s1" using store_ok_open library_codec(1) s1 by (rule append_commit_ok)
  have ok2: "store_ok library_env s2" using ok1 library_codec(2) s2 by (rule append_commit_ok)
  have h1: "history library_env s1 = [''a'' \<mapsto> example_commit ''a'' []]"
    using append_commit_history [OF store_ok_open library_codec(1) s1] by auto
  have h2: "history library_env s2 = [''a'' \<mapsto> example_commit ''a'' [], ''b'' \<mapsto> example_commit ''b'' [''a'']]"
    using append_commit_history [OF ok1 library_codec(2) s2] h1 by simp
  have "dom (history library_env s2) = set (map row_commit_id (st_commits s2))"
    using history_None_iff [OF ok2] unfolding set_eq_iff domIff by metis
  moreover have "dom (history library_env s2) = {''b'', ''a''}" unfolding h2 by simp
  ultimately have "card (set (map row_commit_id (st_commits s2))) = card {''b'', ''a''}" by metis
  moreover have "distinct (map row_commit_id (st_commits s2))" using ok2 by (simp add: store_ok_def)
  ultimately have "length (map row_commit_id (st_commits s2)) = card {''b'', ''a''}"
    using distinct_card by metis
  then have "length (st_commits s2) = 2" by simp
  with s1 s2 ok2 h2 show ?thesis using that by blast
qed

lemma library_history_ok:
  "history_ok [''a'' \<mapsto> example_commit ''a'' [], ''b'' \<mapsto> example_commit ''b'' [''a'']]"
proof -
  have e: "hist_edges [''a'' \<mapsto> example_commit ''a'' [], ''b'' \<mapsto> example_commit ''b'' [''a'']]
      = {(''b'', ''a'')}"
    by (auto simp: hist_edges_def split: if_splits)
  have "acyclic {(''b'', ''a'')}" by (simp add: acyclic_insert wf_acyclic)
  with e show ?thesis by (simp add: history_ok_def)
qed

theorem ancestry_commits_parents_first_witness:
  "\<exists>s cs. ancestry_commits library_env s 2 ''b'' = Some (Inr cs)
     \<and> parents_first (hist_edges (history library_env s)) {} (map cm_commit_id cs)"
proof -
  obtain s1 s2 where s: "store_ok library_env s2" "length (st_commits s2) = 2"
    "history library_env s2 = [''a'' \<mapsto> example_commit ''a'' [], ''b'' \<mapsto> example_commit ''b'' [''a'']]"
    using library_two by metis
  then have "replayable library_env s2" by (simp add: replayable_def library_history_ok)
  then have "\<exists>cs. ancestry_commits library_env s2 2 ''b'' = Some (Inr cs)
      \<and> distinct (map cm_commit_id cs)
      \<and> set (map cm_commit_id cs) = (hist_edges (history library_env s2))\<^sup>* `` {''b''}
      \<and> parents_first (hist_edges (history library_env s2)) {} (map cm_commit_id cs)"
    using s by (intro ancestry_commits_parents_first [of _ _ _ "example_commit ''b'' [''a'']"]) simp_all
  then show ?thesis by blast
qed

theorem replay_complete_witness:
  "\<exists>s r. replay library_env s 2 \<lparr>rq_commit_id = ''b'', rq_mode = 1, rq_confirm_reexecute_tools = False\<rparr>
     = Some (Inr r) \<and> set (rs_provenance_commit_ids r) = {''a'', ''b''}"
proof -
  let ?q = "\<lparr>rq_commit_id = ''b'', rq_mode = 1, rq_confirm_reexecute_tools = False\<rparr>"
  obtain s1 s2 where s: "store_ok library_env s2" "length (st_commits s2) = 2"
    "history library_env s2 = [''a'' \<mapsto> example_commit ''a'' [], ''b'' \<mapsto> example_commit ''b'' [''a'']]"
    using library_two by metis
  have r: "replayable library_env s2" using s by (simp add: replayable_def library_history_ok)
  have p: "is_ok (json_print library_env v)" for v by (simp add: library_env_def example_env_def)
  have "hist_edges (history library_env s2) = {(''b'', ''a'')}"
    using s(3) by (auto simp: hist_edges_def split: if_splits)
  then have "(hist_edges (history library_env s2))\<^sup>* `` {''b''} = {''a'', ''b''}"
    by (auto elim: converse_rtranclE)
  with replay_complete [OF r _ p, of ?q "example_commit ''b'' [''a'']" 2] s
  show ?thesis by (auto simp: replay_mode_allowed_def replay_mode_of_def)
qed

section \<open>Merging\<close>

text \<open>The value at a path of keys.\<close>

fun value_at :: "json \<Rightarrow> string list \<Rightarrow> json option" where
  "value_at v [] = Some v"
| "value_at (JObj m) (k # ks) = (case map_of m k of None \<Rightarrow> None | Some v \<Rightarrow> value_at v ks)"
| "value_at _ (k # ks) = None"

lemma merge_value_leaf: "\<not> is_object v \<Longrightarrow> merge_value t v = v"
  by (cases v) simp_all

lemma map_of_merge_entries:
  assumes "sorted_keys p"
  shows "map_of (merge_entries m p) k =
    (case map_of p k of None \<Rightarrow> map_of m k
     | Some v \<Rightarrow> Some (merge_value (unwrap_or JNull (map_of m k)) v))"
  using assms
proof (induction p arbitrary: m)
  case (Cons kv p)
  obtain j v where kv: "kv = (j, v)" by (cases kv)
  have "map_of p j = None" using Cons.prems kv by (auto simp only: map_of_None_iff_keys sorted_keys_Cons)
  with Cons kv show ?case by (auto simp: table_simps split: option.splits)
qed simp

lemma sorted_keys_merge_entries [simp]: "sorted_keys m \<Longrightarrow> sorted_keys (merge_entries m p)"
  by (induction p arbitrary: m) auto

lemma merge_wf:
  "wf_json t \<Longrightarrow> wf_json v \<Longrightarrow> wf_json (merge_value t v)"
  "wf_json (JObj m) \<Longrightarrow> list_all (\<lambda>kv. wf_json (snd kv)) p \<Longrightarrow> wf_json (JObj (merge_entries m p))"
proof (induction t v and m p rule: merge_value_merge_entries.induct)
  case (1 target patch_map)
  then show ?case by (cases target) simp_all
next
  case (8 target_map key v patch_map)
  have "wf_json (unwrap_or JNull (map_of target_map key))"
    using "8.prems"(1) wf_json_lookup by (cases "map_of target_map key") auto
  then have "wf_json (merge_value (unwrap_or JNull (map_of target_map key)) v)"
    using "8.IH"(1) "8.prems"(2) by simp
  then have "wf_json (JObj (btree_insert key
      (merge_value (unwrap_or JNull (map_of target_map key)) v) target_map))"
    using "8.prems"(1) by (intro wf_json_btree_insert)
  then show ?case using "8.IH"(2) "8.prems"(2) by simp
qed simp_all

text \<open>What the patch sets wins, and what it does not mention survives.\<close>

lemma merge_value_at_patch:
  "wf_json v \<Longrightarrow> value_at v ks = Some x \<Longrightarrow> \<not> is_object x \<Longrightarrow> value_at (merge_value t v) ks = Some x"
proof (induction ks arbitrary: t v)
  case Nil
  then show ?case by (simp add: merge_value_leaf)
next
  case (Cons k ks)
  from Cons.prems(2) obtain p w where p: "v = JObj p" "map_of p k = Some w" "value_at w ks = Some x"
    by (cases v) (auto split: option.splits)
  have w: "wf_json w" using Cons.prems(1) p(1,2) wf_json_lookup by blast
  show ?case
  proof (cases t)
    case (JObj m)
    have "sorted_keys p" using Cons.prems(1) p(1) by simp
    then show ?thesis
      using Cons.IH [OF w p(3) Cons.prems(3)] p JObj by (simp add: map_of_merge_entries)
  qed (use Cons.prems p in simp_all)
qed

lemma merge_keys:
  "sorted_keys p \<Longrightarrow> set (keys (merge_entries m p)) = set (keys m) \<union> set (keys p)"
proof -
  assume p: "sorted_keys p"
  have "k \<in> set (keys (merge_entries m p)) \<longleftrightarrow> k \<in> set (keys m) \<or> k \<in> set (keys p)" for k
    using map_of_merge_entries [OF p, of m k]
      map_of_None_iff_keys [of "merge_entries m p" k] map_of_None_iff_keys [of m k]
      map_of_None_iff_keys [of p k]
    by (cases "map_of p k") (simp_all del: set_map)
  then show ?thesis by blast
qed

text \<open>Merging the same patch again changes nothing.\<close>

lemma merge_entries_fixed:
  assumes "sorted_keys m" "\<And>k v. (k, v) \<in> set p \<Longrightarrow> \<exists>w. map_of m k = Some w \<and> merge_value w v = w"
  shows "merge_entries m p = m"
  using assms(2)
proof (induction p)
  case (Cons kv p)
  obtain k v where kv: "kv = (k, v)" by (cases kv)
  obtain w where w: "map_of m k = Some w" "merge_value w v = w" using Cons.prems [of k v] kv by auto
  have "btree_insert k w m = m" using assms(1) w(1) by (rule btree_insert_same)
  with Cons w kv show ?case by simp
qed simp

lemma merge_entries_empty:
  "sorted_keys p \<Longrightarrow> (\<forall>j\<in>set (keys m). \<forall>k\<in>set (keys p). j < k) \<Longrightarrow> merge_entries m p = m @ p"
proof (induction p arbitrary: m)
  case (Cons kv p)
  obtain k v where kv: "kv = (k, v)" by (cases kv)
  have last: "\<forall>j\<in>fst ` set m. j < k" using Cons.prems(2) kv by auto
  then have "map_of m k = None" by (force simp: map_of_eq_None_iff)
  then have step: "merge_entries m (kv # p) = merge_entries (m @ [(k, v)]) p"
    using kv btree_insert_last [OF last, of v] by (cases v) simp_all
  have "merge_entries (m @ [(k, v)]) p = (m @ [(k, v)]) @ p"
    using Cons.prems kv by (intro Cons.IH) auto
  with step kv show ?case by simp
qed simp

lemma merge_null: "merge_value JNull v = v"
  by (cases v) simp_all

lemma merge_twice: "wf_json t \<Longrightarrow> wf_json v \<Longrightarrow> merge_value (merge_value t v) v = merge_value t v"
proof (induction v arbitrary: t)
  case (JObj p)
  have p: "sorted_keys p" "\<And>k w. (k, w) \<in> set p \<Longrightarrow> wf_json w"
    using JObj.prems(2) by (auto simp: list_all_iff)
  show ?case
  proof (cases "is_object t")
    case True
    then obtain m where t: "t = JObj m" by (cases t) auto
    have m: "sorted_keys m" using JObj.prems(1) t by simp
    have "\<exists>u. map_of (merge_entries m p) k = Some u \<and> merge_value u w = u" if kw: "(k, w) \<in> set p" for k w
    proof -
      have look: "map_of p k = Some w" using p(1) kw by (rule map_of_sorted_keys)
      have "wf_json (unwrap_or JNull (map_of m k))"
        using JObj.prems(1) t wf_json_lookup by (cases "map_of m k") auto
      then have "merge_value (merge_value (unwrap_or JNull (map_of m k)) w) w
          = merge_value (unwrap_or JNull (map_of m k)) w"
        using JObj.IH [OF kw] p(2) [OF kw] by simp
      with look p(1) show ?thesis by (simp add: map_of_merge_entries)
    qed
    then have "merge_entries (merge_entries m p) p = merge_entries m p"
      using m by (intro merge_entries_fixed) simp_all
    with t show ?thesis by simp
  next
    case False
    then have once: "merge_value t (JObj p) = JObj p" by (cases t) simp_all
    have "\<exists>u. map_of p k = Some u \<and> merge_value u w = u" if kw: "(k, w) \<in> set p" for k w
    proof -
      have "map_of p k = Some w" using p(1) kw by (rule map_of_sorted_keys)
      moreover have "merge_value (merge_value JNull w) w = merge_value JNull w"
        using JObj.IH [OF kw] p(2) [OF kw] by simp
      ultimately show ?thesis by (simp add: merge_null)
    qed
    then have "merge_entries p p = p" using p(1) by (intro merge_entries_fixed) simp_all
    with once show ?thesis by simp
  qed
qed simp_all

section \<open>What the replayed state holds\<close>

abbreviation payload_of :: "env \<Rightarrow> commit \<Rightarrow> json" where
  "payload_of E c \<equiv> payload_to_json E (cm_state_delta c)"

lemma replay_state_snoc [simp]:
  "replay_state E (cs @ [c]) = merge_value (replay_state E cs) (payload_of E c)"
  by (simp add: replay_state_def)

lemma replay_state_wf: "list_all (\<lambda>c. wf_json (payload_of E c)) cs \<Longrightarrow> wf_json (replay_state E cs)"
  by (induction cs rule: rev_induct) (simp_all add: merge_wf, simp add: replay_state_def)

text \<open>
  Claim C27. The last commit wins and is merged once: every value that is not an object and that
  the payload of the last commit holds at some path is in the replayed state at that path, and
  applying the last commit a second time changes nothing.
\<close>

theorem replay_last_wins:
  assumes "list_all (\<lambda>c. wf_json (payload_of E c)) (cs @ [c])"
  shows "(\<forall>ks x. value_at (payload_of E c) ks = Some x \<and> \<not> is_object x \<longrightarrow>
            value_at (replay_state E (cs @ [c])) ks = Some x)
     \<and> replay_state E (cs @ [c, c]) = replay_state E (cs @ [c])"
proof -
  have wf: "wf_json (payload_of E c)" "wf_json (replay_state E cs)"
    using assms by (simp_all add: replay_state_wf)
  have "replay_state E (cs @ [c, c]) = replay_state E ((cs @ [c]) @ [c])" by simp
  also have "\<dots> = replay_state E (cs @ [c])" using wf by (simp only: replay_state_snoc merge_twice)
  finally show ?thesis using merge_value_at_patch [OF wf(1)] by simp
qed

theorem replay_last_wins_witness:
  "value_at (replay_state counter_env [counter_commit ''1'', counter_commit ''2'']) [''n'']
     = Some (JStr ''2'')"
  using replay_last_wins [of counter_env "[counter_commit ''1'']" "counter_commit ''2''"] by simp

text \<open>
  Replay cannot delete: when every payload is an object, the keys of the replayed
  state are exactly the keys that some commit of the ancestry ever set. A key that a diff reports
  as removed is still there after replaying the later commit.
\<close>

theorem replay_keeps_keys:
  assumes "\<And>c. c \<in> set cs \<Longrightarrow> payload_of E c = JObj (state_of c) \<and> sorted_keys (state_of c)"
  shows "\<exists>m. replay_state E cs = JObj m \<and> set (keys m) = (\<Union>c\<in>set cs. set (keys (state_of c)))"
  using assms
proof (induction cs rule: rev_induct)
  case (snoc c cs)
  then obtain m where "replay_state E cs = JObj m"
    "set (keys m) = (\<Union>c\<in>set cs. set (keys (state_of c)))" by auto
  moreover have "payload_of E c = JObj (state_of c)" "sorted_keys (state_of c)"
    using snoc.prems [of c] by simp_all
  ultimately show ?case using merge_keys [of "state_of c" m] by (auto simp del: set_map)
qed (simp add: replay_state_def)

definition keyed_env :: env where
  "keyed_env = example_env\<lparr>json_parse := (\<lambda>t. Some (JObj [(t, JBool True)]))\<rparr>"

lemma keyed_payload [simp]: "payload_of keyed_env (counter_commit k) = JObj [(k, JBool True)]"
  by (simp add: payload_to_json_def counter_commit_def keyed_env_def encoding_of_def)

theorem replay_keeps_keys_witness:
  "(\<exists>m. replay_state keyed_env [counter_commit ''x'', counter_commit ''y''] = JObj m
      \<and> ''x'' \<in> set (keys m))
   \<and> de_change_type (hd (diff_value keyed_env ''$'' (payload_of keyed_env (counter_commit ''x''))
        (payload_of keyed_env (counter_commit ''y'')))) = ''removed''"
proof
  have "\<exists>m. replay_state keyed_env [counter_commit ''x'', counter_commit ''y''] = JObj m
      \<and> set (keys m) = (\<Union>c\<in>set [counter_commit ''x'', counter_commit ''y'']. set (keys
          [(pl_data (the (cm_state_delta c)), JBool True)]))"
    by (rule replay_keeps_keys) (auto simp: counter_commit_def [of "''x''", symmetric]
        counter_commit_def [of "''y''", symmetric], simp_all add: counter_commit_def)
  then show "\<exists>m. replay_state keyed_env [counter_commit ''x'', counter_commit ''y''] = JObj m
      \<and> ''x'' \<in> set (keys m)"
    by (auto simp: counter_commit_def simp del: set_map)
  show "de_change_type (hd (diff_value keyed_env ''$'' (payload_of keyed_env (counter_commit ''x''))
        (payload_of keyed_env (counter_commit ''y'')))) = ''removed''"
    by (simp add: entry_def)
qed

text \<open>
  A JSON payload whose bytes are not inline (the daemon empties them when it moves a
  large payload to an artifact, and the parser rejects empty text) is not restored by replay:
  what it merges instead are the two bookkeeping keys \<open>content_hash\<close> and \<open>size_bytes\<close>, and the
  result carries no warning about the missing artifact.
\<close>

theorem replay_loses_artifact_payload:
  assumes "cm_state_delta c = Some p" "encoding_of (pl_encoding p) = EncJson"
    and "json_parse E (pl_data p) = None"
    and "list_all (\<lambda>c. wf_json (payload_of E c)) cs"
    and "replay_result_of E i (cs @ [c]) = Inr r"
  shows "value_at (replay_state E (cs @ [c])) [''content_hash''] = Some (JStr (pl_content_hash p))
     \<and> value_at (replay_state E (cs @ [c])) [''size_bytes''] = Some (JNum (PosInt (pl_size_bytes p)))
     \<and> rs_missing_artifact_warnings r = []"
proof -
  have view: "payload_of E c = JObj [(''content_hash'', JStr (pl_content_hash p)),
      (''size_bytes'', JNum (PosInt (pl_size_bytes p)))]"
    using assms(1-3) by (simp add: payload_to_json_def json_object_def)
  have "wf_json (payload_of E c)" unfolding view by simp
  from merge_value_at_patch [OF this, of "[''content_hash'']" _ "replay_state E cs"]
    merge_value_at_patch [OF this, of "[''size_bytes'']" _ "replay_state E cs"]
  show ?thesis using replay_result_fields(2) [OF assms(5)] by (simp add: view)
qed

definition artifact_commit :: commit where
  "artifact_commit = default_commit\<lparr>cm_commit_id := ''c'', cm_state_delta :=
     Some \<lparr>pl_encoding = 2, pl_data = [], pl_struct_data = None, pl_size_bytes = 70000,
           pl_content_hash = ''h'', pl_compressed = False, pl_artifact_ref = ''artifact_h''\<rparr>\<rparr>"

theorem replay_loses_artifact_payload_witness:
  "value_at (replay_state counter_env [counter_commit ''1'', artifact_commit]) [''content_hash'']
     = Some (JStr ''h'')"
proof -
  obtain r where r: "replay_result_of counter_env ''c'' ([counter_commit ''1''] @ [artifact_commit]) = Inr r"
    by (simp add: replay_result_of_def counter_env_def example_env_def)
  have "cm_state_delta artifact_commit = Some (the (cm_state_delta artifact_commit))"
    by (simp add: artifact_commit_def)
  moreover have "encoding_of (pl_encoding (the (cm_state_delta artifact_commit))) = EncJson"
    by (simp add: artifact_commit_def encoding_of_def)
  moreover have "json_parse counter_env (pl_data (the (cm_state_delta artifact_commit))) = None"
    by (simp add: artifact_commit_def counter_env_def)
  ultimately have "value_at (replay_state counter_env ([counter_commit ''1''] @ [artifact_commit]))
      [''content_hash''] = Some (JStr (pl_content_hash (the (cm_state_delta artifact_commit))))"
    using replay_loses_artifact_payload [OF _ _ _ _ r] by simp
  then show ?thesis by (simp add: artifact_commit_def)
qed

definition early_commit :: commit where
  "early_commit = (counter_commit ''1'')\<lparr>cm_commit_id := ''a'', cm_logical_clock := 5\<rparr>"

definition late_commit :: commit where
  "late_commit = (counter_commit ''2'')\<lparr>cm_commit_id := ''b'', cm_parent_commit_ids := [''a'']\<rparr>"

definition clock_env :: env where
  "clock_env = counter_env\<lparr>decode_commit :=
     (\<lambda>b. if b = ''a'' then Inr early_commit else if b = ''b'' then Inr late_commit
           else Inl (Anyhow ''decode''))\<rparr>"

lemma commit_payload [simp]:
  "payload_of clock_env early_commit = JObj [(''n'', JStr ''1'')]"
  "payload_of clock_env late_commit = JObj [(''n'', JStr ''2'')]"
  by (simp_all add: payload_to_json_def counter_commit_def counter_env_def encoding_of_def
      clock_env_def early_commit_def late_commit_def)

lemma clock_env_simps [simp]:
  "encode_commit clock_env = cm_commit_id"
  "decode_commit clock_env ''a'' = Inr early_commit" "decode_commit clock_env ''b'' = Inr late_commit"
  "db_fault clock_env op = None" "json_print clock_env v = Inr ''{}''"
  by (simp_all add: clock_env_def counter_env_def example_env_def)

lemma clock_commits [simp]:
  "cm_commit_id early_commit = ''a''" "cm_parent_commit_ids early_commit = []"
  "cm_commit_id late_commit = ''b''" "cm_parent_commit_ids late_commit = [''a'']"
  "replay_key early_commit = (5, 0)" "replay_key late_commit = (0, 0)"
  by (simp_all add: early_commit_def late_commit_def counter_commit_def default_commit_def
      replay_key_def seconds_of_def)

text \<open>
  When clocks do not grow, replay applies a commit before its parent and the older
  state wins: the daemon's own checkpoints have clock 0, so a checkpoint whose parent was
  published with a positive clock is sorted before it.
\<close>

theorem replay_child_before_parent:
  "\<exists>s1 s2 r. append_commit clock_env early_commit empty_store = Inr s1
     \<and> append_commit clock_env late_commit s1 = Inr s2
     \<and> replay clock_env s2 2 \<lparr>rq_commit_id = ''b'', rq_mode = 1, rq_confirm_reexecute_tools = False\<rparr>
         = Some (Inr r)
     \<and> rs_provenance_commit_ids r = [''b'', ''a'']
     \<and> value_at (replay_state clock_env [late_commit, early_commit]) [''n''] = Some (JStr ''1'')"
proof -
  obtain s1 where s1: "append_commit clock_env early_commit empty_store = Inr s1"
    using append_commit_succeeds [of clock_env early_commit] by auto
  obtain s2 where s2: "append_commit clock_env late_commit s1 = Inr s2"
    using append_commit_succeeds [of clock_env late_commit] by auto
  have c: "codec_ok clock_env early_commit" "codec_ok clock_env late_commit"
    by (simp_all add: codec_ok_def)
  have ok1: "store_ok clock_env s1" using store_ok_open c(1) s1 by (rule append_commit_ok)
  have ok2: "store_ok clock_env s2" using ok1 c(2) s2 by (rule append_commit_ok)
  have "history clock_env s1 = [''a'' \<mapsto> early_commit]"
    using append_commit_history [OF store_ok_open c(1) s1] by auto
  then have h: "history clock_env s2 = [''a'' \<mapsto> early_commit, ''b'' \<mapsto> late_commit]"
    using append_commit_history [OF ok1 c(2) s2] by simp
  have get: "get_commit clock_env s2 i = Inr (history clock_env s2 i)" for i
    using ok2 by (simp add: get_commit_ok)
  have "ancestry_commits clock_env s2 2 ''b'' = Some (Inr [early_commit, late_commit])"
    by (simp add: ancestry_commits_def get h numeral_2_eq_2)
  moreover have "sort_key replay_key [early_commit, late_commit] = [late_commit, early_commit]"
    by (simp add: less_prod_def)
  ultimately have "replay clock_env s2 2 \<lparr>rq_commit_id = ''b'', rq_mode = 1, rq_confirm_reexecute_tools = False\<rparr>
      = Some (replay_result_of clock_env ''b'' [late_commit, early_commit])"
    by (simp add: replay_def Let_def replay_mode_of_def)
  moreover obtain r where r: "replay_result_of clock_env ''b'' [late_commit, early_commit] = Inr r"
    by (simp add: replay_result_of_def)
  moreover have "rs_provenance_commit_ids r = [''b'', ''a'']"
    using replay_result_fields(1) [OF r] by simp
  moreover have "value_at (replay_state clock_env [late_commit, early_commit]) [''n''] = Some (JStr ''1'')"
    by (simp add: replay_state_def)
  ultimately show ?thesis using s1 s2 by auto
qed

end
