(* ===== verification/Rollback.thy ===== *)
theory Rollback
  imports Dag Store Replay
begin

text \<open>
  \<open>daemon/src/ledger/rollback.rs\<close> and \<open>fork.rs\<close>: moving a head. Both write through the store, so
  they return the store with the result: a step that fails late leaves the earlier ones in place.
\<close>

section \<open>rollback\<close>

text \<open>\<open>Value::to_string\<close>; printing a value built from strings does not fail.\<close>

definition json_text :: "env \<Rightarrow> json \<Rightarrow> string" where
  "json_text E v = (case json_print E v of Inr t \<Rightarrow> t | Inl _ \<Rightarrow> [])"

definition rollback_warning :: "commit \<Rightarrow> external_side_effect \<Rightarrow> string" where
  "rollback_warning c e =
     ''Commit '' @ cm_commit_id c @ '' includes external side effect '' @ [CHR 0x27] @ se_side_effect_id e
     @ [CHR 0x27] @ '' of kind '' @ [CHR 0x27] @ se_kind e @ [CHR 0x27]
     @ ''. Rollback moves captured logical state only.''"

fun rollback_warnings :: "env \<Rightarrow> sqlite_store \<Rightarrow> string \<Rightarrow> string list \<Rightarrow> string list result" where
  "rollback_warnings E s target [] = Inr []"
| "rollback_warnings E s target (commit_id # ids) =
     (if commit_id = target then Inr []
      else and_then (get_commit E s commit_id) (\<lambda>found.
           and_then (rollback_warnings E s target ids) (\<lambda>ws.
             Inr ((case found of None \<Rightarrow> []
                   | Some c \<Rightarrow> map (rollback_warning c) (cm_external_side_effects c)) @ ws))))"

definition rollback ::
    "env \<Rightarrow> dag_index \<Rightarrow> rollback_request \<Rightarrow> sqlite_store \<Rightarrow> sqlite_store \<times> rollback_response result" where
  "rollback E dag request s =
     (if \<not> rb_force request
         \<and> \<not> is_ancestor dag (rb_target_commit_id request) (rb_head_commit_id request)
      then (s, Inl (Anyhow ''target commit is not an ancestor of the current head; use force to move the head anyway''))
      else
     (case get_commit E s (rb_head_commit_id request) of
        Inl e \<Rightarrow> (s, Inl e)
      | Inr None \<Rightarrow> (s, Inl (Anyhow ''head commit not found''))
      | Inr (Some head) \<Rightarrow>
     (case get_commit E s (rb_target_commit_id request) of
        Inl e \<Rightarrow> (s, Inl e)
      | Inr None \<Rightarrow> (s, Inl (Anyhow ''target commit not found''))
      | Inr (Some target) \<Rightarrow>
     (case rollback_warnings E s (rb_target_commit_id request) (ancestry dag (rb_head_commit_id request)) of
        Inl e \<Rightarrow> (s, Inl e)
      | Inr warnings \<Rightarrow>
     (case set_head E (cm_run_id head) (cm_thread_id head) (cm_agent_id head) (cm_channel head)
             (cm_commit_id target) s of
        Inl e \<Rightarrow> (s, Inl e)
      | Inr s1 \<Rightarrow>
     (case append_event E ''rollback''
             (json_text E (json_object
               [(''previous_head_commit_id'', JStr (cm_commit_id head)),
                (''new_head_commit_id'', JStr (cm_commit_id target)),
                (''warnings'', JArr (map JStr warnings))])) s1 of
        (s2, Inl e) \<Rightarrow> (s2, Inl e)
      | (s2, Inr _) \<Rightarrow>
          (s2, Inr \<lparr>rbr_moved = True,
                    rbr_previous_head_commit_id = rb_head_commit_id request,
                    rbr_new_head_commit_id = rb_target_commit_id request,
                    rbr_warnings = warnings\<rparr>)))))))"

section \<open>fork\<close>

definition fork :: "env \<Rightarrow> fork_request \<Rightarrow> sqlite_store \<Rightarrow> sqlite_store \<times> fork_result result" where
  "fork E request s =
     (case get_commit E s (fq_source_commit_id request) of
        Inl e \<Rightarrow> (s, Inl e)
      | Inr None \<Rightarrow> (s, Inl (Anyhow ''source commit not found''))
      | Inr (Some source) \<Rightarrow>
     (let run_id = (if fq_new_run_id request = [] then new_id E RunSite ''run'' else fq_new_run_id request) in
     (case set_head E run_id (cm_thread_id source) (cm_agent_id source) (cm_channel source)
             (cm_commit_id source) s of
        Inl e \<Rightarrow> (s, Inl e)
      | Inr s1 \<Rightarrow>
     (case append_event E ''fork''
             (json_text E (json_object
               [(''source_commit_id'', JStr (cm_commit_id source)), (''run_id'', JStr run_id)])) s1 of
        (s2, Inl e) \<Rightarrow> (s2, Inl e)
      | (s2, Inr _) \<Rightarrow>
          (s2, Inr \<lparr>fr_source_commit_id = fq_source_commit_id request, fr_run_id = run_id,
                    fr_head_commit_id = fq_source_commit_id request\<rparr>)))))"

section \<open>Effects on the store\<close>

lemma append_event_parts_keep:
  "append_audit E t p s = Inr s' \<Longrightarrow> st_commits s' = st_commits s \<and> st_heads s' = st_heads s"
  "append_rollback E p s = Inr s' \<Longrightarrow> st_commits s' = st_commits s \<and> st_heads s' = st_heads s"
  by (auto simp: append_audit_def append_rollback_def split: option.splits)

lemma append_event_keeps:
  "st_commits (fst (append_event E t p s)) = st_commits s"
  "st_heads (fst (append_event E t p s)) = st_heads s"
  by (simp_all add: append_event_defs split: option.splits)

lemma history_cong: "st_commits a = st_commits b \<Longrightarrow> history E a = history E b"
  by (simp add: history_def fun_eq_iff)

lemma get_head_cong: "st_heads a = st_heads b \<Longrightarrow> get_head E a = get_head E b"
  by (simp add: get_head_def fun_eq_iff)

lemma set_head_commits: "set_head E r t a c i s = Inr s' \<Longrightarrow> st_commits s' = st_commits s"
  by (rule set_head_lookup)

lemma rollback_commits: "st_commits (fst (rollback E dag q s)) = st_commits s"
  by (auto simp: rollback_def append_event_keeps dest!: set_head_commits
      split: sum.splits option.splits prod.splits)
    (metis append_event_keeps(1) fst_conv)+

lemma fork_commits: "st_commits (fst (fork E q s)) = st_commits s"
  by (auto simp: fork_def Let_def append_event_keeps dest!: set_head_commits
      split: sum.splits option.splits prod.splits)
    (metis append_event_keeps(1) fst_conv)+

text \<open>What a successful rollback did, step by step.\<close>

lemma rollback_success:
  assumes "rollback E dag q s = (s', Inr r)"
  obtains head target warnings s1 where
    "rb_force q \<or> is_ancestor dag (rb_target_commit_id q) (rb_head_commit_id q)"
    "get_commit E s (rb_head_commit_id q) = Inr (Some head)"
    "get_commit E s (rb_target_commit_id q) = Inr (Some target)"
    "rollback_warnings E s (rb_target_commit_id q) (ancestry dag (rb_head_commit_id q)) = Inr warnings"
    "set_head E (cm_run_id head) (cm_thread_id head) (cm_agent_id head) (cm_channel head)
       (cm_commit_id target) s = Inr s1"
    "st_heads s' = st_heads s1" "st_commits s' = st_commits s"
    "rbr_warnings r = warnings"
proof -
  have keep: "st_heads s' = st_heads s1" if "append_event E t p s1 = (s', u)" for t p u s1
    using append_event_keeps(2) [of E t p s1] that by simp
  have "st_commits s' = st_commits s"
    using rollback_commits [of E dag q s] assms by simp
  then show ?thesis
    using assms that unfolding rollback_def
    by (auto split: if_splits sum.splits option.splits prod.splits dest!: keep)
qed

lemma warnings_takeWhile:
  assumes "\<And>i. i \<in> set ids \<Longrightarrow> get_commit E s i = Inr (h i)"
  shows "rollback_warnings E s t ids = Inr (concat (map (\<lambda>i. case h i of None \<Rightarrow> []
      | Some c \<Rightarrow> map (rollback_warning c) (cm_external_side_effects c)) (takeWhile (\<lambda>i. i \<noteq> t) ids)))"
  using assms by (induction ids) auto

lemma warnings_reads:
  assumes "rollback_warnings E s t ids = Inr ws"
  shows "\<forall>i\<in>set (takeWhile (\<lambda>i. i \<noteq> t) ids). \<exists>c. get_commit E s i = Inr c"
    and "ws = concat (map (\<lambda>i. case get_commit E s i of Inr (Some c) \<Rightarrow>
        map (rollback_warning c) (cm_external_side_effects c) | _ \<Rightarrow> []) (takeWhile (\<lambda>i. i \<noteq> t) ids))"
  using assms by (induction ids arbitrary: ws) (auto simp: result_simps split: if_splits option.splits)

text \<open>The heads after a rollback, by the key of their row.\<close>

lemma rollback_heads:
  assumes "rollback E dag q s = (s', Inr r)" "store_ok E s"
    and "history E s (rb_head_commit_id q) = Some head" "db_fault E DbGetHead = None"
  shows "get_head E s' run_id thread_id agent_id channel =
       (if head_key run_id thread_id agent_id channel
           = head_key (cm_run_id head) (cm_thread_id head) (cm_agent_id head) (cm_channel head)
        then Inr (Some (rb_target_commit_id q)) else get_head E s run_id thread_id agent_id channel)"
    and "history E s' = history E s"
proof -
  obtain head' target warnings s1 where gets: "get_commit E s (rb_head_commit_id q) = Inr (Some head')"
      "get_commit E s (rb_target_commit_id q) = Inr (Some target)"
    and set_head: "set_head E (cm_run_id head') (cm_thread_id head') (cm_agent_id head')
        (cm_channel head') (cm_commit_id target) s = Inr s1"
    and eqs: "st_heads s' = st_heads s1" "st_commits s' = st_commits s"
    using assms(1) by (rule rollback_success) blast
  have head: "head' = head" using get_commit_history [OF assms(2) gets(1)] assms(3) by simp
  have "cm_commit_id target = rb_target_commit_id q"
    using get_commit_history [OF assms(2) gets(2)] history_id [OF assms(2)] by metis
  then have "get_head E s1 run_id thread_id agent_id channel =
      (if head_key run_id thread_id agent_id channel
          = head_key (cm_run_id head) (cm_thread_id head) (cm_agent_id head) (cm_channel head)
       then Inr (Some (rb_target_commit_id q)) else get_head E s run_id thread_id agent_id channel)"
    using set_head_lookup(1) [OF set_head] assms(4) head by (simp add: get_head_def)
  moreover have "get_head E s' = get_head E s1" using eqs(1) by (rule get_head_cong)
  moreover have "history E s' = history E s" using eqs(2) by (rule history_cong)
  ultimately show "get_head E s' run_id thread_id agent_id channel =
       (if head_key run_id thread_id agent_id channel
           = head_key (cm_run_id head) (cm_thread_id head) (cm_agent_id head) (cm_channel head)
        then Inr (Some (rb_target_commit_id q)) else get_head E s run_id thread_id agent_id channel)"
    "history E s' = history E s" by simp_all
qed

text \<open>
  Claim C28. What a successful rollback does to the heads. The commit that the request names as the
  head decides which head moves: that of its run, thread, agent and channel becomes the target,
  whatever it was before. Without force the target is an ancestor of the commit named in the request;
  the head in the store is not looked at. Heads of other coordinates are as before, as long as no run,
  thread or agent id contains the separator U+001F of the key, and no commit is changed.
\<close>

theorem rollback_moves_head:
  assumes "rollback E dag q s = (s', Inr r)" "store_ok E s"
    and "history E s (rb_head_commit_id q) = Some head" "db_fault E DbGetHead = None"
  shows "(\<not> rb_force q \<longrightarrow> (rb_head_commit_id q, rb_target_commit_id q) \<in> (edges (dg_parents dag))\<^sup>*)
     \<and> get_head E s' (cm_run_id head) (cm_thread_id head) (cm_agent_id head) (cm_channel head)
         = Inr (Some (rb_target_commit_id q))
     \<and> (\<forall>run_id thread_id agent_id channel.
          (run_id, thread_id, agent_id, channel)
            \<noteq> (cm_run_id head, cm_thread_id head, cm_agent_id head, cm_channel head)
          \<and> plain (cm_run_id head) \<and> plain (cm_thread_id head) \<and> plain (cm_agent_id head)
          \<and> plain run_id \<and> plain thread_id \<and> plain agent_id
          \<longrightarrow> get_head E s' run_id thread_id agent_id channel = get_head E s run_id thread_id agent_id channel)
     \<and> history E s' = history E s"
proof -
  have "\<not> rb_force q \<longrightarrow> (rb_head_commit_id q, rb_target_commit_id q) \<in> (edges (dg_parents dag))\<^sup>*"
    using assms(1) by (rule rollback_success) (auto simp: is_ancestor_rtrancl)
  then show ?thesis using rollback_heads [OF assms] by (auto simp: head_key_inject)
qed

text \<open>
  Claim C29. The side-effect warnings of a rollback are about the wrong commits: the walk over the
  ancestry of the head stops at the target, but ancestors are listed before their descendants, so
  every commit it warns about is one that does not have the target among its ancestors. No commit
  between the target and the head, the head included, is ever warned about.
\<close>

theorem rollback_warns_elsewhere:
  assumes "rollback E dag q s = (s', Inr r)" "dag_ok dag" "store_ok E s"
  shows "\<forall>w\<in>set (rbr_warnings r). \<exists>c e. w = rollback_warning c e \<and> e \<in> set (cm_external_side_effects c)
     \<and> history E s (cm_commit_id c) = Some c
     \<and> (cm_commit_id c, rb_target_commit_id q) \<notin> (edges (dg_parents dag))\<^sup>*"
  using assms(1)
proof (rule rollback_success)
  fix head target warnings s1
  assume w: "rollback_warnings E s (rb_target_commit_id q) (ancestry dag (rb_head_commit_id q)) = Inr warnings"
    and r: "rbr_warnings r = warnings"
  show ?thesis
  proof
    fix x assume "x \<in> set (rbr_warnings r)"
    then obtain i where j: "i \<in> set (takeWhile (\<lambda>i. i \<noteq> rb_target_commit_id q) (ancestry dag (rb_head_commit_id q)))"
        "x \<in> set (case get_commit E s i of Inr (Some c) \<Rightarrow>
           map (rollback_warning c) (cm_external_side_effects c) | _ \<Rightarrow> [])"
      unfolding r warnings_reads(2) [OF w] by auto
    then obtain c e where i: "i \<in> set (takeWhile (\<lambda>i. i \<noteq> rb_target_commit_id q) (ancestry dag (rb_head_commit_id q)))"
        "get_commit E s i = Inr (Some c)" "x = rollback_warning c e" "e \<in> set (cm_external_side_effects c)"
      by (cases "get_commit E s i") (auto split: option.splits)
    have h: "history E s i = Some c" using get_commit_history [OF assms(3) i(2)] by simp
    have "cm_commit_id c = i" using history_id [OF assms(3) h] by simp
    moreover have "(i, rb_target_commit_id q) \<notin> (edges (dg_parents dag))\<^sup>*"
      using assms(2) i(1) by (rule dag.before_no_descendant)
    ultimately show "\<exists>c e. x = rollback_warning c e \<and> e \<in> set (cm_external_side_effects c)
        \<and> history E s (cm_commit_id c) = Some c
        \<and> (cm_commit_id c, rb_target_commit_id q) \<notin> (edges (dg_parents dag))\<^sup>*"
      using i(3,4) h by blast
  qed
qed

lemma fork_success:
  assumes "fork E q s = (s', Inr r)"
  obtains source s1 where "get_commit E s (fq_source_commit_id q) = Inr (Some source)"
    "set_head E (fr_run_id r) (cm_thread_id source) (cm_agent_id source) (cm_channel source)
       (cm_commit_id source) s = Inr s1"
    "st_heads s' = st_heads s1" "st_commits s' = st_commits s"
    "fr_run_id r = (if fq_new_run_id q = [] then new_id E RunSite ''run'' else fq_new_run_id q)"
proof -
  have keep: "st_heads s' = st_heads s1" if "append_event E t p s1 = (s', u)" for t p u s1
    using append_event_keeps(2) [of E t p s1] that by simp
  have "st_commits s' = st_commits s" using fork_commits [of E q s] assms by simp
  then show ?thesis
    using assms that unfolding fork_def Let_def
    by (auto split: sum.splits option.splits prod.splits dest!: keep)
qed

text \<open>
  Forking never touches the history, and a fork under a new run id only adds a head: the
  head of the new run is the source commit, with the thread, agent and channel of the source, and
  every head of another run is as before.
\<close>

theorem fork_adds_head:
  assumes "fork E q s = (s', Inr r)" "store_ok E s"
    and "history E s (fq_source_commit_id q) = Some source"
    and "plain (fr_run_id r)" "plain (cm_thread_id source)" "plain (cm_agent_id source)"
    and "plain run_id" "plain thread_id" "plain agent_id" "db_fault E DbGetHead = None"
  shows "get_head E s' run_id thread_id agent_id channel =
       (if (run_id, thread_id, agent_id, channel)
           = (fr_run_id r, cm_thread_id source, cm_agent_id source, cm_channel source)
        then Inr (Some (fq_source_commit_id q))
        else get_head E s run_id thread_id agent_id channel)
     \<and> history E s' = history E s"
  using assms(1)
proof (rule fork_success)
  fix source' s1
  assume get: "get_commit E s (fq_source_commit_id q) = Inr (Some source')"
    and set_head: "set_head E (fr_run_id r) (cm_thread_id source') (cm_agent_id source')
        (cm_channel source') (cm_commit_id source') s = Inr s1"
    and eqs: "st_heads s' = st_heads s1" "st_commits s' = st_commits s"
  have source: "source' = source" using get_commit_history [OF assms(2) get] assms(3) by simp
  have "cm_commit_id source = fq_source_commit_id q" using history_id [OF assms(2,3)] by simp
  then have "get_head E s1 run_id thread_id agent_id channel =
      (if head_key run_id thread_id agent_id channel
          = head_key (fr_run_id r) (cm_thread_id source) (cm_agent_id source) (cm_channel source)
       then Inr (Some (fq_source_commit_id q)) else get_head E s run_id thread_id agent_id channel)"
    using set_head_lookup(1) [OF set_head] assms(10) source by (simp add: get_head_def)
  moreover have "get_head E s' = get_head E s1" using eqs(1) by (rule get_head_cong)
  moreover have "history E s' = history E s" using eqs(2) by (rule history_cong)
  ultimately show ?thesis
    using head_key_inject [OF assms(7-9,4-6), of channel "cm_channel source"] by auto
qed

text \<open>
  A failed rollback may still have moved the head: the head is written before the event,
  so when the audit insert fails the client gets an error and the head is the target all the same.
  In every failure the commits are untouched.
\<close>

theorem rollback_error_after_move:
  assumes "db_fault E DbAppendAudit = Some e" "db_fault E DbSetHead = None" "db_fault E DbGetHead = None"
    and "\<And>i. db_fault E (DbGetCommit i) = None" "store_ok E s"
    and "history E s (rb_head_commit_id q) = Some head"
    and "history E s (rb_target_commit_id q) = Some target"
    and "rb_force q \<or> is_ancestor dag (rb_target_commit_id q) (rb_head_commit_id q)"
  shows "snd (rollback E dag q s) = Inl e
     \<and> get_head E (fst (rollback E dag q s)) (cm_run_id head) (cm_thread_id head) (cm_agent_id head)
         (cm_channel head) = Inr (Some (rb_target_commit_id q))
     \<and> st_commits (fst (rollback E dag q s)) = st_commits s"
proof -
  have get: "get_commit E s i = Inr (history E s i)" for i
    using assms(4,5) by (simp add: get_commit_ok)
  obtain ws where ws: "rollback_warnings E s (rb_target_commit_id q) (ancestry dag (rb_head_commit_id q)) = Inr ws"
    using warnings_takeWhile [of _ E s "history E s"] get by blast
  obtain s1 where s1: "set_head E (cm_run_id head) (cm_thread_id head) (cm_agent_id head)
      (cm_channel head) (cm_commit_id target) s = Inr s1"
    using assms(2) by (simp add: set_head_def Let_def)
  have "cm_commit_id target = rb_target_commit_id q" using history_id [OF assms(5,7)] by simp
  moreover have "rollback E dag q s = (s1, Inl e)"
    using assms(1,6-8) get ws s1 by (auto simp: rollback_def append_event_defs)
  ultimately show ?thesis
    using set_head_lookup [OF s1] assms(3) by (simp add: get_head_def)
qed

section \<open>A head with a side effect\<close>

definition wire_transfer :: external_side_effect where
  "wire_transfer = \<lparr>se_side_effect_id = ''x1'', se_kind = ''payment'', se_description = [], se_target = [],
     se_payload_summary = [], se_occurred_at = None, se_reversible = False,
     se_compensating_action_available = False, se_metadata = None\<rparr>"

definition chain :: "commit list" where
  "chain = [(example_commit ''a'' [])\<lparr>cm_external_side_effects := [wire_transfer]\<rparr>,
            example_commit ''b'' [''a''],
            (example_commit ''c'' [''b''])\<lparr>cm_external_side_effects := [wire_transfer]\<rparr>]"

definition chain_dag :: dag_index where
  "chain_dag = \<lparr>dg_parents = [(''a'', []), (''b'', [''a'']), (''c'', [''b''])], dg_children = []\<rparr>"

definition back_to :: "string \<Rightarrow> rollback_request" where
  "back_to t = \<lparr>rb_head_commit_id = ''c'', rb_target_commit_id = t, rb_force = False\<rparr>"

lemma back_to_simps [simp]:
  "rb_head_commit_id (back_to t) = ''c''" "rb_target_commit_id (back_to t) = t" "\<not> rb_force (back_to t)"
  by (simp_all add: back_to_def)

lemma chain_simps [simp]:
  "distinct (map cm_commit_id chain)"
  "map_of (map (\<lambda>c. (cm_commit_id c, c)) chain) ''a'' = Some (chain ! 0)"
  "map_of (map (\<lambda>c. (cm_commit_id c, c)) chain) ''b'' = Some (chain ! 1)"
  "map_of (map (\<lambda>c. (cm_commit_id c, c)) chain) ''c'' = Some (chain ! 2)"
  "cm_commit_id (chain ! 0) = ''a''" "cm_external_side_effects (chain ! 0) = [wire_transfer]"
  "cm_commit_id (chain ! Suc 0) = ''b''" "cm_external_side_effects (chain ! Suc 0) = []"
  "cm_commit_id (chain ! 2) = ''c''" "cm_external_side_effects (chain ! 2) = [wire_transfer]"
  "cm_run_id (chain ! 2) = []" "cm_thread_id (chain ! 2) = []" "cm_agent_id (chain ! 2) = []"
  "cm_channel (chain ! 2) = []"
  by (simp_all add: chain_def example_commit_def default_commit_def)

lemma chain_ancestry [simp]: "ancestry chain_dag ''c'' = [''a'', ''b'', ''c'']"
  by (simp add: chain_dag_def ancestry_def collect_ancestry_def)

lemma chain_is_ancestor [simp]: "is_ancestor chain_dag ''b'' ''c''" "is_ancestor chain_dag ''a'' ''c''"
  by (simp_all add: chain_dag_def is_ancestor_def reachable_locked_def)

lemma chain_dag_ok [simp]: "dag_ok chain_dag"
proof -
  have "\<exists>d. append_all dag_default chain = Inr d \<and> dg_parents d = dg_parents chain_dag"
    by (simp add: chain_def chain_dag_def append_def dag_default_def reachable_locked_def)
  then obtain d where d: "append_all dag_default chain = Inr d" "dg_parents d = dg_parents chain_dag" by blast
  have "dag_ok d" using d(1) dag_ok_default by (rule append_all_ok)
  with d(2) show ?thesis by (simp add: dag_ok_def)
qed

lemma chain_rollback:
  assumes "store_ok (shelf_env chain) s"
    "history (shelf_env chain) s = map_of (map (\<lambda>c. (cm_commit_id c, c)) chain)"
  obtains s' r where "rollback (shelf_env chain) chain_dag (back_to ''b'') s = (s', Inr r)"
    "rbr_warnings r = [rollback_warning (chain ! 0) wire_transfer]"
proof -
  have get: "get_commit (shelf_env chain) s i = Inr (map_of (map (\<lambda>c. (cm_commit_id c, c)) chain) i)" for i
    using assms by (simp add: get_commit_ok)
  have w: "rollback_warnings (shelf_env chain) s ''b'' [''a'', ''b'', ''c'']
      = Inr [rollback_warning (chain ! 0) wire_transfer]"
    by (simp add: get)
  have "is_ok (snd (rollback (shelf_env chain) chain_dag (back_to ''b'') s))
     \<and> (\<forall>r. snd (rollback (shelf_env chain) chain_dag (back_to ''b'') s) = Inr r \<longrightarrow>
          rbr_warnings r = [rollback_warning (chain ! 0) wire_transfer])"
    by (simp add: rollback_def get w set_head_def append_event_defs Let_def del: rollback_warnings.simps)
  then show ?thesis
    using that by (cases "rollback (shelf_env chain) chain_dag (back_to ''b'') s")
      (auto elim!: is_okE)
qed

theorem rollback_warns_elsewhere_witness:
  "\<exists>s s' r. rollback (shelf_env chain) chain_dag (back_to ''b'') s = (s', Inr r)
     \<and> rbr_warnings r = [rollback_warning (chain ! 0) wire_transfer]
     \<and> (''a'', ''b'') \<notin> (edges (dg_parents chain_dag))\<^sup>*"
proof -
  obtain s where s: "store_ok (shelf_env chain) s"
    "history (shelf_env chain) s = map_of (map (\<lambda>c. (cm_commit_id c, c)) chain)"
    using shelf_store [OF chain_simps(1)] by metis
  obtain s' r where r: "rollback (shelf_env chain) chain_dag (back_to ''b'') s = (s', Inr r)"
    "rbr_warnings r = [rollback_warning (chain ! 0) wire_transfer]"
    using s by (rule chain_rollback)
  from rollback_warns_elsewhere [OF r(1) chain_dag_ok s(1)] r(2) obtain c e where
    c: "rollback_warning (chain ! 0) wire_transfer = rollback_warning c e"
      "map_of (map (\<lambda>c. (cm_commit_id c, c)) chain) (cm_commit_id c) = Some c"
      "(cm_commit_id c, ''b'') \<notin> (edges (dg_parents chain_dag))\<^sup>*"
    using s(2) by auto
  have "cm_commit_id c \<in> {''a'', ''b'', ''c''}"
    using map_of_SomeD [OF c(2)] by (auto simp: chain_def)
  then have "cm_commit_id c = ''a''"
    using c(1) by (auto simp: rollback_warning_def)
  with c(3) r show ?thesis by auto
qed

theorem rollback_moves_head_witness:
  "\<exists>s s' r. rollback (shelf_env chain) chain_dag (back_to ''b'') s = (s', Inr r)
     \<and> get_head (shelf_env chain) s' [] [] [] [] = Inr (Some ''b'')
     \<and> get_head (shelf_env chain) s' ''n'' [] [] [] = get_head (shelf_env chain) s ''n'' [] [] []"
proof -
  obtain s where s: "store_ok (shelf_env chain) s"
    "history (shelf_env chain) s = map_of (map (\<lambda>c. (cm_commit_id c, c)) chain)"
    using shelf_store [OF chain_simps(1)] by metis
  obtain s' r where r: "rollback (shelf_env chain) chain_dag (back_to ''b'') s = (s', Inr r)"
    using s by (rule chain_rollback)
  have h: "history (shelf_env chain) s (rb_head_commit_id (back_to ''b'')) = Some (chain ! 2)"
    using s(2) by simp
  have "get_head (shelf_env chain) s' [] [] [] [] = Inr (Some ''b'')
      \<and> get_head (shelf_env chain) s' ''n'' [] [] [] = get_head (shelf_env chain) s ''n'' [] [] []"
    using rollback_moves_head [OF r s(1) h] by (simp add: plain_def)
  with r show ?thesis by blast
qed

text \<open>
  A rollback without force can therefore move a head forward: with the head at \<open>a\<close>, the first commit of
  the chain, a request that names \<open>c\<close> as the head and \<open>b\<close> as the target is granted, and the head is \<open>b\<close>.
\<close>

theorem rollback_moves_forward:
  "\<exists>s s' r. get_head (shelf_env chain) s [] [] [] [] = Inr (Some ''a'')
     \<and> rollback (shelf_env chain) chain_dag (back_to ''b'') s = (s', Inr r) \<and> \<not> rb_force (back_to ''b'')
     \<and> get_head (shelf_env chain) s' [] [] [] [] = Inr (Some ''b'')
     \<and> (''b'', ''a'') \<in> (edges (dg_parents chain_dag))\<^sup>+"
proof -
  obtain s0 where s0: "store_ok (shelf_env chain) s0"
    "history (shelf_env chain) s0 = map_of (map (\<lambda>c. (cm_commit_id c, c)) chain)"
    using shelf_store [OF chain_simps(1)] by metis
  obtain s where s: "set_head (shelf_env chain) [] [] [] [] ''a'' s0 = Inr s"
    by (simp add: set_head_def Let_def)
  have head: "get_head (shelf_env chain) s [] [] [] [] = Inr (Some ''a'')"
    using set_head_lookup(1) [OF s] by (simp add: get_head_def)
  have ok: "store_ok (shelf_env chain) s" "history (shelf_env chain) s = history (shelf_env chain) s0"
    using set_head_ok [OF s0(1) s] by simp_all
  obtain s' r where r: "rollback (shelf_env chain) chain_dag (back_to ''b'') s = (s', Inr r)"
    by (rule chain_rollback [OF ok(1)]) (simp_all add: ok(2) s0(2))
  have "get_head (shelf_env chain) s' [] [] [] [] = Inr (Some ''b'')"
    using rollback_heads(1) [OF r ok(1), of "chain ! 2"] ok(2) s0(2) by simp
  moreover have "(''b'', ''a'') \<in> edges (dg_parents chain_dag)" by (auto simp: chain_dag_def edges_def)
  ultimately show ?thesis using head r back_to_simps(3) by blast
qed

theorem fork_adds_head_witness:
  "\<exists>s s' r. fork (shelf_env chain) \<lparr>fq_source_commit_id = ''c'', fq_new_run_id = ''n'', fq_metadata = None\<rparr> s
       = (s', Inr r)
     \<and> get_head (shelf_env chain) s' ''n'' [] [] [] = Inr (Some ''c'')"
proof -
  let ?q = "\<lparr>fq_source_commit_id = ''c'', fq_new_run_id = ''n'', fq_metadata = None\<rparr>"
  obtain s where s: "store_ok (shelf_env chain) s"
    "history (shelf_env chain) s = map_of (map (\<lambda>c. (cm_commit_id c, c)) chain)"
    using shelf_store [OF chain_simps(1)] by metis
  have get: "get_commit (shelf_env chain) s i = Inr (map_of (map (\<lambda>c. (cm_commit_id c, c)) chain) i)" for i
    using s by (simp add: get_commit_ok)
  have "is_ok (snd (fork (shelf_env chain) ?q s))
     \<and> (\<forall>r. snd (fork (shelf_env chain) ?q s) = Inr r \<longrightarrow> fr_run_id r = ''n'')"
    by (simp add: fork_def get set_head_def append_event_defs Let_def)
  then obtain s' r where r: "fork (shelf_env chain) ?q s = (s', Inr r)" "fr_run_id r = ''n''"
    by (cases "fork (shelf_env chain) ?q s") (auto elim!: is_okE)
  have h: "history (shelf_env chain) s (fq_source_commit_id ?q) = Some (chain ! 2)"
    using s(2) by simp
  have "get_head (shelf_env chain) s' ''n'' [] [] [] = Inr (Some ''c'')"
    using fork_adds_head [OF r(1) s(1) h, of "''n''" "[]" "[]" "[]"] r(2) by (simp add: plain_def)
  with r(1) show ?thesis by blast
qed

definition audit_fault :: "env \<Rightarrow> env" where
  "audit_fault E = E\<lparr>db_fault := (\<lambda>op. if op = DbAppendAudit then Some (Anyhow ''disk full'') else None)\<rparr>"

theorem rollback_error_after_move_witness:
  "\<exists>s. snd (rollback (audit_fault (shelf_env chain)) chain_dag (back_to ''b'') s) = Inl (Anyhow ''disk full'')
     \<and> get_head (audit_fault (shelf_env chain))
         (fst (rollback (audit_fault (shelf_env chain)) chain_dag (back_to ''b'') s)) [] [] [] []
       = Inr (Some ''b'')"
proof -
  let ?E = "audit_fault (shelf_env chain)"
  obtain s where s: "store_ok (shelf_env chain) s"
    "history (shelf_env chain) s = map_of (map (\<lambda>c. (cm_commit_id c, c)) chain)"
    using shelf_store [OF chain_simps(1)] by metis
  have same: "decode_commit ?E = decode_commit (shelf_env chain)" "encode_commit ?E = encode_commit (shelf_env chain)"
    by (simp_all add: audit_fault_def)
  have ok: "store_ok ?E s" using s(1)
    by (simp add: store_ok_def row_ok_def codec_ok_def row_of_def same list_all_iff)
  have h: "history ?E s = history (shelf_env chain) s" by (simp add: history_def fun_eq_iff same split: option.splits)
  have f: "db_fault ?E DbAppendAudit = Some (Anyhow ''disk full'')" "db_fault ?E DbSetHead = None"
      "db_fault ?E DbGetHead = None" "db_fault ?E (DbGetCommit i) = None" for i
    by (simp_all add: audit_fault_def)
  have hc: "history ?E s (rb_head_commit_id (back_to ''b'')) = Some (chain ! 2)"
      "history ?E s (rb_target_commit_id (back_to ''b'')) = Some (chain ! 1)"
    using h s(2) by simp_all
  have "rb_force (back_to ''b'')
      \<or> is_ancestor chain_dag (rb_target_commit_id (back_to ''b'')) (rb_head_commit_id (back_to ''b''))"
    by simp
  from rollback_error_after_move [OF f ok hc this] show ?thesis by auto
qed

end
