(* ===== verification/Service.thy ===== *)
theory Service
  imports Dag Store Bus Auth CommitBuild Redaction LoopDetection Diff Replay Rollback
begin

text \<open>
  \<open>daemon/src/grpc/service.rs\<close>: the shared state of the daemon and the operations that both
  transports call. An operation takes the state and returns it with its outcome; what it did
  before it failed, or before it was held up by a slow subscriber, stays done. A request runs as
  one step here; Tasks has the same requests in steps that interleave.
\<close>

section \<open>AppState\<close>

record app_state =
  app_config :: config
  app_bus :: bus
  app_store :: sqlite_store
  app_dag :: dag_index
  app_detector :: loop_detector
  app_grants :: "(string, permission_scope list) table"

definition new_state :: "config \<Rightarrow> bus \<Rightarrow> sqlite_store \<Rightarrow> dag_index \<Rightarrow> app_state" where
  "new_state config b s d =
     \<lparr>app_config = config, app_bus = b, app_store = s, app_dag = d,
      app_detector = default_detector, app_grants = []\<rparr>"

text \<open>Sequencing of steps that may fail or be held up.\<close>

fun after :: "'s \<times> 'a outcome \<Rightarrow> ('a \<Rightarrow> 's \<Rightarrow> 's \<times> 'b outcome) \<Rightarrow> 's \<times> 'b outcome" where
  "after (s, Done x) f = f x s"
| "after (s, Failed e) f = (s, Failed e)"
| "after (s, Blocked) f = (s, Blocked)"

fun outcome_of :: "'a result \<Rightarrow> 'a outcome" where
  "outcome_of (Inl e) = Failed e"
| "outcome_of (Inr x) = Done x"

definition count_metric :: "(metrics \<Rightarrow> metrics) \<Rightarrow> app_state \<Rightarrow> app_state" where
  "count_metric f s = s\<lparr>app_bus := (app_bus s)\<lparr>bus_metrics := f (bus_metrics (app_bus s))\<rparr>\<rparr>"

definition send_broadcast :: "env \<Rightarrow> state_delta \<Rightarrow> string \<Rightarrow> app_state \<Rightarrow> app_state \<times> unit outcome" where
  "send_broadcast E delta commit_id s =
     (let (b, returned) = broadcast E delta commit_id (app_bus s)
      in (s\<lparr>app_bus := b\<rparr>, if returned then Done () else Blocked))"

section \<open>health and register_agent_inner\<close>

definition daemon_version :: string where "daemon_version = ''0.1.0''"

definition health :: "app_state \<Rightarrow> health_response" where
  "health s = \<lparr>hr_status = ''ok'', hr_daemon_version = daemon_version,
     hr_protocol_version = ''nexus.v1'', hr_auth_required = cf_require_auth (app_config s),
     hr_bind_mode = cf_bind_mode (app_config s)\<rparr>"

definition register_agent_inner ::
    "env \<Rightarrow> register_agent_request \<Rightarrow> app_state \<Rightarrow> app_state \<times> register_agent_response" where
  "register_agent_inner E request s =
     (let granted = grant_requested (app_config s) (ra_requested_scopes request);
          s = s\<lparr>app_grants := AList.update (ra_agent_id request) granted (app_grants s)\<rparr>;
          s = s\<lparr>app_bus := fst (bus_register_agent E request (app_bus s))\<rparr>
      in (s, \<lparr>rar_accepted = True, rar_agent_id = ra_agent_id request,
              rar_granted_scopes = granted, rar_protocol_version = ''nexus.v1''\<rparr>))"

section \<open>The helpers of publishing\<close>

definition empty_json_payload :: "env \<Rightarrow> payload" where
  "empty_json_payload E = json_payload E ''{}''"

definition normalize_delta :: "env \<Rightarrow> state_delta \<Rightarrow> state_delta" where
  "normalize_delta E delta =
     (let delta = (if sd_delta_id delta = [] then delta\<lparr>sd_delta_id := new_id E DeltaSite ''delta''\<rparr> else delta);
          delta = (if sd_wall_time delta = None then delta\<lparr>sd_wall_time := Some (now E DeltaSite)\<rparr> else delta);
          delta = (if sd_payload delta = None then delta\<lparr>sd_payload := Some (empty_json_payload E)\<rparr> else delta)
      in if sd_metadata delta = None then delta\<lparr>sd_metadata := Some []\<rparr> else delta)"

definition ensure_channel_permission :: "string \<Rightarrow> string \<Rightarrow> app_state \<Rightarrow> unit result" where
  "ensure_channel_permission agent_id required s =
     (if \<not> cf_require_auth (app_config s) then Inr ()
      else (let granted = unwrap_or [] (map_of (app_grants s) agent_id) in
            if is_allowed (app_config s) granted required then Inr ()
            else Inl (Anyhow (''permission denied for '' @ required))))"

definition fill_payload :: "env \<Rightarrow> payload option \<Rightarrow> payload" where
  "fill_payload E p =
     (let p = unwrap_or (empty_json_payload E) p;
          p = (if pl_content_hash p = [] then p\<lparr>pl_content_hash := blake3_hex E (pl_data p)\<rparr> else p)
      in p\<lparr>pl_size_bytes := of_nat (length (pl_data p))\<rparr>)"

definition prepare_payload ::
    "env \<Rightarrow> payload option \<Rightarrow> app_state
       \<Rightarrow> app_state \<times> (payload \<times> redaction_report \<times> artifact_ref list) outcome" where
  "prepare_payload E p s =
     (let p = fill_payload E p;
          (p, report) = (if cf_redaction_enabled (app_config s) then redact_payload E p
                         else (p, \<lparr>rr_findings = [], rr_redacted = False\<rparr>))
      in if length (pl_data p) > cf_max_inline_payload_bytes (app_config s)
         then (case put_artifact E (pl_data p) ''application/octet-stream'' (app_store s) of
                 (st, Inl e) \<Rightarrow> (s\<lparr>app_store := st\<rparr>, Failed e)
               | (st, Inr artifact) \<Rightarrow>
                   (count_metric (\<lambda>m. m\<lparr>mt_artifacts_total := inc (mt_artifacts_total m)\<rparr>) (s\<lparr>app_store := st\<rparr>),
                    Done (p\<lparr>pl_artifact_ref := ar_artifact_id artifact, pl_data := [],
                            pl_size_bytes := ar_size_bytes artifact,
                            pl_compressed := ar_compressed artifact\<rparr>, report, [artifact])))
         else (s, Done (p, report, [])))"

definition resolve_parents :: "env \<Rightarrow> state_delta \<Rightarrow> string list \<Rightarrow> app_state \<Rightarrow> string list result" where
  "resolve_parents E delta explicit_parents s =
     (if explicit_parents \<noteq> [] then Inr explicit_parents
      else and_then (get_head E (app_store s) (sd_run_id delta) (sd_thread_id delta)
                       (sd_agent_id delta) (sd_channel delta)) (\<lambda>head.
             Inr (case head of None \<Rightarrow> [] | Some c \<Rightarrow> [c])))"

definition persist_commit :: "env \<Rightarrow> commit \<Rightarrow> app_state \<Rightarrow> app_state \<times> unit outcome" where
  "persist_commit E c s =
     (case append (app_dag s) c of
        Inl e \<Rightarrow> (s, Failed e)
      | Inr d \<Rightarrow>
     (let s = s\<lparr>app_dag := d\<rparr> in
      case append_commit E c (app_store s) of
        Inl e \<Rightarrow> (s, Failed e)
      | Inr st \<Rightarrow>
     (let s = s\<lparr>app_store := st\<rparr> in
      case set_head E (cm_run_id c) (cm_thread_id c) (cm_agent_id c) (cm_channel c) (cm_commit_id c)
             (app_store s) of
        Inl e \<Rightarrow> (s, Failed e)
      | Inr st \<Rightarrow>
          (count_metric (\<lambda>m. m\<lparr>mt_commits_total := inc (mt_commits_total m)\<rparr>) (s\<lparr>app_store := st\<rparr>),
           Done ()))))"

section \<open>Loop warnings\<close>

text \<open>An \<open>i32\<close> in a \<open>json!\<close> literal.\<close>

definition json_of_i32 :: "i32 \<Rightarrow> json" where
  "json_of_i32 i = (if 0 \<le> sint i then JNum (PosInt (of_int (sint i))) else JNum (NegInt (of_int (sint i))))"

definition loop_warning_json :: "loop_warning \<Rightarrow> json" where
  "loop_warning_json w = json_object
     [(''warning_id'', JStr (lw_warning_id w)),
      (''run_id'', JStr (lw_run_id w)),
      (''agent_id'', JStr (lw_agent_id w)),
      (''channel'', JStr (lw_channel w)),
      (''severity'', json_of_i32 (lw_severity w)),
      (''fingerprint'', JStr (lw_fingerprint w)),
      (''repetition_count'', JNum (PosInt (lw_repetition_count w))),
      (''suggested_stable_commit_id'', JStr (lw_suggested_stable_commit_id w)),
      (''message'', JStr (lw_message w))]"

definition loop_warning_delta :: "env \<Rightarrow> loop_warning \<Rightarrow> bytes \<Rightarrow> state_delta" where
  "loop_warning_delta E w bs =
     \<lparr>sd_delta_id = new_id E WarningDeltaSite ''delta'',
      sd_channel = ''system:loop_warnings'',
      sd_agent_id = ''nexusd'',
      sd_run_id = lw_run_id w,
      sd_thread_id = [],
      sd_logical_clock = 0,
      sd_wall_time = Some (now E WarningDeltaSite),
      sd_payload = Some (json_payload E bs),
      sd_durable = False,
      sd_tags = [''loop_warning''],
      sd_summary = ''Loop warning emitted'',
      sd_metadata = None\<rparr>"

definition broadcast_loop_warning :: "env \<Rightarrow> loop_warning \<Rightarrow> app_state \<Rightarrow> app_state \<times> unit outcome" where
  "broadcast_loop_warning E w s =
     (case json_print E (loop_warning_json w) of
        Inl e \<Rightarrow> (s, Failed e)
      | Inr bs \<Rightarrow> send_broadcast E (loop_warning_delta E w bs) [] s)"

definition inspect_loop :: "env \<Rightarrow> commit \<Rightarrow> app_state \<Rightarrow> app_state \<times> unit outcome" where
  "inspect_loop E c s =
     (if \<not> cf_loop_detection_enabled (app_config s) then (s, Done ())
      else
     (let (d, found) = inspect E c (app_detector s); s = s\<lparr>app_detector := d\<rparr> in
      case found of
        None \<Rightarrow> (s, Done ())
      | Some w \<Rightarrow>
     (case append_loop_warning E w (app_store s) of
        Inl e \<Rightarrow> (s, Failed e)
      | Inr st \<Rightarrow>
          broadcast_loop_warning E w
            (count_metric (\<lambda>m. m\<lparr>mt_loop_warnings_total := inc (mt_loop_warnings_total m)\<rparr>)
              (s\<lparr>app_store := st\<rparr>)))))"

section \<open>publish_delta_inner\<close>

definition publish_extras :: "string \<Rightarrow> artifact_ref list \<Rightarrow> commit_extras" where
  "publish_extras objective artifact_refs =
     \<lparr>ex_objective = objective, ex_tool_calls = [], ex_tool_results = [],
      ex_artifact_refs = artifact_refs, ex_external_side_effects = [],
      ex_sdk_name = ''nexusd'', ex_sdk_version = daemon_version\<rparr>"

text \<open>The part that both publishing operations share: persist, broadcast, inspect.\<close>

definition commit_and_broadcast ::
    "env \<Rightarrow> state_delta \<Rightarrow> commit \<Rightarrow> app_state \<Rightarrow> app_state \<times> unit outcome" where
  "commit_and_broadcast E delta c s =
     after (persist_commit E c s) (\<lambda>_ s.
     after (send_broadcast E delta (cm_commit_id c) s) (\<lambda>_ s.
       inspect_loop E c s))"

definition publish_delta_inner ::
    "env \<Rightarrow> publish_delta_request \<Rightarrow> app_state \<Rightarrow> app_state \<times> publish_delta_response outcome" where
  "publish_delta_inner E request s =
     (case pd_delta request of
        None \<Rightarrow> (s, Failed (Anyhow ''PublishDeltaRequest.delta is required''))
      | Some delta \<Rightarrow>
     (let delta = normalize_delta E delta in
      case ensure_channel_permission (sd_agent_id delta) (channel_write (sd_channel delta)) s of
        Inl e \<Rightarrow> (s, Failed e)
      | Inr _ \<Rightarrow>
      after (prepare_payload E (sd_payload delta) s) (\<lambda>(p, report, artifact_refs) s.
     (let delta = delta\<lparr>sd_payload := Some p\<rparr> in
      if \<not> sd_durable delta \<and> \<not> cf_persist_ephemeral (app_config s)
      then after (send_broadcast E delta [] s) (\<lambda>_ s.
             (s, Done \<lparr>pr_delta_id = sd_delta_id delta, pr_commit_id = [], pr_accepted = True,
                       pr_persisted = False, pr_warning = [], pr_redaction_report = Some report\<rparr>))
      else
     (case resolve_parents E delta (pd_parent_commit_ids request) s of
        Inl e \<Rightarrow> (s, Failed e)
      | Inr parents \<Rightarrow>
     (let c = from_delta E delta parents p report (publish_extras (pd_objective request) artifact_refs) in
      after (commit_and_broadcast E delta c s) (\<lambda>_ s.
        (s, Done \<lparr>pr_delta_id = sd_delta_id delta, pr_commit_id = cm_commit_id c, pr_accepted = True,
                  pr_persisted = True, pr_warning = [], pr_redaction_report = Some report\<rparr>))))))))"

section \<open>checkpoint_inner\<close>

definition checkpoint_delta :: "env \<Rightarrow> checkpoint_request \<Rightarrow> state_delta" where
  "checkpoint_delta E request =
     \<lparr>sd_delta_id = new_id E DeltaSite ''delta'', sd_channel = cq_channel request,
      sd_agent_id = cq_agent_id request, sd_run_id = cq_run_id request,
      sd_thread_id = cq_thread_id request, sd_logical_clock = 0,
      sd_wall_time = Some (now E DeltaSite),
      sd_payload = Some (unwrap_or (empty_json_payload E) (cq_payload request)),
      sd_durable = True, sd_tags = cq_tags request, sd_summary = cq_summary request,
      sd_metadata = cq_metadata request\<rparr>"

definition checkpoint_extras :: "checkpoint_request \<Rightarrow> artifact_ref list \<Rightarrow> commit_extras" where
  "checkpoint_extras request artifact_refs =
     \<lparr>ex_objective = cq_objective request, ex_tool_calls = cq_tool_calls request,
      ex_tool_results = cq_tool_results request, ex_artifact_refs = artifact_refs,
      ex_external_side_effects = cq_external_side_effects request,
      ex_sdk_name = ''nexusd'', ex_sdk_version = daemon_version\<rparr>"

definition checkpoint_inner ::
    "env \<Rightarrow> checkpoint_request \<Rightarrow> app_state \<Rightarrow> app_state \<times> checkpoint_response outcome" where
  "checkpoint_inner E request s =
     (case ensure_channel_permission (cq_agent_id request) (channel_checkpoint (cq_channel request)) s of
        Inl e \<Rightarrow> (s, Failed e)
      | Inr _ \<Rightarrow>
     (let delta = normalize_delta E (checkpoint_delta E request) in
      after (prepare_payload E (sd_payload delta) s) (\<lambda>(p, report, artifact_refs) s.
     (let artifact_refs = artifact_refs @ cq_artifact_refs request;
          delta = delta\<lparr>sd_payload := Some p\<rparr> in
      case resolve_parents E delta (cq_parent_commit_ids request) s of
        Inl e \<Rightarrow> (s, Failed e)
      | Inr parents \<Rightarrow>
     (let c = from_delta E delta parents p report (checkpoint_extras request artifact_refs) in
      after (commit_and_broadcast E delta c s) (\<lambda>_ s.
        (s, Done \<lparr>cr_commit_id = cm_commit_id c, cr_delta_id = sd_delta_id delta, cr_accepted = True,
                  cr_persisted = True, cr_warning = [], cr_redaction_report = Some report\<rparr>)))))))"

section \<open>Reading and moving\<close>

definition diff_inner :: "env \<Rightarrow> diff_commits_request \<Rightarrow> app_state \<Rightarrow> commit_diff result" where
  "diff_inner E request s =
     (let from_id = (if dq_from_nearest_common_ancestor request
                     then unwrap_or (dq_from_commit_id request)
                            (nearest_common_ancestor (app_dag s) (dq_from_commit_id request)
                               (dq_to_commit_id request))
                     else dq_from_commit_id request) in
      and_then (get_commit E (app_store s) from_id) (\<lambda>found.
     (case found of
        None \<Rightarrow> Inl (Anyhow ''from commit not found'')
      | Some from_c \<Rightarrow>
      and_then (get_commit E (app_store s) (dq_to_commit_id request)) (\<lambda>found.
     (case found of
        None \<Rightarrow> Inl (Anyhow ''to commit not found'')
      | Some to_c \<Rightarrow> Inr (diff_commits E from_c to_c))))))"

text \<open>The fuel is one level per stored commit, and one for a parent that is missing.\<close>

definition replay_inner :: "env \<Rightarrow> replay_request \<Rightarrow> app_state \<Rightarrow> replay_result result option" where
  "replay_inner E request s = replay E (app_store s) (Suc (length (st_commits (app_store s)))) request"

definition fork_inner :: "env \<Rightarrow> fork_request \<Rightarrow> app_state \<Rightarrow> app_state \<times> fork_result outcome" where
  "fork_inner E request s =
     (let (st, r) = fork E request (app_store s) in (s\<lparr>app_store := st\<rparr>, outcome_of r))"

definition rollback_inner ::
    "env \<Rightarrow> rollback_request \<Rightarrow> app_state \<Rightarrow> app_state \<times> rollback_response outcome" where
  "rollback_inner E request s =
     (let (st, r) = rollback E (app_dag s) request (app_store s) in (s\<lparr>app_store := st\<rparr>, outcome_of r))"

definition list_runs_inner :: "env \<Rightarrow> app_state \<Rightarrow> run_summary list result" where
  "list_runs_inner E s = list_runs E (app_store s)"

definition nonempty :: "string \<Rightarrow> string option" where
  "nonempty value = (if value = [] then None else Some value)"

definition list_commits_inner :: "env \<Rightarrow> list_commits_request \<Rightarrow> app_state \<Rightarrow> commit list result" where
  "list_commits_inner E request s =
     list_commits E (app_store s) (nonempty (lq_run_id request)) (nonempty (lq_thread_id request))
       (nonempty (lq_channel request))"

definition get_commit_inner :: "env \<Rightarrow> string \<Rightarrow> app_state \<Rightarrow> commit result" where
  "get_commit_inner E commit_id s =
     and_then (get_commit E (app_store s) commit_id) (\<lambda>found.
       (case found of None \<Rightarrow> Inl (Anyhow ''commit not found'') | Some c \<Rightarrow> Inr c))"

definition export_commit_json :: "commit \<Rightarrow> json" where
  "export_commit_json c = json_object
     [(''commit_id'', JStr (cm_commit_id c)),
      (''delta_id'', JStr (cm_delta_id c)),
      (''agent_id'', JStr (cm_agent_id c)),
      (''channel'', JStr (cm_channel c)),
      (''summary'', JStr (cm_summary c))]"

definition export_run_inner :: "env \<Rightarrow> export_run_request \<Rightarrow> app_state \<Rightarrow> export_run_response result" where
  "export_run_inner E request s =
     and_then (list_commits E (app_store s) (Some (xq_run_id request)) None None) (\<lambda>commits.
     and_then (json_print E (json_object
       [(''run_id'', JStr (xq_run_id request)),
        (''format'', JStr (if xq_format request = [] then ''json'' else xq_format request)),
        (''commit_count'', json_of_nat (length commits)),
        (''commits'', JArr (map export_commit_json commits))])) (\<lambda>bs.
       Inr \<lparr>xr_run_id = xq_run_id request, xr_export_payload = Some (json_payload E bs)\<rparr>))"

section \<open>The gRPC service\<close>

definition to_status :: "anyhow \<Rightarrow> grpc_status" where
  "to_status err =
     (let msg = message err in
      if contains ''not found'' msg then GrpcNotFound msg
      else if contains ''permission denied'' msg then PermissionDenied msg
      else if contains ''invalid'' msg then InvalidArgument msg
      else Internal msg)"

definition default_subscription_queue :: nat where "default_subscription_queue = 1024"

definition grpc_subscribe :: "subscribe_request \<Rightarrow> app_state \<Rightarrow> app_state \<times> queue_id" where
  "grpc_subscribe request s =
     (let (b, q) = subscribe (sr_subscriber_id request)
            (unwrap_or \<lparr>sf_channel_patterns = [''*''], sf_durable_only = False, sf_tags = []\<rparr> (sr_filter request))
            (if sr_queue_capacity request = 0 then default_subscription_queue
             else unat (sr_queue_capacity request))
            (app_bus s)
      in (s\<lparr>app_bus := b\<rparr>, q))"

definition ack :: "string \<Rightarrow> string \<Rightarrow> server_event" where
  "ack i m = SAck \<lparr>ack_id = i, ack_message = m\<rparr>"

text \<open>One event of \<open>open_stream\<close>; a status ends the stream.\<close>

definition stream_event ::
    "env \<Rightarrow> client_event option \<Rightarrow> app_state \<Rightarrow> app_state \<times> (grpc_status + server_event) outcome" where
  "stream_event E event s =
     (case event of
        Some (CHeartbeat h) \<Rightarrow>
          (s\<lparr>app_bus := heartbeat E (hb_agent_id h) (app_bus s)\<rparr>,
           Done (Inr (ack (hb_agent_id h) ''heartbeat accepted'')))
      | Some (CPublishDelta request) \<Rightarrow>
          (case publish_delta_inner E request s of
             (s', Done r) \<Rightarrow> (s', Done (Inr (SCheckpointCommitted
                \<lparr>cn_commit_id = pr_commit_id r, cn_delta_id = pr_delta_id r\<rparr>)))
           | (s', Failed e) \<Rightarrow> (s', Done (Inl (Internal (message e))))
           | (s', Blocked) \<Rightarrow> (s', Blocked))
      | Some (CCheckpoint request) \<Rightarrow>
          (case publish_delta_inner E request s of
             (s', Done r) \<Rightarrow> (s', Done (Inr (SCheckpointCommitted
                \<lparr>cn_commit_id = pr_commit_id r, cn_delta_id = pr_delta_id r\<rparr>)))
           | (s', Failed e) \<Rightarrow> (s', Done (Inl (Internal (message e))))
           | (s', Blocked) \<Rightarrow> (s', Blocked))
      | Some (CShutdown reason) \<Rightarrow>
          (s, Done (Inr (ack ''shutdown'' (''shutdown requested: '' @ reason))))
      | Some _ \<Rightarrow> (s, Done (Inr (ack ''event'' ''event accepted'')))
      | None \<Rightarrow>
          (s, Done (Inr (SError \<lparr>er_code = ''empty_event'',
             er_message = ''client event did not contain an event'',
             er_retryable = False, er_metadata = None\<rparr>))))"

end
