(* ===== verification/Http.thy ===== *)
theory Http
  imports Service
begin

text \<open>
  \<open>daemon/src/http/api.rs\<close>: the HTTP interface, and the endpoints of \<open>observability/metrics.rs\<close>. A
  handler takes the value of the authorization header and the body that axum and serde have
  deserialized, one \<open>record\<close> per body type of the source; a body that does not deserialize never
  reaches its handler. The answer is the \<open>ApiResult\<close> of the source; \<open>None\<close> is a handler that does
  not return, because a slow subscriber holds up the broadcast or replay runs out of fuel.
\<close>

section \<open>ApiResult, guard and internal_error\<close>

type_synonym 'a api_result = "(status_code \<times> string) + 'a"

definition guard_message :: string where
  "guard_message = ''request is not authorized for this local Attow Nexus daemon''"

definition guard :: "app_state \<Rightarrow> string option \<Rightarrow> unit api_result" where
  "guard s header =
     (case validate_http header (app_config s) of
        Inl status \<Rightarrow> Inl (status, guard_message)
      | Inr _ \<Rightarrow> Inr ())"

definition internal_error :: "anyhow \<Rightarrow> status_code \<times> string" where
  "internal_error err =
     (let msg = message err in
      if contains ''not found'' msg then (NotFound, msg)
      else if contains ''permission denied'' msg then (Forbidden, msg)
      else (InternalServerError, msg))"

text \<open>\<open>map_err(internal_error)\<close> on a result and on the outcome of an operation that may wait.\<close>

definition api_of :: "'a result \<Rightarrow> 'a api_result" where
  "api_of r = (case r of Inl e \<Rightarrow> Inl (internal_error e) | Inr x \<Rightarrow> Inr x)"

fun answer :: "('a \<Rightarrow> 'b) \<Rightarrow> 's \<times> 'a outcome \<Rightarrow> 's \<times> 'b api_result option" where
  "answer f (s, Done x) = (s, Some (Inr (f x)))"
| "answer f (s, Failed e) = (s, Some (Inl (internal_error e)))"
| "answer f (s, Blocked) = (s, None)"

section \<open>JSON of the answers\<close>

text \<open>\<open>Option<i64>\<close>, \<open>u64\<close> and lists of strings in a \<open>json!\<close> literal.\<close>

definition json_of_i64 :: "i64 \<Rightarrow> json" where
  "json_of_i64 i = (if 0 \<le> sint i then JNum (PosInt i) else JNum (NegInt i))"

definition json_of_seconds :: "timestamp option \<Rightarrow> json" where
  "json_of_seconds t = (case t of None \<Rightarrow> JNull | Some ts \<Rightarrow> json_of_i64 (ts_seconds ts))"

abbreviation json_of_u64 :: "u64 \<Rightarrow> json" where
  "json_of_u64 n \<equiv> JNum (PosInt n)"

abbreviation json_strings :: "string list \<Rightarrow> json" where
  "json_strings xs \<equiv> JArr (map JStr xs)"

definition commit_summary :: "commit \<Rightarrow> json" where
  "commit_summary c = json_object
     [(''commitId'', JStr (cm_commit_id c)),
      (''deltaId'', JStr (cm_delta_id c)),
      (''runId'', JStr (cm_run_id c)),
      (''threadId'', JStr (cm_thread_id c)),
      (''agentId'', JStr (cm_agent_id c)),
      (''channel'', JStr (cm_channel c)),
      (''logicalClock'', json_of_u64 (cm_logical_clock c)),
      (''wallTime'', json_of_seconds (cm_wall_time c)),
      (''summary'', JStr (cm_summary c)),
      (''tags'', json_strings (cm_tags c)),
      (''parentCommitIds'', json_strings (cm_parent_commit_ids c)),
      (''sideEffectCount'', json_of_nat (length (cm_external_side_effects c)))]"

definition tool_call_json :: "tool_call \<Rightarrow> json" where
  "tool_call_json tool = json_object
     [(''toolCallId'', JStr (tc_tool_call_id tool)), (''name'', JStr (tc_name tool))]"

definition tool_result_json :: "tool_result \<Rightarrow> json" where
  "tool_result_json r = json_object
     [(''toolCallId'', JStr (tr_tool_call_id r)), (''hasError'', JBool (tr_error r \<noteq> None))]"

definition artifact_json :: "artifact_ref \<Rightarrow> json" where
  "artifact_json a = json_object
     [(''artifactId'', JStr (ar_artifact_id a)),
      (''contentHash'', JStr (ar_content_hash a)),
      (''sizeBytes'', json_of_u64 (ar_size_bytes a)),
      (''mediaType'', JStr (ar_media_type a)),
      (''compressed'', JBool (ar_compressed a))]"

definition side_effect_json :: "external_side_effect \<Rightarrow> json" where
  "side_effect_json e = json_object
     [(''sideEffectId'', JStr (se_side_effect_id e)),
      (''kind'', JStr (se_kind e)),
      (''description'', JStr (se_description e)),
      (''target'', JStr (se_target e)),
      (''reversible'', JBool (se_reversible e)),
      (''compensatingActionAvailable'', JBool (se_compensating_action_available e))]"

definition commit_detail :: "env \<Rightarrow> commit \<Rightarrow> json" where
  "commit_detail E c =
     (case commit_summary c of
        JObj m \<Rightarrow> JObj (fold (\<lambda>(k, v). btree_insert k v)
          [(''objective'', JStr (cm_objective c)),
           (''stateDelta'', payload_to_json E (cm_state_delta c)),
           (''toolCalls'', JArr (map tool_call_json (cm_tool_calls c))),
           (''toolResults'', JArr (map tool_result_json (cm_tool_results c))),
           (''artifacts'', JArr (map artifact_json (cm_artifact_refs c))),
           (''externalSideEffects'', JArr (map side_effect_json (cm_external_side_effects c)))] m)
      | v \<Rightarrow> v)"

text \<open>The answer to a request that publishes.\<close>

definition published_json ::
    "string \<Rightarrow> string \<Rightarrow> bool \<Rightarrow> bool \<Rightarrow> string \<Rightarrow> redaction_report option \<Rightarrow> json" where
  "published_json delta_id commit_id accepted persisted warning report = json_object
     [(''deltaId'', JStr delta_id),
      (''commitId'', JStr commit_id),
      (''accepted'', JBool accepted),
      (''persisted'', JBool persisted),
      (''warning'', JStr warning),
      (''redacted'', JBool (unwrap_or False (map_option rr_redacted report)))]"

definition checkpoint_json :: "checkpoint_response \<Rightarrow> json" where
  "checkpoint_json r = published_json (cr_delta_id r) (cr_commit_id r) (cr_accepted r) (cr_persisted r)
     (cr_warning r) (cr_redaction_report r)"

definition publish_json :: "publish_delta_response \<Rightarrow> json" where
  "publish_json r = published_json (pr_delta_id r) (pr_commit_id r) (pr_accepted r) (pr_persisted r)
     (pr_warning r) (pr_redaction_report r)"

section \<open>Payload and metadata\<close>

definition payload_from_json :: "env \<Rightarrow> json \<Rightarrow> payload api_result" where
  "payload_from_json E v =
     (case json_print E v of
        Inl err \<Rightarrow> Inl (BadRequest, ''payload must be JSON serializable: '' @ message err)
      | Inr bs \<Rightarrow> Inr (json_payload E bs))"

text \<open>The entries come in the iteration order of the hash map, which is the order of the list.\<close>

definition metadata_from_map :: "(string, string) table \<Rightarrow> metadata" where
  "metadata_from_map m = map (\<lambda>(k, v). \<lparr>kv_key = k, kv_value = v\<rparr>) m"

definition metadata_from_value :: "env \<Rightarrow> json \<Rightarrow> metadata" where
  "metadata_from_value E v =
     unwrap_or [] (map_option (map (\<lambda>(k, v).
       \<lparr>kv_key = k, kv_value = unwrap_or (json_text E v) (as_str v)\<rparr>)) (as_object v))"

section \<open>Bodies and queries\<close>

record register_agent_body =
  rb_agent_id :: string
  rb_run_id :: string
  rb_thread_id :: "string option"
  rb_framework :: "string option"
  rb_language :: "string option"
  rb_capabilities :: "string list"
  rb_metadata :: "(string, string) table"

record publish_delta_body =
  pb_channel :: string
  pb_agent_id :: string
  pb_run_id :: string
  pb_thread_id :: "string option"
  pb_delta :: json
  pb_durable :: bool
  pb_tags :: "string list"
  pb_summary :: "string option"
  pb_objective :: "string option"
  pb_logical_clock :: "u64 option"
  pb_parent_commit_ids :: "string list"
  pb_metadata :: "(string, string) table"

record side_effect_body =
  eb_side_effect_id :: "string option"
  eb_kind :: string
  eb_description :: "string option"
  eb_target :: "string option"
  eb_payload_summary :: "string option"
  eb_reversible :: "bool option"
  eb_compensating_action_available :: "bool option"

record checkpoint_body =
  cb_agent_id :: string
  cb_run_id :: string
  cb_thread_id :: "string option"
  cb_channel :: string
  cb_state :: json
  cb_summary :: "string option"
  cb_objective :: "string option"
  cb_tags :: "string list"
  cb_parent_commit_ids :: "string list"
  cb_metadata :: "(string, string) table"
  cb_external_side_effects :: "side_effect_body list option"

record diff_query =
  dqy_from :: string
  dqy_to :: string
  dqy_from_nearest_common_ancestor :: "bool option"

record replay_body =
  yb_commit_id :: string
  yb_mode :: "string option"
  yb_confirm_reexecute_tools :: "bool option"

record fork_body =
  fb_source_commit_id :: string
  fb_new_run_id :: "string option"

record rollback_body =
  lb_head_commit_id :: string
  lb_target_commit_id :: string
  lb_force :: "bool option"

text \<open>\<open>SideEffectBody::into_proto\<close>; \<open>n\<close> is the position in the body.\<close>

definition side_effect_into_proto :: "env \<Rightarrow> nat \<Rightarrow> side_effect_body \<Rightarrow> external_side_effect" where
  "side_effect_into_proto E n self =
     \<lparr>se_side_effect_id = unwrap_or (new_id E (EffectSite n) ''effect'') (eb_side_effect_id self),
      se_kind = eb_kind self,
      se_description = unwrap_or [] (eb_description self),
      se_target = unwrap_or [] (eb_target self),
      se_payload_summary = unwrap_or [] (eb_payload_summary self),
      se_occurred_at = Some (now E (EffectSite n)),
      se_reversible = unwrap_or False (eb_reversible self),
      se_compensating_action_available = unwrap_or False (eb_compensating_action_available self),
      se_metadata = None\<rparr>"

section \<open>The requests the handlers build\<close>

definition register_request :: "register_agent_body \<Rightarrow> register_agent_request" where
  "register_request body =
     \<lparr>ra_agent_id = rb_agent_id body,
      ra_run_id = rb_run_id body,
      ra_thread_id = unwrap_or [] (rb_thread_id body),
      ra_metadata = Some \<lparr>am_framework = unwrap_or ''custom'' (rb_framework body),
        am_language = unwrap_or [] (rb_language body),
        am_metadata = Some (metadata_from_map (rb_metadata body))\<rparr>,
      ra_capabilities = Some \<lparr>ac_capabilities = rb_capabilities body\<rparr>,
      ra_requested_scopes = []\<rparr>"

definition publish_request :: "env \<Rightarrow> publish_delta_body \<Rightarrow> payload \<Rightarrow> publish_delta_request" where
  "publish_request E body p =
     \<lparr>pd_delta = Some
        \<lparr>sd_delta_id = new_id E DeltaSite ''delta'',
         sd_channel = pb_channel body,
         sd_agent_id = pb_agent_id body,
         sd_run_id = pb_run_id body,
         sd_thread_id = unwrap_or [] (pb_thread_id body),
         sd_logical_clock = unwrap_or 0 (pb_logical_clock body),
         sd_wall_time = Some (now E DeltaSite),
         sd_payload = Some p,
         sd_durable = pb_durable body,
         sd_tags = pb_tags body,
         sd_summary = unwrap_or [] (pb_summary body),
         sd_metadata = Some (metadata_from_map (pb_metadata body))\<rparr>,
      pd_parent_commit_ids = pb_parent_commit_ids body,
      pd_objective = unwrap_or [] (pb_objective body)\<rparr>"

definition checkpoint_request_of :: "env \<Rightarrow> checkpoint_body \<Rightarrow> payload \<Rightarrow> checkpoint_request" where
  "checkpoint_request_of E body p =
     \<lparr>cq_agent_id = cb_agent_id body,
      cq_run_id = cb_run_id body,
      cq_thread_id = unwrap_or [] (cb_thread_id body),
      cq_channel = cb_channel body,
      cq_objective = unwrap_or [] (cb_objective body),
      cq_payload = Some p,
      cq_parent_commit_ids = cb_parent_commit_ids body,
      cq_tags = cb_tags body,
      cq_summary = unwrap_or [] (cb_summary body),
      cq_metadata = Some (metadata_from_map (cb_metadata body)),
      cq_tool_calls = [],
      cq_tool_results = [],
      cq_artifact_refs = [],
      cq_external_side_effects =
        map (\<lambda>(n, e). side_effect_into_proto E n e)
          (enumerate 0 (unwrap_or [] (cb_external_side_effects body)))\<rparr>"

definition replay_mode_of_text :: "string option \<Rightarrow> replay_mode" where
  "replay_mode_of_text mode =
     (if mode = Some ''dry_run_tools'' then ModeDryRunTools
      else if mode = Some ''reexecute_tools'' then ModeReexecuteTools
      else ModeStateOnly)"

definition replay_request_of :: "replay_body \<Rightarrow> replay_request" where
  "replay_request_of body =
     \<lparr>rq_commit_id = yb_commit_id body, rq_mode = replay_mode_i32 (replay_mode_of_text (yb_mode body)),
      rq_confirm_reexecute_tools = unwrap_or False (yb_confirm_reexecute_tools body)\<rparr>"

definition fork_request_of :: "fork_body \<Rightarrow> fork_request" where
  "fork_request_of body =
     \<lparr>fq_source_commit_id = fb_source_commit_id body, fq_new_run_id = unwrap_or [] (fb_new_run_id body),
      fq_metadata = None\<rparr>"

definition rollback_request_of :: "rollback_body \<Rightarrow> rollback_request" where
  "rollback_request_of body =
     \<lparr>rb_head_commit_id = lb_head_commit_id body, rb_target_commit_id = lb_target_commit_id body,
      rb_force = unwrap_or False (lb_force body)\<rparr>"

definition diff_request_of :: "diff_query \<Rightarrow> diff_commits_request" where
  "diff_request_of query =
     \<lparr>dq_from_commit_id = dqy_from query, dq_to_commit_id = dqy_to query,
      dq_from_nearest_common_ancestor = unwrap_or False (dqy_from_nearest_common_ancestor query)\<rparr>"

section \<open>The universal event\<close>

text \<open>The two patterns of the source with each backslash written as an exclamation mark.\<close>

definition channel_re :: string where
  "channel_re = raw ''^[a-z][a-z0-9_]*:[A-Za-z0-9_.:!-*]+$''"

definition id_re :: string where
  "id_re = raw ''^[A-Za-z0-9_.:!-]+$''"

record universal_event_body =
  ue_run_id :: string
  ue_thread_id :: string
  ue_agent_id :: string
  ue_framework :: string
  ue_event_type :: string
  ue_channel :: string
  ue_tags :: "string list"
  ue_parent_commit_ids :: "string list"
  ue_metadata :: json

definition required_string :: "json_map \<Rightarrow> string \<Rightarrow> string \<Rightarrow> string api_result" where
  "required_string obj fld display =
     (case map_of obj fld of
        Some (JStr value) \<Rightarrow>
          if value \<noteq> [] then Inr value else Inl (BadRequest, display @ '' is required'')
      | _ \<Rightarrow> Inl (BadRequest, display @ '' is required''))"

definition required_id :: "env \<Rightarrow> json_map \<Rightarrow> string \<Rightarrow> string api_result" where
  "required_id E obj fld =
     (case required_string obj fld (''UniversalAgentEvent.'' @ fld) of
        Inl e \<Rightarrow> Inl e
      | Inr value \<Rightarrow>
          if \<not> is_match E id_re value
          then Inl (BadRequest, ''UniversalAgentEvent.'' @ fld @ '' contains invalid characters'')
          else Inr value)"

definition optional_string_array :: "json option \<Rightarrow> string \<Rightarrow> string list api_result" where
  "optional_string_array value fld =
     (case value of
        None \<Rightarrow> Inr []
      | Some (JArr vs) \<Rightarrow>
          if list_all (\<lambda>item. as_str item \<noteq> None) vs
          then Inr (map (\<lambda>item. unwrap_or [] (as_str item)) vs)
          else Inl (BadRequest, fld @ '' must be an array of commit ID strings'')
      | _ \<Rightarrow> Inl (BadRequest, fld @ '' must be an array of commit ID strings''))"

definition frameworks :: "string list" where
  "frameworks = [''autogen'', ''crewai'', ''custom'', ''generic'', ''langgraph'',
     ''microsoft-agent-framework'', ''vercel-ai'']"

definition event_types :: "string list" where
  "event_types = [''run_start'', ''run_end'', ''step_start'', ''step_end'', ''node_start'', ''node_end'',
     ''task_start'', ''task_end'', ''tool_start'', ''tool_end'', ''stream_delta'', ''message_delta'',
     ''state_checkpoint'', ''error'', ''custom'']"

definition timestamp_ok :: "json option \<Rightarrow> bool" where
  "timestamp_ok value =
     (case value of
        Some (JNum number) \<Rightarrow> (case as_i64 number of Some v \<Rightarrow> v > 0 | None \<Rightarrow> False)
      | _ \<Rightarrow> False)"

text \<open>The \<open>?\<close> operator on an \<open>ApiResult\<close>, and an early return unless a condition holds.\<close>

definition try_api :: "'a api_result \<Rightarrow> ('a \<Rightarrow> 'b api_result) \<Rightarrow> 'b api_result" where
  "try_api r f = (case r of Inl e \<Rightarrow> Inl e | Inr x \<Rightarrow> f x)"

definition ensure :: "bool \<Rightarrow> string \<Rightarrow> unit api_result" where
  "ensure b msg = (if b then Inr () else Inl (BadRequest, msg))"

definition try_from_value :: "env \<Rightarrow> json \<Rightarrow> universal_event_body api_result" where
  "try_from_value E value =
     (case as_object value of
        None \<Rightarrow> Inl (BadRequest, ''UniversalAgentEvent must be a JSON object'')
      | Some obj \<Rightarrow>
     try_api (required_string obj ''schema_version'' ''UniversalAgentEvent.schema_version'') (\<lambda>schema_version.
     try_api (ensure (schema_version = ''nexus.universal.v1'')
       ''UniversalAgentEvent.schema_version must be nexus.universal.v1'') (\<lambda>_.
     try_api (required_id E obj ''run_id'') (\<lambda>run_id.
     try_api (required_id E obj ''thread_id'') (\<lambda>thread_id.
     try_api (required_id E obj ''agent_id'') (\<lambda>agent_id.
     try_api (required_id E obj ''event_id'') (\<lambda>_.
     try_api (required_string obj ''framework'' ''UniversalAgentEvent.framework'') (\<lambda>framework.
     try_api (ensure (framework \<in> set frameworks)
       ''UniversalAgentEvent.framework must be one of autogen, crewai, custom, generic, langgraph, microsoft-agent-framework, vercel-ai'') (\<lambda>_.
     try_api (required_string obj ''event_type'' ''UniversalAgentEvent.event_type'') (\<lambda>event_type.
     try_api (ensure (event_type \<in> set event_types)
       ''UniversalAgentEvent.event_type is not supported by nexus.universal.v1'') (\<lambda>_.
     try_api (required_string obj ''channel'' ''UniversalAgentEvent.channel'') (\<lambda>channel.
     try_api (ensure (is_match E channel_re channel)
       ''channel must match allowed Nexus channel pattern'') (\<lambda>_.
     try_api (ensure (timestamp_ok (map_of obj ''timestamp_ms''))
       ''timestamp_ms must be an integer Unix timestamp in milliseconds'') (\<lambda>_.
     try_api (optional_string_array (map_of obj ''tags'') ''tags'') (\<lambda>tags.
     try_api (optional_string_array (map_of obj ''parent_commit_ids'') ''parent_commit_ids'') (\<lambda>parents.
     (let metadata = unwrap_or (JObj []) (map_of obj ''metadata'') in
     try_api (ensure (is_object metadata) ''metadata must be an object'') (\<lambda>_.
       Inr \<lparr>ue_run_id = run_id, ue_thread_id = thread_id, ue_agent_id = agent_id,
            ue_framework = framework, ue_event_type = event_type, ue_channel = channel,
            ue_tags = tags, ue_parent_commit_ids = parents, ue_metadata = metadata\<rparr>))))))))))))))))))"

definition validate_universal_event :: "env \<Rightarrow> json \<Rightarrow> unit api_result" where
  "validate_universal_event E value = try_api (try_from_value E value) (\<lambda>_. Inr ())"

definition event_request :: "env \<Rightarrow> universal_event_body \<Rightarrow> payload \<Rightarrow> checkpoint_request" where
  "event_request E body p =
     \<lparr>cq_agent_id = ue_agent_id body,
      cq_run_id = ue_run_id body,
      cq_thread_id = ue_thread_id body,
      cq_channel = ue_channel body,
      cq_objective = [],
      cq_payload = Some p,
      cq_parent_commit_ids = ue_parent_commit_ids body,
      cq_tags = ue_tags body,
      cq_summary = ue_framework body @ '' '' @ ue_event_type body,
      cq_metadata = Some (metadata_from_value E (ue_metadata body)),
      cq_tool_calls = [],
      cq_tool_results = [],
      cq_artifact_refs = [],
      cq_external_side_effects = []\<rparr>"

section \<open>Handlers\<close>

text \<open>
  A handler that only reads returns its answer; a handler that may change the state takes it and
  returns it. \<open>writes\<close> is the common shape of the latter: refuse, or run the operation.
\<close>

definition reads :: "app_state \<Rightarrow> string option \<Rightarrow> 'a api_result \<Rightarrow> 'a api_result" where
  "reads s header r = try_api (guard s header) (\<lambda>_. r)"

definition writes ::
    "app_state \<Rightarrow> string option \<Rightarrow> 'b api_result
       \<Rightarrow> ('b \<Rightarrow> app_state \<times> 'a api_result option) \<Rightarrow> app_state \<times> 'a api_result option" where
  "writes s header request f =
     (case try_api (guard s header) (\<lambda>_. request) of
        Inl e \<Rightarrow> (s, Some (Inl e))
      | Inr q \<Rightarrow> f q)"

definition http_health :: "app_state \<Rightarrow> json" where
  "http_health s =
     (let h = health s in json_object
       [(''status'', JStr (hr_status h)),
        (''daemonVersion'', JStr (hr_daemon_version h)),
        (''protocolVersion'', JStr (hr_protocol_version h)),
        (''authRequired'', JBool (hr_auth_required h)),
        (''bindMode'', JStr (hr_bind_mode h)),
        (''localOnly'', JBool (is_loopback (sa_ip (cf_grpc_addr (app_config s)))))])"

definition http_agents :: "string option \<Rightarrow> app_state \<Rightarrow> agent_info list api_result" where
  "http_agents header s = reads s header (Inr (agents (app_bus s)))"

definition http_register_agent ::
    "env \<Rightarrow> string option \<Rightarrow> register_agent_body \<Rightarrow> app_state \<Rightarrow> app_state \<times> json api_result option" where
  "http_register_agent E header body s =
     writes s header (Inr (register_request body)) (\<lambda>request.
       (let (s, r) = register_agent_inner E request s in
        (s, Some (Inr (json_object
          [(''accepted'', JBool (rar_accepted r)),
           (''agentId'', JStr (rar_agent_id r)),
           (''protocolVersion'', JStr (rar_protocol_version r)),
           (''grantedScopes'', json_strings (map scope_value (rar_granted_scopes r)))])))))"

definition http_channels :: "string option \<Rightarrow> app_state \<Rightarrow> channel_info list api_result" where
  "http_channels header s = reads s header (Inr (channels (app_bus s)))"

definition http_channel_snapshot :: "env \<Rightarrow> string option \<Rightarrow> string \<Rightarrow> app_state \<Rightarrow> json api_result" where
  "http_channel_snapshot E header channel s =
     reads s header (let snap = snapshot channel (app_bus s) in Inr (json_object
       [(''channel'', JStr (cs_channel snap)),
        (''latestPayload'', payload_to_json E (cs_latest_payload snap)),
        (''durableCount'', json_of_u64 (cs_durable_count snap)),
        (''ephemeralCount'', json_of_u64 (cs_ephemeral_count snap))]))"

definition http_channel_deltas :: "string option \<Rightarrow> string \<Rightarrow> app_state \<Rightarrow> delta_info list api_result" where
  "http_channel_deltas header channel s = reads s header (Inr (recent_deltas (Some channel) (app_bus s)))"

definition http_publish_delta ::
    "env \<Rightarrow> string option \<Rightarrow> publish_delta_body \<Rightarrow> app_state \<Rightarrow> app_state \<times> json api_result option" where
  "http_publish_delta E header body s =
     writes s header (payload_from_json E (pb_delta body)) (\<lambda>p.
       answer publish_json (publish_delta_inner E (publish_request E body p) s))"

definition http_checkpoint ::
    "env \<Rightarrow> string option \<Rightarrow> checkpoint_body \<Rightarrow> app_state \<Rightarrow> app_state \<times> json api_result option" where
  "http_checkpoint E header body s =
     writes s header (payload_from_json E (cb_state body)) (\<lambda>p.
       answer checkpoint_json (checkpoint_inner E (checkpoint_request_of E body p) s))"

definition http_universal_event ::
    "env \<Rightarrow> string option \<Rightarrow> json \<Rightarrow> app_state \<Rightarrow> app_state \<times> json api_result option" where
  "http_universal_event E header value s =
     writes s header
       (try_api (try_from_value E value) (\<lambda>body.
        try_api (payload_from_json E value) (\<lambda>p. Inr (event_request E body p))))
       (\<lambda>request. answer checkpoint_json (checkpoint_inner E request s))"

definition run_json :: "run_summary \<Rightarrow> json" where
  "run_json r = json_object
     [(''runId'', JStr (rsm_run_id r)),
      (''commitCount'', json_of_u64 (rsm_commit_count r)),
      (''lastCommitAt'', json_of_seconds (rsm_last_commit_at r))]"

definition http_runs :: "env \<Rightarrow> string option \<Rightarrow> app_state \<Rightarrow> json list api_result" where
  "http_runs E header s =
     reads s header (try_api (api_of (list_runs E (app_store s))) (\<lambda>runs. Inr (map run_json runs)))"

definition http_run_commits :: "env \<Rightarrow> string option \<Rightarrow> string \<Rightarrow> app_state \<Rightarrow> json list api_result" where
  "http_run_commits E header run_id s =
     reads s header (try_api (api_of (list_commits E (app_store s) (Some run_id) None None)) (\<lambda>commits.
       Inr (map commit_summary commits)))"

definition http_commit :: "env \<Rightarrow> string option \<Rightarrow> string \<Rightarrow> app_state \<Rightarrow> json api_result" where
  "http_commit E header commit_id s =
     reads s header (try_api (api_of (get_commit_inner E commit_id s)) (\<lambda>c. Inr (commit_detail E c)))"

text \<open>\<open>serde_json::from_str(text).unwrap_or(Value::String(text))\<close>.\<close>

definition parsed_or_text :: "env \<Rightarrow> string \<Rightarrow> json" where
  "parsed_or_text E txt = unwrap_or (JStr txt) (json_parse E txt)"

definition diff_entry_json :: "env \<Rightarrow> diff_entry \<Rightarrow> json" where
  "diff_entry_json E e = json_object
     [(''path'', JStr (de_path e)),
      (''changeType'', JStr (de_change_type e)),
      (''before'', parsed_or_text E (de_before_json e)),
      (''after'', parsed_or_text E (de_after_json e))]"

definition http_diff :: "env \<Rightarrow> string option \<Rightarrow> diff_query \<Rightarrow> app_state \<Rightarrow> json api_result" where
  "http_diff E header query s =
     reads s header (try_api (api_of (diff_inner E (diff_request_of query) s)) (\<lambda>d. Inr (json_object
       [(''fromCommitId'', JStr (cd_from_commit_id d)),
        (''toCommitId'', JStr (cd_to_commit_id d)),
        (''humanSummary'', JStr (cd_human_summary d)),
        (''entries'', JArr (map (diff_entry_json E) (cd_entries d)))])))"

definition replay_json :: "env \<Rightarrow> replay_result \<Rightarrow> json" where
  "replay_json E r = json_object
     [(''commitId'', JStr (rs_commit_id r)),
      (''reconstructedState'', payload_to_json E (rs_reconstructed_state r)),
      (''sideEffectWarnings'', json_strings (rs_side_effect_warnings r)),
      (''provenanceCommitIds'', json_strings (rs_provenance_commit_ids r)),
      (''missingArtifactWarnings'', json_strings (rs_missing_artifact_warnings r))]"

definition http_replay :: "env \<Rightarrow> string option \<Rightarrow> replay_body \<Rightarrow> app_state \<Rightarrow> json api_result option" where
  "http_replay E header body s =
     (case guard s header of
        Inl e \<Rightarrow> Some (Inl e)
      | Inr _ \<Rightarrow> map_option (\<lambda>r. try_api (api_of r) (\<lambda>x. Inr (replay_json E x)))
                  (replay_inner E (replay_request_of body) s))"

definition http_fork ::
    "env \<Rightarrow> string option \<Rightarrow> fork_body \<Rightarrow> app_state \<Rightarrow> app_state \<times> json api_result option" where
  "http_fork E header body s =
     writes s header (Inr (fork_request_of body)) (\<lambda>request.
       answer (\<lambda>r. json_object
         [(''sourceCommitId'', JStr (fr_source_commit_id r)),
          (''runId'', JStr (fr_run_id r)),
          (''headCommitId'', JStr (fr_head_commit_id r))]) (fork_inner E request s))"

definition http_rollback ::
    "env \<Rightarrow> string option \<Rightarrow> rollback_body \<Rightarrow> app_state \<Rightarrow> app_state \<times> json api_result option" where
  "http_rollback E header body s =
     writes s header (Inr (rollback_request_of body)) (\<lambda>request.
       answer (\<lambda>r. json_object
         [(''moved'', JBool (rbr_moved r)),
          (''previousHeadCommitId'', JStr (rbr_previous_head_commit_id r)),
          (''newHeadCommitId'', JStr (rbr_new_head_commit_id r)),
          (''warnings'', json_strings (rbr_warnings r))]) (rollback_inner E request s))"

definition warning_json :: "loop_warning \<Rightarrow> json" where
  "warning_json w = json_object
     [(''warningId'', JStr (lw_warning_id w)),
      (''runId'', JStr (lw_run_id w)),
      (''agentId'', JStr (lw_agent_id w)),
      (''channel'', JStr (lw_channel w)),
      (''severity'', json_of_i32 (lw_severity w)),
      (''fingerprint'', JStr (lw_fingerprint w)),
      (''repetitionCount'', json_of_u64 (lw_repetition_count w)),
      (''suggestedStableCommitId'', JStr (lw_suggested_stable_commit_id w)),
      (''message'', JStr (lw_message w))]"

definition http_loop_warnings :: "env \<Rightarrow> string option \<Rightarrow> app_state \<Rightarrow> json list api_result" where
  "http_loop_warnings E header s =
     reads s header (try_api (api_of (list_loop_warnings E (app_store s))) (\<lambda>ws. Inr (map warning_json ws)))"

definition http_metrics_summary :: "string option \<Rightarrow> app_state \<Rightarrow> metrics_summary api_result" where
  "http_metrics_summary header s = reads s header (Inr (summary (bus_metrics (app_bus s))))"

text \<open>The data of one event of \<open>events_stream\<close>, which has no guard.\<close>

definition events_stream_json :: "app_state \<Rightarrow> json" where
  "events_stream_json s = json_object
     [(''type'', JStr ''summary''),
      (''agents'', json_of_nat (agent_count (app_bus s))),
      (''channels'', json_of_nat (channel_count (app_bus s))),
      (''commits'', json_of_u64 (mt_commits_total (bus_metrics (app_bus s)))),
      (''loopWarnings'', json_of_u64 (mt_loop_warnings_total (bus_metrics (app_bus s))))]"

section \<open>The routes\<close>

datatype http_request =
    GetHealth
  | GetAgents
  | PostRegister register_agent_body
  | GetChannels
  | GetSnapshot string
  | GetDeltas string
  | PostDelta publish_delta_body
  | PostEvent json
  | PostCheckpoint checkpoint_body
  | GetRuns
  | GetRunCommits string
  | GetCommit string
  | GetDiff diff_query
  | PostReplay replay_body
  | PostFork fork_body
  | PostRollback rollback_body
  | GetLoopWarnings
  | GetMetricsSummary
  | GetEventsStream

datatype http_reply =
    RJson json
  | RList "json list"
  | RAgents "agent_info list"
  | RChannels "channel_info list"
  | RDeltas "delta_info list"
  | RMetrics metrics_summary

definition reply :: "('a \<Rightarrow> http_reply) \<Rightarrow> 'a api_result \<Rightarrow> http_reply api_result" where
  "reply f r = try_api r (\<lambda>x. Inr (f x))"

definition stay :: "('a \<Rightarrow> http_reply) \<Rightarrow> app_state \<Rightarrow> 'a api_result \<Rightarrow> app_state \<times> http_reply api_result option" where
  "stay f s r = (s, Some (reply f r))"

definition moved :: "app_state \<times> json api_result option \<Rightarrow> app_state \<times> http_reply api_result option" where
  "moved r = (fst r, map_option (reply RJson) (snd r))"

fun serve_http ::
    "env \<Rightarrow> string option \<Rightarrow> http_request \<Rightarrow> app_state \<Rightarrow> app_state \<times> http_reply api_result option" where
  "serve_http E header GetHealth s = stay RJson s (Inr (http_health s))"
| "serve_http E header GetAgents s = stay RAgents s (http_agents header s)"
| "serve_http E header (PostRegister b) s = moved (http_register_agent E header b s)"
| "serve_http E header GetChannels s = stay RChannels s (http_channels header s)"
| "serve_http E header (GetSnapshot c) s = stay RJson s (http_channel_snapshot E header c s)"
| "serve_http E header (GetDeltas c) s = stay RDeltas s (http_channel_deltas header c s)"
| "serve_http E header (PostDelta b) s = moved (http_publish_delta E header b s)"
| "serve_http E header (PostEvent v) s = moved (http_universal_event E header v s)"
| "serve_http E header (PostCheckpoint b) s = moved (http_checkpoint E header b s)"
| "serve_http E header GetRuns s = stay RList s (http_runs E header s)"
| "serve_http E header (GetRunCommits r) s = stay RList s (http_run_commits E header r s)"
| "serve_http E header (GetCommit c) s = stay RJson s (http_commit E header c s)"
| "serve_http E header (GetDiff q) s = stay RJson s (http_diff E header q s)"
| "serve_http E header (PostReplay b) s = (s, map_option (reply RJson) (http_replay E header b s))"
| "serve_http E header (PostFork b) s = moved (http_fork E header b s)"
| "serve_http E header (PostRollback b) s = moved (http_rollback E header b s)"
| "serve_http E header GetLoopWarnings s = stay RList s (http_loop_warnings E header s)"
| "serve_http E header GetMetricsSummary s = stay RMetrics s (http_metrics_summary header s)"
| "serve_http E header GetEventsStream s = stay RJson s (Inr (events_stream_json s))"

text \<open>metrics.rs, \<open>serve\<close>: the second listener; neither of its routes has a guard.\<close>

definition metrics_text :: "app_state \<Rightarrow> string" where
  "metrics_text s = prometheus (bus_metrics (app_bus s))"

definition metrics_endpoint_summary :: "app_state \<Rightarrow> metrics_summary" where
  "metrics_endpoint_summary s = summary (bus_metrics (app_bus s))"

section \<open>The guard\<close>

definition open_route :: "http_request \<Rightarrow> bool" where
  "open_route r \<longleftrightarrow> r = GetHealth \<or> r = GetEventsStream"

lemma try_api_simps [simp]: "try_api (Inl e) f = Inl e" "try_api (Inr x) f = f x"
  by (simp_all add: try_api_def)

text \<open>
  Every handler but health and the event stream starts with the guard: a request that the extractors
  have read and whose header is refused gets the guard's status, and has no effect.
\<close>

lemma guarded_handlers:
  assumes "validate_http header (app_config s) = Inl status" "\<not> open_route r"
  shows "serve_http E header r s = (s, Some (Inl (status, guard_message)))"
  using assms
  by (cases r) (simp_all add: open_route_def stay_def moved_def reply_def reads_def writes_def guard_def
      http_agents_def http_register_agent_def http_channels_def http_channel_snapshot_def
      http_channel_deltas_def http_publish_delta_def http_universal_event_def http_checkpoint_def
      http_runs_def http_run_commits_def http_commit_def http_diff_def http_replay_def http_fork_def
      http_rollback_def http_loop_warnings_def http_metrics_summary_def)

section \<open>What a universal event must be\<close>

text \<open>The language of \<open>ID_RE\<close> and of \<open>CHANNEL_RE\<close>.\<close>

definition id_char :: "char \<Rightarrow> bool" where
  "id_char c \<longleftrightarrow> (let n = (of_char c :: nat) in
     65 \<le> n \<and> n \<le> 90 \<or> 97 \<le> n \<and> n \<le> 122 \<or> 48 \<le> n \<and> n \<le> 57
     \<or> c = CHR ''_'' \<or> c = CHR ''.'' \<or> c = CHR '':'' \<or> c = CHR ''-'')"

definition id_text :: "string \<Rightarrow> bool" where
  "id_text s \<longleftrightarrow> s \<noteq> [] \<and> list_all id_char s"

definition kind_char :: "char \<Rightarrow> bool" where
  "kind_char c \<longleftrightarrow> (let n = (of_char c :: nat) in 97 \<le> n \<and> n \<le> 122 \<or> 48 \<le> n \<and> n \<le> 57 \<or> c = CHR ''_'')"

definition channel_text :: "string \<Rightarrow> bool" where
  "channel_text s \<longleftrightarrow>
     (case s of
        [] \<Rightarrow> False
      | c # rest \<Rightarrow> 97 \<le> (of_char c :: nat) \<and> (of_char c :: nat) \<le> 122
          \<and> (let name = drop 1 (dropWhile kind_char rest) in
               prefix '':'' (dropWhile kind_char rest) \<and> name \<noteq> []
               \<and> list_all (\<lambda>x. id_char x \<or> x = CHR ''*'') name))"

definition regex_spec :: "env \<Rightarrow> bool" where
  "regex_spec E \<longleftrightarrow> (\<forall>s. is_match E id_re s = id_text s) \<and> (\<forall>s. is_match E channel_re s = channel_text s)"

lemma try_api_Inr: "try_api r f = Inr y \<longleftrightarrow> (\<exists>x. r = Inr x \<and> f x = Inr y)"
  by (cases r) simp_all

lemma ensure_Inr: "ensure b m = Inr u \<longleftrightarrow> b"
  by (simp add: ensure_def)

lemma required_string_Inr:
  "required_string obj f d = Inr s \<longleftrightarrow> map_of obj f = Some (JStr s) \<and> s \<noteq> []"
  by (auto simp: required_string_def split: option.splits json.splits if_splits)

lemma required_id_Inr:
  "required_id E obj f = Inr s \<longleftrightarrow> map_of obj f = Some (JStr s) \<and> s \<noteq> [] \<and> is_match E id_re s"
  by (auto simp: required_id_def required_string_Inr split: sum.splits if_splits)
    (auto simp: required_string_def)

lemma as_str_all:
  "list_all (\<lambda>item. as_str item \<noteq> None) vs \<Longrightarrow> map JStr (map (\<lambda>item. unwrap_or [] (as_str item)) vs) = vs"
proof (induction vs)
  case (Cons v vs)
  then show ?case by (cases v) auto
qed simp

lemma optional_string_array_Inr:
  "optional_string_array v f = Inr xs \<longleftrightarrow> v = None \<and> xs = [] \<or> v = Some (JArr (map JStr xs))"
proof -
  have "list_all (\<lambda>item. as_str item \<noteq> None) (map JStr xs)"
    "map (\<lambda>item. unwrap_or [] (as_str item)) (map JStr xs) = xs" for xs
    by (induction xs) auto
  then show ?thesis using as_str_all
    by (auto simp: optional_string_array_def split: option.splits json.splits if_splits)
qed

lemma as_object_Some: "as_object v = Some m \<longleftrightarrow> v = JObj m"
  by (cases v) auto

lemma timestamp_ok_iff:
  "timestamp_ok v \<longleftrightarrow> (\<exists>n t. v = Some (JNum n) \<and> as_i64 n = Some t \<and> 0 < t)"
  by (auto simp: timestamp_ok_def split: option.splits json.splits)

lemmas event_checks = try_api_Inr ensure_Inr required_string_Inr required_id_Inr
  optional_string_array_Inr timestamp_ok_iff

lemma try_from_value_Inr:
  "try_from_value E v = Inr b \<longleftrightarrow> (\<exists>obj. v = JObj obj
     \<and> map_of obj ''schema_version'' = Some (JStr ''nexus.universal.v1'')
     \<and> required_id E obj ''run_id'' = Inr (ue_run_id b)
     \<and> required_id E obj ''thread_id'' = Inr (ue_thread_id b)
     \<and> required_id E obj ''agent_id'' = Inr (ue_agent_id b)
     \<and> (\<exists>i. required_id E obj ''event_id'' = Inr i)
     \<and> map_of obj ''framework'' = Some (JStr (ue_framework b)) \<and> ue_framework b \<in> set frameworks
     \<and> map_of obj ''event_type'' = Some (JStr (ue_event_type b)) \<and> ue_event_type b \<in> set event_types
     \<and> map_of obj ''channel'' = Some (JStr (ue_channel b)) \<and> ue_channel b \<noteq> []
     \<and> is_match E channel_re (ue_channel b)
     \<and> timestamp_ok (map_of obj ''timestamp_ms'')
     \<and> optional_string_array (map_of obj ''tags'') ''tags'' = Inr (ue_tags b)
     \<and> optional_string_array (map_of obj ''parent_commit_ids'') ''parent_commit_ids'' = Inr (ue_parent_commit_ids b)
     \<and> ue_metadata b = unwrap_or (JObj []) (map_of obj ''metadata'') \<and> is_object (ue_metadata b))"
proof (cases "as_object v")
  case None
  then show ?thesis by (cases v) (simp_all add: try_from_value_def)
next
  case (Some obj)
  have ne: "[] \<notin> set frameworks" "[] \<notin> set event_types" by (simp_all add: frameworks_def event_types_def)
  show ?thesis
  proof (cases b)
    case (fields r t a f e c tags ps m)
    show ?thesis unfolding try_from_value_def Some option.case Let_def fields
      using Some ne by (auto simp: try_api_Inr ensure_Inr required_string_Inr as_object_Some)
  qed
qed

definition absent_or_strings :: "json option \<Rightarrow> bool" where
  "absent_or_strings v \<longleftrightarrow> (case v of
     None \<Rightarrow> True | Some (JArr vs) \<Rightarrow> list_all (\<lambda>x. as_str x \<noteq> None) vs | _ \<Rightarrow> False)"

lemma optional_string_array_ok: "(\<exists>xs. optional_string_array v f = Inr xs) \<longleftrightarrow> absent_or_strings v"
  by (auto simp: optional_string_array_def absent_or_strings_def split: option.splits json.splits)

definition string_at :: "json_map \<Rightarrow> string \<Rightarrow> (string \<Rightarrow> bool) \<Rightarrow> bool" where
  "string_at obj f P \<longleftrightarrow> (case map_of obj f of Some (JStr s) \<Rightarrow> P s | _ \<Rightarrow> False)"

lemma string_at_iff: "string_at obj f P \<longleftrightarrow> (\<exists>s. map_of obj f = Some (JStr s) \<and> P s)"
  by (auto simp: string_at_def split: option.splits json.splits)

text \<open>
  What \<open>try_from_value\<close> asks of an object. It is less than docs/protocol.md requires of an event, whose
  list of required fields also has \<open>language\<close>, \<open>metadata\<close>, \<open>tags\<close> and \<open>parent_commit_ids\<close>.
\<close>

definition event_ok :: "json_map \<Rightarrow> bool" where
  "event_ok obj \<longleftrightarrow>
     string_at obj ''schema_version'' (\<lambda>s. s = ''nexus.universal.v1'')
     \<and> list_all (\<lambda>f. string_at obj f id_text) [''run_id'', ''thread_id'', ''agent_id'', ''event_id'']
     \<and> string_at obj ''framework'' (\<lambda>s. s \<in> set frameworks)
     \<and> string_at obj ''event_type'' (\<lambda>s. s \<in> set event_types)
     \<and> string_at obj ''channel'' channel_text
     \<and> timestamp_ok (map_of obj ''timestamp_ms'')
     \<and> absent_or_strings (map_of obj ''tags'') \<and> absent_or_strings (map_of obj ''parent_commit_ids'')
     \<and> is_object (unwrap_or (JObj []) (map_of obj ''metadata''))"

lemma event_ok_values:
  assumes "regex_spec E"
  shows "event_ok obj \<longleftrightarrow> (\<exists>b. try_from_value E (JObj obj) = Inr b)"
proof
  have ids: "(\<exists>i. required_id E obj f = Inr i) \<longleftrightarrow> string_at obj f id_text" for f
    using assms by (auto simp: required_id_Inr string_at_iff regex_spec_def id_text_def)
  assume ok: "event_ok obj"
  then have "string_at obj ''run_id'' id_text" "string_at obj ''thread_id'' id_text"
    "string_at obj ''agent_id'' id_text" "string_at obj ''event_id'' id_text"
    by (simp_all add: event_ok_def)
  then obtain r t a i where req: "required_id E obj ''run_id'' = Inr r" "required_id E obj ''thread_id'' = Inr t"
    "required_id E obj ''agent_id'' = Inr a" "required_id E obj ''event_id'' = Inr i"
    unfolding ids [symmetric] by blast
  from ok obtain fw ty ch where strs: "map_of obj ''framework'' = Some (JStr fw)" "fw \<in> set frameworks"
    "map_of obj ''event_type'' = Some (JStr ty)" "ty \<in> set event_types"
    "map_of obj ''channel'' = Some (JStr ch)" "channel_text ch"
    "map_of obj ''schema_version'' = Some (JStr ''nexus.universal.v1'')"
    by (auto simp: event_ok_def string_at_iff)
  from ok obtain tags ps where arrs: "optional_string_array (map_of obj ''tags'') ''tags'' = Inr tags"
    "optional_string_array (map_of obj ''parent_commit_ids'') ''parent_commit_ids'' = Inr ps"
    using optional_string_array_ok [of "map_of obj ''tags''" "''tags''"]
      optional_string_array_ok [of "map_of obj ''parent_commit_ids''" "''parent_commit_ids''"]
    unfolding event_ok_def by blast
  have "ch \<noteq> []" "is_match E channel_re ch"
    using strs(6) assms by (auto simp: channel_text_def regex_spec_def)
  then have "try_from_value E (JObj obj) = Inr \<lparr>ue_run_id = r, ue_thread_id = t, ue_agent_id = a,
     ue_framework = fw, ue_event_type = ty, ue_channel = ch, ue_tags = tags,
     ue_parent_commit_ids = ps, ue_metadata = unwrap_or (JObj []) (map_of obj ''metadata'')\<rparr>"
    using req strs arrs ok unfolding try_from_value_Inr by (simp add: event_ok_def)
  then show "\<exists>b. try_from_value E (JObj obj) = Inr b" by blast
next
  assume "\<exists>b. try_from_value E (JObj obj) = Inr b"
  then obtain b where b: "try_from_value E (JObj obj) = Inr b" by blast
  have ids: "string_at obj f id_text" if "required_id E obj f = Inr i" for f i
    using that assms by (auto simp: required_id_Inr string_at_iff regex_spec_def id_text_def)
  show "event_ok obj"
    using b assms optional_string_array_ok [of "map_of obj ''tags''" "''tags''"]
      optional_string_array_ok [of "map_of obj ''parent_commit_ids''" "''parent_commit_ids''"]
    unfolding try_from_value_Inr event_ok_def
    by (auto simp: string_at_iff [of _ _ "\<lambda>s. s = _"] string_at_iff [of _ _ "\<lambda>s. s \<in> _"]
        string_at_iff [of _ _ channel_text] regex_spec_def dest: ids)
qed

text \<open>Four of the fields that docs/protocol.md requires.\<close>

definition unchecked_fields :: "string set" where
  "unchecked_fields = {''language'', ''metadata'', ''tags'', ''parent_commit_ids''}"

lemma map_of_without: "map_of (filter (\<lambda>kv. fst kv \<notin> A) m) f = (if f \<in> A then None else map_of m f)"
  by (induction m) auto

lemma event_ok_without: "event_ok obj \<Longrightarrow> event_ok (filter (\<lambda>kv. fst kv \<notin> unchecked_fields) obj)"
proof -
  have "event_ok m" if "event_ok obj" "\<And>f. map_of m f = (if f \<in> unchecked_fields then None else map_of obj f)" for m
    using that(1) by (simp add: event_ok_def string_at_def that(2) unchecked_fields_def absent_or_strings_def)
  then show "event_ok obj \<Longrightarrow> event_ok (filter (\<lambda>kv. fst kv \<notin> unchecked_fields) obj)"
    using map_of_without [of unchecked_fields obj] by blast
qed

lemma validate_iff:
  assumes "regex_spec E"
  shows "validate_universal_event E value = Inr () \<longleftrightarrow> (\<exists>obj. value = JObj obj \<and> event_ok obj)"
proof (cases "as_object value")
  case None
  then show ?thesis by (cases "value") (simp_all add: validate_universal_event_def try_from_value_def)
next
  case (Some obj)
  then have v: "value = JObj obj" by (simp only: as_object_Some)
  show ?thesis unfolding v validate_universal_event_def try_api_Inr
    using event_ok_values [OF assms, of obj] by simp
qed

text \<open>
  Claim C36. What the validation of universal events asks for: an event is accepted exactly when it is
  an object with the schema version, well-formed run, thread, agent and event ids, a known framework
  and event type, a channel of the allowed form and a positive integer timestamp, whose tags and
  parent ids, if present, are lists of strings and whose metadata, if present, is an object. This is
  less than docs/protocol.md requires: an accepted event stays accepted without the language, metadata,
  tags and parent ids that are listed there as required. The two regular expressions are assumed to
  mean what their syntax says (\<open>regex_spec\<close>).
\<close>

theorem universal_event_accepts_iff:
  assumes "regex_spec E"
  shows "(validate_universal_event E value = Inr () \<longleftrightarrow> (\<exists>obj. value = JObj obj \<and> event_ok obj))
     \<and> (\<forall>obj. validate_universal_event E (JObj obj) = Inr ()
          \<longrightarrow> validate_universal_event E (JObj (filter (\<lambda>kv. fst kv \<notin> unchecked_fields) obj)) = Inr ())"
  unfolding validate_iff [OF assms] using event_ok_without by blast

section \<open>An event\<close>

definition match_env :: env where
  "match_env = example_env\<lparr>is_match := (\<lambda>p s. if p = id_re then id_text s else channel_text s),
     json_print := (\<lambda>v. Inr ''{}'')\<rparr>"

definition run_start :: json_map where
  "run_start =
     [(''agent_id'', JStr ''a-1''), (''channel'', JStr ''events:r1:t1''), (''event_id'', JStr ''e1''),
      (''event_type'', JStr ''run_start''), (''framework'', JStr ''langgraph''), (''run_id'', JStr ''r1''),
      (''schema_version'', JStr ''nexus.universal.v1''), (''thread_id'', JStr ''t1''),
      (''timestamp_ms'', JNum (PosInt 1700000000000))]"

lemma match_env_spec: "regex_spec match_env"
  by (simp add: regex_spec_def match_env_def id_re_def channel_re_def raw_def)

lemma id_texts: "id_text ''a-1''" "id_text ''e1''" "id_text ''r1''" "id_text ''t1''"
  "channel_text ''events:r1:t1''"
  by code_simp+

theorem universal_event_accepts_iff_witness:
  "validate_universal_event match_env (JObj run_start) = Inr ()
   \<and> validate_universal_event match_env (JObj (filter (\<lambda>kv. fst kv \<noteq> ''run_id'') run_start)) \<noteq> Inr ()"
proof -
  note iff = universal_event_accepts_iff [OF match_env_spec, THEN conjunct1]
  show ?thesis unfolding iff
    by (simp add: event_ok_def run_start_def string_at_def id_texts frameworks_def event_types_def
        timestamp_ok_def absent_or_strings_def)
qed

section \<open>An agent without grants\<close>

lemma contains_denied:
  "contains ''not found'' (channel_write ch) = contains ''not found'' ch"
  by (simp add: channel_write_def)

text \<open>
  Under authentication an agent that has not registered cannot publish: the request has no
  effect. What it is told depends on the name of the channel: the status is chosen by searching
  the message, which quotes the channel, so the refusal is a 403 unless the channel's name contains
  "not found", when it is a 404.
\<close>

theorem unregistered_agent_denied:
  assumes "validate_http header (app_config s) = Inr ()" "cf_require_auth (app_config s)"
    and "map_of (app_grants s) (pb_agent_id b) = None"
    and "json_print E (pb_delta b) = Inr bs"
  shows "serve_http E header (PostDelta b) s =
     (s, Some (Inl (if contains ''not found'' (pb_channel b) then NotFound else Forbidden,
                    ''permission denied for '' @ channel_write (pb_channel b))))"
proof -
  have "new_id E DeltaSite ''delta'' \<noteq> []" by (simp add: new_id_def)
  then have n: "normalize_delta E (the (pd_delta (publish_request E b p))) = the (pd_delta (publish_request E b p))" for p
    by (simp add: normalize_delta_def publish_request_def Let_def)
  have d: "\<exists>d. pd_delta (publish_request E b p) = Some d \<and> normalize_delta E d = d \<and>
     sd_agent_id d = pb_agent_id b \<and> sd_channel d = pb_channel b" for p
    using n [of p] by (simp add: publish_request_def)
  have "ensure_channel_permission (pb_agent_id b) (channel_write (pb_channel b)) s =
      Inl (Anyhow (''permission denied for '' @ channel_write (pb_channel b)))"
    using assms by (simp add: ensure_channel_permission_def is_allowed_def)
  then have "publish_delta_inner E (publish_request E b p) s =
      (s, Failed (Anyhow (''permission denied for '' @ channel_write (pb_channel b))))" for p
    using d [of p] by (auto simp: publish_delta_inner_def Let_def)
  moreover have "contains ''permission denied'' (''permission denied for '' @ x)" for x
    by simp
  ultimately show ?thesis using assms
    by (simp add: moved_def reply_def http_publish_delta_def writes_def guard_def payload_from_json_def
        internal_error_def Let_def contains_denied)
qed

theorem unregistered_agent_denied_witness:
  "snd (serve_http match_env (Some ''Bearer t'') (PostDelta
      \<lparr>pb_channel = ''topic:not found'', pb_agent_id = ''a'', pb_run_id = ''r'', pb_thread_id = None,
       pb_delta = JNull, pb_durable = True, pb_tags = [], pb_summary = None, pb_objective = None,
       pb_logical_clock = None, pb_parent_commit_ids = [], pb_metadata = []\<rparr>)
      (new_state example_config (new_bus new_metrics) (open_store example_config) dag_default))
   = Some (Inl (NotFound, ''permission denied for channel:write:topic:not found''))"
  by (subst unregistered_agent_denied [where bs = "''{}''"])
    (simp_all add: new_state_def validate_http_def example_config_def bearer_def visible_ascii_def
      strip_prefix_def match_env_def channel_write_def)

end
