(* ===== verification/Ledger.thy ===== *)
theory Ledger
  imports Rollback Reachability
begin

text \<open>
  The ledger as the daemon keeps it: the DAG index in memory and the store on disk. What an
  operation may do to the pair is a step relation. It translates no code and allows more than the
  code does; its invariants hold in every state that any sequence of such steps reaches, and the
  operations of \<open>AppState\<close> are shown to be sequences of them in the theory of the whole system.
\<close>

section \<open>Steps\<close>

record ledger =
  lg_dag :: dag_index
  lg_store :: sqlite_store

text \<open>Requests differ in clock, ids and faults, but not in the codec.\<close>

definition same_codec :: "env \<Rightarrow> env \<Rightarrow> bool" where
  "same_codec E E0 \<longleftrightarrow> encode_commit E = encode_commit E0 \<and> decode_commit E = decode_commit E0"

text \<open>The codec reads the commit back, and its id does not clash with another stored commit.\<close>

definition admissible :: "env \<Rightarrow> sqlite_store \<Rightarrow> commit \<Rightarrow> bool" where
  "admissible E0 s c \<longleftrightarrow> codec_ok E0 c \<and> (\<forall>d. history E0 s (cm_commit_id c) = Some d \<longrightarrow> d = c)"

text \<open>
  \<open>persist\<close> is the success of \<open>persist_commit\<close> up to the head, \<open>index\<close> its failure between index
  and store, possible only where the store may fail (\<open>lossy\<close>), \<open>head\<close> a head moved to a stored
  commit, and \<open>other\<close> anything that touches neither commits nor heads.
\<close>

inductive ledger_step :: "env \<Rightarrow> bool \<Rightarrow> ledger \<Rightarrow> ledger \<Rightarrow> bool" for E0 lossy where
  persist: "append (lg_dag l) c = Inr d \<Longrightarrow> same_codec E E0 \<Longrightarrow> admissible E0 (lg_store l) c \<Longrightarrow>
    append_commit E c (lg_store l) = Inr s \<Longrightarrow>
    ledger_step E0 lossy l \<lparr>lg_dag = d, lg_store = s\<rparr>"
| index: "lossy \<Longrightarrow> append (lg_dag l) c = Inr d \<Longrightarrow> admissible E0 (lg_store l) c \<Longrightarrow>
    ledger_step E0 lossy l \<lparr>lg_dag = d, lg_store = lg_store l\<rparr>"
| head: "set_head E r t a ch i (lg_store l) = Inr s \<Longrightarrow> i \<in> dom (history E0 (lg_store l)) \<Longrightarrow>
    ledger_step E0 lossy l \<lparr>lg_dag = lg_dag l, lg_store = s\<rparr>"
| other: "st_commits s = st_commits (lg_store l) \<Longrightarrow> st_heads s = st_heads (lg_store l) \<Longrightarrow>
    ledger_step E0 lossy l \<lparr>lg_dag = lg_dag l, lg_store = s\<rparr>"

inductive_cases ledger_stepE: "ledger_step E0 lossy l l'"

abbreviation ledger_steps :: "env \<Rightarrow> bool \<Rightarrow> ledger \<Rightarrow> ledger \<Rightarrow> bool" where
  "ledger_steps E0 lossy \<equiv> (ledger_step E0 lossy)\<^sup>*\<^sup>*"

definition empty_ledger :: "config \<Rightarrow> ledger" where
  "empty_ledger config = \<lparr>lg_dag = dag_default, lg_store = open_store config\<rparr>"

section \<open>Invariants\<close>

text \<open>
  The index has no cycle, the rows decode, the index knows every stored commit with the parents
  it is stored with, and every head is a stored commit.
\<close>

definition ledger_ok :: "env \<Rightarrow> ledger \<Rightarrow> bool" where
  "ledger_ok E0 l \<longleftrightarrow> dag_ok (lg_dag l) \<and> store_ok E0 (lg_store l)
     \<and> (\<forall>i c. history E0 (lg_store l) i = Some c \<longrightarrow>
          map_of (dg_parents (lg_dag l)) i = Some (cm_parent_commit_ids c))
     \<and> (\<forall>k h. map_of (st_heads (lg_store l)) k = Some h \<longrightarrow>
          hd_commit_id h \<in> dom (history E0 (lg_store l)))"

text \<open>Without lost writes the index knows nothing else.\<close>

definition ledger_complete :: "env \<Rightarrow> ledger \<Rightarrow> bool" where
  "ledger_complete E0 l \<longleftrightarrow> set (keys (dg_parents (lg_dag l))) = dom (history E0 (lg_store l))"

lemma same_codec_refl [simp]: "same_codec E E"
  by (simp add: same_codec_def)

lemma codec_cong:
  assumes "same_codec E E0"
  shows "codec_ok E = codec_ok E0" "history E = history E0" "store_ok E = store_ok E0"
proof -
  show c: "codec_ok E = codec_ok E0"
    using assms by (auto simp: same_codec_def codec_ok_def)
  have "row_of E t c = row_of E0 t c" for t c
    using assms by (simp add: same_codec_def row_of_def)
  then have "row_ok E r = row_ok E0 r" for r by (simp add: row_ok_def c)
  then show "store_ok E = store_ok E0" by (auto simp: store_ok_def list_all_iff)
  have "decode_commit E = decode_commit E0" using assms by (simp add: same_codec_def)
  then show "history E = history E0" by (auto simp: history_def fun_eq_iff split: option.splits)
qed

lemma append_parents:
  "append d c = Inr d' \<Longrightarrow> map_of (dg_parents d') i =
     (if i = cm_commit_id c then Some (cm_parent_commit_ids c) else map_of (dg_parents d) i)"
  "append d c = Inr d' \<Longrightarrow> set (keys (dg_parents d')) = insert (cm_commit_id c) (set (keys (dg_parents d)))"
  by (auto simp: append_Inr_iff table_simps simp del: set_map)

lemma ledger_ok_empty [simp]: "ledger_ok E0 (empty_ledger config)"
  by (simp add: ledger_ok_def empty_ledger_def history_def open_store_def store_ok_open [unfolded open_store_def])

lemma ledger_complete_empty [simp]: "ledger_complete E0 (empty_ledger config)"
  by (auto simp: ledger_complete_def empty_ledger_def dag_default_def history_def open_store_def)

lemma persist_history:
  assumes "store_ok E0 s" "same_codec E E0" "admissible E0 s c" "append_commit E c s = Inr s'"
  shows "store_ok E0 s'" "history E0 s' = (history E0 s)(cm_commit_id c \<mapsto> c)"
    "st_heads s' = st_heads s"
proof -
  have E: "store_ok E s" "codec_ok E c"
    using assms(1-3) by (simp_all add: codec_cong admissible_def)
  show "store_ok E0 s'" using append_commit_ok [OF E assms(4)] by (simp add: codec_cong [OF assms(2)])
  have "unwrap_or c (history E0 s (cm_commit_id c)) = c"
    using assms(3) by (cases "history E0 s (cm_commit_id c)") (simp_all add: admissible_def)
  then show "history E0 s' = (history E0 s)(cm_commit_id c \<mapsto> c)"
    using append_commit_history [OF E assms(4)] by (simp add: codec_cong [OF assms(2)])
  show "st_heads s' = st_heads s" using assms(4) by (rule append_commit_effect)
qed

lemma set_head_keeps:
  "set_head E r t a ch i s = Inr s' \<Longrightarrow> store_ok E0 s \<Longrightarrow>
   store_ok E0 s' \<and> history E0 s' = history E0 s"
  by (auto simp: set_head_def result_simps Let_def store_ok_def history_def map_of_eq_None_iff
      split: option.splits)

lemma ledger_step_ok:
  assumes "ledger_step E0 lossy l l'" "ledger_ok E0 l"
  shows "ledger_ok E0 l'"
  using assms
proof (induction rule: ledger_step.induct)
  case (persist l c d E s)
  have ok: "store_ok E0 (lg_store l)" "dag_ok (lg_dag l)" using persist by (simp_all add: ledger_ok_def)
  note h = persist_history [OF ok(1) persist(2,3,4)]
  have "dag_ok d" using ok(2) persist(1) by (rule dag_ok_append)
  with persist.prems h show ?case
    by (auto simp: ledger_ok_def append_parents(1) [OF persist(1)])
next
  case (index l c d)
  have "dag_ok d" using index by (auto simp: ledger_ok_def intro: dag_ok_append)
  with index.prems index(3) show ?case
    by (auto simp: ledger_ok_def append_parents(1) [OF index(2)] admissible_def)
next
  case (head E r t a ch i l s)
  have "store_ok E0 s" "history E0 s = history E0 (lg_store l)"
    using head set_head_keeps [of E r t a ch i "lg_store l" s E0] by (auto simp: ledger_ok_def)
  moreover have "hd_commit_id h \<in> dom (history E0 (lg_store l))" if "map_of (st_heads s) k = Some h" for k h
  proof -
    have keyed: "map_option hd_commit_id (map_of (st_heads s) k) =
        (if k = head_key r t a ch then Some i
         else map_option hd_commit_id (map_of (st_heads (lg_store l)) k))"
      using head(1) by (rule set_head_lookup)
    show ?thesis
    proof (cases "k = head_key r t a ch")
      case True
      with keyed that head(2) show ?thesis by simp
    next
      case False
      with keyed that have "map_option hd_commit_id (map_of (st_heads (lg_store l)) k) = Some (hd_commit_id h)"
        by simp
      then obtain g where "map_of (st_heads (lg_store l)) k = Some g" "hd_commit_id g = hd_commit_id h"
        by (cases "map_of (st_heads (lg_store l)) k") auto
      with head.prems show ?thesis unfolding ledger_ok_def by metis
    qed
  qed
  ultimately show ?case using head by (auto simp: ledger_ok_def)
next
  case (other s l)
  then have "store_ok E0 s = store_ok E0 (lg_store l)" by (simp add: store_ok_def)
  moreover have "history E0 s = history E0 (lg_store l)" using other(1) by (rule history_cong)
  ultimately show ?case using other by (simp add: ledger_ok_def)
qed

lemma ledger_step_complete:
  assumes "ledger_step E0 False l l'" "ledger_ok E0 l" "ledger_complete E0 l"
  shows "ledger_complete E0 l'"
  using assms
proof (cases rule: ledger_step.cases)
  case (persist c d E s)
  have ok: "store_ok E0 (lg_store l)" using assms(2) by (simp add: ledger_ok_def)
  note h = persist_history [OF ok persist(3,4,5)]
  show ?thesis using assms(3) persist(1) h(2)
    by (simp add: ledger_complete_def append_parents(2) [OF persist(2)] del: set_map)
next
  case (head E r t a ch i s)
  then have "history E0 s = history E0 (lg_store l)"
    using assms(2) set_head_keeps [of E r t a ch i "lg_store l" s E0] by (auto simp: ledger_ok_def)
  with assms(3) head(1) show ?thesis by (simp add: ledger_complete_def)
next
  case (other s)
  with assms(3) show ?thesis by (simp add: ledger_complete_def history_cong [of s "lg_store l"])
qed simp

lemma ledger_step_append_only:
  assumes "ledger_step E0 lossy l l'" "ledger_ok E0 l"
  shows "history E0 (lg_store l) \<subseteq>\<^sub>m history E0 (lg_store l')"
  using assms
proof (cases rule: ledger_step.cases)
  case (persist c d E s)
  have ok: "store_ok E0 (lg_store l)" using assms(2) by (simp add: ledger_ok_def)
  have "history E0 s = (history E0 (lg_store l))(cm_commit_id c \<mapsto> c)"
    using persist_history [OF ok persist(3,4,5)] by simp
  then show ?thesis using persist(1,4) by (auto simp: map_le_def admissible_def)
next
  case (head E r t a ch i s)
  then show ?thesis
    using assms(2) set_head_keeps [of E r t a ch i "lg_store l" s E0] by (auto simp: ledger_ok_def)
next
  case (other s)
  then show ?thesis by (simp add: history_cong [of s "lg_store l"])
qed simp

interpretation ledger: growing "ledger_step E0 lossy" "ledger_ok E0" "\<lambda>l. history E0 (lg_store l)"
  for E0 lossy
  by unfold_locales (auto intro: ledger_step_ok ledger_step_append_only)

interpretation exact_ledger: preserved "ledger_step E0 False" "\<lambda>l. ledger_ok E0 l \<and> ledger_complete E0 l" for E0
  by unfold_locales (auto intro: ledger_step_ok ledger_step_complete)

lemmas ledger_steps_ok = ledger.steps_inv
lemmas ledger_steps_append_only = ledger.steps_grow

lemma ledger_steps_complete:
  "ledger_steps E0 False l l' \<Longrightarrow> ledger_ok E0 l \<Longrightarrow> ledger_complete E0 l \<Longrightarrow> ledger_complete E0 l'"
  using exact_ledger.steps_inv by blast

text \<open>The history of a complete ledger is the graph of the index.\<close>

lemma complete_replayable:
  assumes "ledger_ok E0 l" "ledger_complete E0 l"
  shows "hist_edges (history E0 (lg_store l)) = edges (dg_parents (lg_dag l))"
    and "replayable E0 (lg_store l)"
proof -
  let ?h = "history E0 (lg_store l)" and ?p = "dg_parents (lg_dag l)"
  have s: "store_ok E0 (lg_store l)" "dag_ok (lg_dag l)" using assms(1) by (simp_all add: ledger_ok_def)
  have row: "map_of ?p i = Some (cm_parent_commit_ids c)" if "?h i = Some c" for i c
    using assms(1) that by (simp add: ledger_ok_def)
  show e: "hist_edges ?h = edges ?p"
  proof (rule set_eqI, clarify)
    fix i q
    show "(i, q) \<in> hist_edges ?h \<longleftrightarrow> (i, q) \<in> edges ?p"
    proof
      assume "(i, q) \<in> edges ?p"
      then obtain ps where ps: "map_of ?p i = Some ps" "q \<in> set ps" by (auto simp: edges_def)
      have "i \<in> dom ?h" using assms(2) map_of_Some_in_keys [OF ps(1)] by (simp only: ledger_complete_def)
      then show "(i, q) \<in> hist_edges ?h" using row ps by (auto simp: hist_edges_def)
    qed (auto simp: hist_edges_def edges_def dest: row)
  qed
  have "finite (dom ?h)" using assms(2) unfolding ledger_complete_def by (metis List.finite_set)
  moreover have "acyclic (hist_edges ?h)" using s(2) by (simp add: e dag_ok_def)
  moreover have "set (cm_parent_commit_ids c) \<subseteq> dom ?h" if "?h i = Some c" for i c
  proof
    fix q assume "q \<in> set (cm_parent_commit_ids c)"
    then have "(i, q) \<in> edges ?p" using row [OF that] by (auto simp: edges_def)
    then have "q \<in> set (keys ?p)" using s(2) by (auto simp: dag_ok_def simp del: set_map)
    then show "q \<in> dom ?h" using assms(2) by (simp only: ledger_complete_def)
  qed
  ultimately show "replayable E0 (lg_store l)"
    using s(1) history_id [OF s(1)] by (auto simp: replayable_def history_ok_def)
qed

section \<open>Starting the daemon\<close>

text \<open>
  lib.rs, \<open>run\<close>: the index is rebuilt from the stored commits, in the order of the query.
  \<open>context\<close> replaces the message that \<open>to_string\<close> prints.
\<close>

definition with_context :: "string \<Rightarrow> 'a result \<Rightarrow> 'a result" where
  "with_context m r = (case r of Inl e \<Rightarrow> Inl (Anyhow m) | Inr x \<Rightarrow> Inr x)"

definition rebuild_index :: "env \<Rightarrow> sqlite_store \<Rightarrow> dag_index result" where
  "rebuild_index E s =
     and_then (with_context ''load commits'' (list_all_commits E s)) (\<lambda>commits.
       with_context ''rebuild DAG index'' (from_commits commits))"

text \<open>In the order of the query every commit comes after its parents.\<close>

definition query_order_grows :: "(string \<Rightarrow> commit option) \<Rightarrow> bool" where
  "query_order_grows h \<longleftrightarrow> (\<forall>i c p d. h i = Some c \<and> p \<in> set (cm_parent_commit_ids c) \<and> h p = Some d
     \<longrightarrow> commit_order d < commit_order c)"

lemma loadable_iff:
  "loadable known cs \<longleftrightarrow> (\<forall>n<length cs. cm_commit_id (cs ! n) \<noteq> []
     \<and> set (cm_parent_commit_ids (cs ! n)) \<subseteq> known \<union> cm_commit_id ` set (take n cs))"
proof (induction cs arbitrary: known)
  case (Cons c cs)
  have "(\<forall>n<Suc (length cs). P n) \<longleftrightarrow> P 0 \<and> (\<forall>n<length cs. P (Suc n))" for P
    by (metis less_Suc_eq_0_disj)
  then show ?case by (simp add: Cons insert_commute)
qed simp

lemma list_all_sorted:
  assumes "store_ok E s" "db_fault E DbListCommits = None"
  obtains cs where "list_all_commits E s = Inr cs" "sorted (map commit_order cs)"
    "distinct (map cm_commit_id cs)" "\<forall>c. c \<in> set cs \<longleftrightarrow> history E s (cm_commit_id c) = Some c"
proof -
  let ?cs = "map (row_commit E) (sort_key order_key (st_commits s))"
  have "list_all_commits E s = Inr ?cs"
    using list_commits_ok [OF assms, of None None None] by (simp add: list_all_commits_def matches_def)
  moreover have "c \<in> set ?cs \<longleftrightarrow> history E s (cm_commit_id c) = Some c" for c
    using history_rows [OF assms(1)] by simp
  ultimately show ?thesis using that sorted_rows [OF assms(1)] by blast
qed

lemma rebuild_index_ok:
  assumes "ledger_ok E l" "ledger_complete E l" "db_fault E DbListCommits = None"
    and "query_order_grows (history E (lg_store l))"
  shows "\<exists>d. rebuild_index E (lg_store l) = Inr d
     \<and> (\<forall>i. map_of (dg_parents d) i = map_of (dg_parents (lg_dag l)) i)"
proof -
  let ?h = "history E (lg_store l)"
  have s: "store_ok E (lg_store l)" and r: "replayable E (lg_store l)"
    using assms(1,2) complete_replayable(2) by (simp_all add: ledger_ok_def)
  obtain cs where cs: "list_all_commits E (lg_store l) = Inr cs" "sorted (map commit_order cs)"
    "distinct (map cm_commit_id cs)" "\<forall>c. c \<in> set cs \<longleftrightarrow> ?h (cm_commit_id c) = Some c"
    using s assms(3) by (rule list_all_sorted)
  have "loadable {} cs"
    unfolding loadable_iff
  proof (intro allI impI conjI)
    fix n assume n: "n < length cs"
    then have "cs ! n \<in> set cs" by (rule nth_mem)
    then have c: "?h (cm_commit_id (cs ! n)) = Some (cs ! n)" using cs(4) by blast
    then have "map_of (dg_parents (lg_dag l)) (cm_commit_id (cs ! n)) \<noteq> None"
      using assms(1) by (auto simp: ledger_ok_def)
    then have "cm_commit_id (cs ! n) \<in> set (keys (dg_parents (lg_dag l)))"
      by (simp only: map_of_None_iff_keys not_not)
    moreover have "[] \<notin> set (keys (dg_parents (lg_dag l)))"
      using assms(1) unfolding ledger_ok_def dag_ok_def by blast
    ultimately show "cm_commit_id (cs ! n) \<noteq> []" by metis
    show "set (cm_parent_commit_ids (cs ! n)) \<subseteq> {} \<union> cm_commit_id ` set (take n cs)"
    proof
      fix p assume p: "p \<in> set (cm_parent_commit_ids (cs ! n))"
      then have "p \<in> dom ?h" using r c unfolding replayable_def history_ok_def by blast
      then obtain d where d: "?h p = Some d" by blast
      have id: "cm_commit_id d = p" using history_id [OF s d] by simp
      then have "d \<in> set cs" using cs(4) d by blast
      then obtain m where m: "m < length cs" "cs ! m = d" by (auto simp: in_set_conv_nth)
      have less: "commit_order d < commit_order (cs ! n)"
        using assms(4) c p d unfolding query_order_grows_def by blast
      have "m < n"
      proof (rule ccontr)
        assume "\<not> m < n"
        then have "map commit_order cs ! n \<le> map commit_order cs ! m"
          using cs(2) m(1) by (intro sorted_nth_mono) simp_all
        then have "commit_order (cs ! n) \<le> commit_order d" using n m by simp
        with less show False by (simp add: not_le [symmetric] del: not_le)
      qed
      then have "d \<in> set (take n cs)" using m n by (auto simp: in_set_conv_nth intro!: exI [of _ m])
      with id show "p \<in> {} \<union> cm_commit_id ` set (take n cs)" by blast
    qed
  qed
  then have ok: "is_ok (from_commits cs)" and rows: "\<And>d. from_commits cs = Inr d \<Longrightarrow> dg_parents d = map parent_row cs"
    using from_commits_rows [OF cs(3)] by blast+
  from ok obtain d where d: "from_commits cs = Inr d" by (rule is_okE)
  have "map_of (map parent_row cs) i = map_of (dg_parents (lg_dag l)) i" for i
  proof (cases "?h i")
    case None
    then have "i \<notin> cm_commit_id ` set cs" using cs(4) by auto
    then have "map_of (map parent_row cs) i = None"
      by (auto simp: map_of_eq_None_iff parent_row_def image_iff)
    moreover have "i \<notin> set (keys (dg_parents (lg_dag l)))"
      using assms(2) None unfolding ledger_complete_def by auto
    then have "map_of (dg_parents (lg_dag l)) i = None"
      by (simp only: map_of_None_iff_keys not_False_eq_True)
    ultimately show ?thesis by simp
  next
    case (Some c)
    have id: "cm_commit_id c = i" using history_id [OF s Some] by simp
    have "distinct (keys (map parent_row cs))" using cs(3) by (simp add: parent_row_def o_def)
    moreover have "(i, cm_parent_commit_ids c) \<in> set (map parent_row cs)"
      using cs(4) [rule_format, of c] Some id by (auto simp: parent_row_def image_iff)
    ultimately have "map_of (map parent_row cs) i = Some (cm_parent_commit_ids c)"
      by (rule map_of_is_SomeI)
    then show ?thesis using assms(1) Some by (simp add: ledger_ok_def)
  qed
  then show ?thesis using cs(1) d rows [OF d] by (simp add: rebuild_index_def with_context_def)
qed

section \<open>Properties of every reachable ledger\<close>

text \<open>
  Whatever operations run, in whatever order and with whatever writes lost, a ledger
  that started empty has an acyclic index, rows that decode, an index that knows every stored
  commit with its parents, and heads that point to stored commits; and from then on its history
  only grows.
\<close>

theorem reachable_ledger_ok:
  assumes "ledger_steps E lossy (empty_ledger config) l" "ledger_steps E lossy l l'"
  shows "ledger_ok E l \<and> history E (lg_store l) \<subseteq>\<^sub>m history E (lg_store l')"
  using ledger_steps_ok [OF assms(1)] ledger_steps_append_only [OF assms(2)] by auto

text \<open>
  As long as no write between index and store is lost, the store is replayable: every
  parent of a stored commit is stored, the graph of the store has no cycle, and replay walks the
  ancestry of every stored commit in full.
\<close>

theorem reachable_replayable:
  assumes "ledger_steps E False (empty_ledger config) l"
    and "\<And>j. db_fault E (DbGetCommit j) = None" "history E (lg_store l) i = Some c"
  shows "replayable E (lg_store l)
     \<and> (\<exists>cs. ancestry_commits E (lg_store l) (length (st_commits (lg_store l))) i = Some (Inr cs)
          \<and> set (map cm_commit_id cs) = (edges (dg_parents (lg_dag l)))\<^sup>* `` {i})"
proof -
  have l: "ledger_ok E l" "ledger_complete E l"
    using ledger_steps_ok [OF assms(1)] ledger_steps_complete [OF assms(1)] by simp_all
  note r = complete_replayable [OF l]
  from ancestry_commits_ok [OF r(2) assms(2,3) order_refl] show ?thesis
    using r by (auto simp: r(1))
qed

text \<open>
  The daemon comes back: when no write was lost and every commit follows its parents in
  the order of the start-up query (clock, second, id), the index that \<open>run\<close> rebuilds from the
  store exists and has the same parents for every commit as the one in memory had.
\<close>

theorem restart_rebuilds_index:
  assumes "ledger_steps E False (empty_ledger config) l" "db_fault E DbListCommits = None"
    and "query_order_grows (history E (lg_store l))"
  shows "\<exists>d. rebuild_index E (lg_store l) = Inr d
     \<and> (\<forall>i. map_of (dg_parents d) i = map_of (dg_parents (lg_dag l)) i)"
  using ledger_steps_ok [OF assms(1)] ledger_steps_complete [OF assms(1)] assms(2,3)
  by (intro rebuild_index_ok) simp_all

section \<open>Examples\<close>

lemma persist_step:
  assumes "append d c = Inr d'" "admissible E s c" "append_commit E c s = Inr s'"
  shows "ledger_step E lossy \<lparr>lg_dag = d, lg_store = s\<rparr> \<lparr>lg_dag = d', lg_store = s'\<rparr>"
  by (rule ledger_step.persist [where E = E and c = c]) (use assms in simp_all)

text \<open>Persisting the listed commits in turn.\<close>

lemma persist_all_steps:
  assumes "list_all (codec_ok E) cs" "distinct (map cm_commit_id cs)" "store_ok E s"
    and "\<And>c. c \<in> set cs \<Longrightarrow> history E s (cm_commit_id c) = None"
    and "append_all d cs = Inr d'" "sqlite.put_all E cs s = Inr s'"
  shows "ledger_steps E lossy \<lparr>lg_dag = d, lg_store = s\<rparr> \<lparr>lg_dag = d', lg_store = s'\<rparr>"
  using assms
proof (induction cs arbitrary: d s)
  case (Cons c cs)
  obtain d1 where d1: "append d c = Inr d1" "append_all d1 cs = Inr d'"
    using Cons.prems(5) by (auto simp: and_then_Inr_iff)
  obtain s1 where s1: "append_commit E c s = Inr s1" "sqlite.put_all E cs s1 = Inr s'"
    using Cons.prems(6) by (auto simp: and_then_Inr_iff)
  have c: "codec_ok E c" "history E s (cm_commit_id c) = None" using Cons.prems(1,4) by simp_all
  have ok1: "store_ok E s1" using Cons.prems(3) c(1) s1(1) by (rule append_commit_ok)
  have h1: "history E s1 = (history E s)(cm_commit_id c \<mapsto> c)"
    using append_commit_history [OF Cons.prems(3) c(1) s1(1)] c(2) by simp
  have "ledger_step E lossy \<lparr>lg_dag = d, lg_store = s\<rparr> \<lparr>lg_dag = d1, lg_store = s1\<rparr>"
    using d1(1) c s1(1) by (intro persist_step) (simp_all add: admissible_def)
  moreover have "ledger_steps E lossy \<lparr>lg_dag = d1, lg_store = s1\<rparr> \<lparr>lg_dag = d', lg_store = s'\<rparr>"
    using Cons.prems ok1 h1 d1(2) s1(2) by (intro Cons.IH) (auto simp: image_iff)
  ultimately show ?case by (rule converse_rtranclp_into_rtranclp)
qed simp

lemma shelf_ledger:
  assumes "distinct (map cm_commit_id cs)" "append_all dag_default cs = Inr d"
  obtains s where "ledger_steps (shelf_env cs) lossy (empty_ledger example_config) \<lparr>lg_dag = d, lg_store = s\<rparr>"
    "store_ok (shelf_env cs) s" "history (shelf_env cs) s = map_of (map (\<lambda>c. (cm_commit_id c, c)) cs)"
proof -
  obtain s where s: "sqlite.put_all (shelf_env cs) cs empty_store = Inr s" "store_ok (shelf_env cs) s"
    "history (shelf_env cs) s = map_of (map (\<lambda>c. (cm_commit_id c, c)) cs)"
    using assms(1) by (rule shelf_store)
  have "ledger_steps (shelf_env cs) lossy \<lparr>lg_dag = dag_default, lg_store = empty_store\<rparr> \<lparr>lg_dag = d, lg_store = s\<rparr>"
    using assms s(1) by (intro persist_all_steps [of _ cs]) (auto simp: list_all_iff shelf_codec)
  with s(2,3) that show ?thesis by (simp add: empty_ledger_def)
qed

lemma chain_dag_appended:
  "\<exists>d. append_all dag_default chain = Inr d \<and> dg_parents d = [(''a'', []), (''b'', [''a'']), (''c'', [''b''])]"
  by (simp add: chain_def append_def dag_default_def reachable_locked_def)

lemma chain_ledger:
  obtains d s where "ledger_steps (shelf_env chain) lossy (empty_ledger example_config) \<lparr>lg_dag = d, lg_store = s\<rparr>"
    "dg_parents d = [(''a'', []), (''b'', [''a'']), (''c'', [''b''])]"
    "history (shelf_env chain) s = map_of (map (\<lambda>c. (cm_commit_id c, c)) chain)"
  using chain_dag_appended shelf_ledger [OF chain_simps(1)] by metis

theorem reachable_ledger_ok_witness:
  "\<exists>l. ledger_ok (shelf_env chain) l \<and> history (shelf_env chain) (lg_store l) ''a'' = Some (chain ! 0)"
proof -
  obtain d s where l: "ledger_steps (shelf_env chain) True (empty_ledger example_config) \<lparr>lg_dag = d, lg_store = s\<rparr>"
    "dg_parents d = [(''a'', []), (''b'', [''a'']), (''c'', [''b''])]"
    "history (shelf_env chain) s = map_of (map (\<lambda>c. (cm_commit_id c, c)) chain)"
    by (rule chain_ledger)
  from reachable_ledger_ok [OF l(1) rtranclp.rtrancl_refl] l(3) show ?thesis
    by (intro exI [of _ "\<lparr>lg_dag = d, lg_store = s\<rparr>"]) simp
qed

theorem reachable_replayable_witness:
  "\<exists>s cs. ancestry_commits (shelf_env chain) s (length (st_commits s)) ''b'' = Some (Inr cs)
     \<and> set (map cm_commit_id cs) = {''a'', ''b''}"
proof -
  obtain d s where l: "ledger_steps (shelf_env chain) False (empty_ledger example_config) \<lparr>lg_dag = d, lg_store = s\<rparr>"
    "dg_parents d = [(''a'', []), (''b'', [''a'']), (''c'', [''b''])]"
    "history (shelf_env chain) s = map_of (map (\<lambda>c. (cm_commit_id c, c)) chain)"
    by (rule chain_ledger)
  have "edges (dg_parents d) = {(''b'', ''a''), (''c'', ''b'')}"
    by (auto simp: l(2) edges_def split: if_splits)
  moreover have "{(''b'', ''a''), (''c'', ''b'')}\<^sup>* `` {''b''} = {''a'', ''b''}"
    by (auto elim: converse_rtranclE)
  ultimately show ?thesis
    using reachable_replayable [OF l(1), of "''b''" "chain ! 1"] l(3) by auto
qed

theorem restart_rebuilds_index_witness:
  "\<exists>s d. rebuild_index (shelf_env chain) s = Inr d \<and> map_of (dg_parents d) ''b'' = Some [''a'']"
proof -
  obtain d s where l: "ledger_steps (shelf_env chain) False (empty_ledger example_config) \<lparr>lg_dag = d, lg_store = s\<rparr>"
    "dg_parents d = [(''a'', []), (''b'', [''a'']), (''c'', [''b''])]"
    "history (shelf_env chain) s = map_of (map (\<lambda>c. (cm_commit_id c, c)) chain)"
    by (rule chain_ledger)
  have "query_order_grows (map_of (map (\<lambda>c. (cm_commit_id c, c)) chain))"
    by (auto simp: query_order_grows_def chain_def commit_order_def example_commit_def default_commit_def
        less_prod_def split: if_splits)
  then obtain e where "rebuild_index (shelf_env chain) s = Inr e"
      "\<forall>i. map_of (dg_parents e) i = map_of (dg_parents d) i"
    using restart_rebuilds_index [OF l(1)] l(3) by auto
  then have "rebuild_index (shelf_env chain) s = Inr e \<and> map_of (dg_parents e) ''b'' = Some [''a'']"
    using l(2) by simp
  then show ?thesis by blast
qed

end
