(* ===== verification/System.thy ===== *)
theory System
  imports Http Ledger
begin

text \<open>
  The daemon as a state machine: a step is one request, run by one operation of \<open>AppState\<close> with
  an environment of its own. Every operation is shown to be a sequence of ledger steps, so the
  invariants of the ledger hold in every state that any sequence of requests reaches.
\<close>

section \<open>The ledger inside the state\<close>

definition ledger_of :: "app_state \<Rightarrow> ledger" where
  "ledger_of s = \<lparr>lg_dag = app_dag s, lg_store = app_store s\<rparr>"

text \<open>The write of a commit does not fail: no fault, and tags can be printed.\<close>

definition reliable :: "env \<Rightarrow> bool" where
  "reliable E \<longleftrightarrow> db_fault E DbAppendCommit = None \<and> (\<forall>v. is_ok (json_print E v))"

text \<open>What an operation leaves alone.\<close>

definition same_ledger :: "app_state \<Rightarrow> app_state \<Rightarrow> bool" where
  "same_ledger s s' \<longleftrightarrow> app_dag s' = app_dag s
     \<and> st_commits (app_store s') = st_commits (app_store s)
     \<and> st_heads (app_store s') = st_heads (app_store s)"

lemma same_ledger_refl [simp]: "same_ledger s s"
  by (simp add: same_ledger_def)

lemma same_ledger_step: "same_ledger s s' \<Longrightarrow> ledger_step E0 lossy (ledger_of s) (ledger_of s')"
  using ledger_step.other [where s = "app_store s'" and l = "ledger_of s"]
  by (simp add: same_ledger_def ledger_of_def)

lemma steps_after:
  assumes "ledger_steps E0 lossy l (ledger_of (fst r))"
    and "\<And>x. snd r = Done x \<Longrightarrow> ledger_steps E0 lossy l (ledger_of (fst (f x (fst r))))"
  shows "ledger_steps E0 lossy l (ledger_of (fst (after r f)))"
  using assms by (cases r; cases "snd r") auto

lemma steps_after_done:
  "ledger_steps E0 lossy l (ledger_of (fst r)) \<Longrightarrow>
   ledger_steps E0 lossy l (ledger_of (fst (after r (\<lambda>_ s. (s, Done y)))))"
  by (rule steps_after) simp_all

lemma count_metric_simps [simp]:
  "app_dag (count_metric f s) = app_dag s" "app_store (count_metric f s) = app_store s"
  "app_config (count_metric f s) = app_config s" "app_grants (count_metric f s) = app_grants s"
  "app_detector (count_metric f s) = app_detector s"
  by (simp_all add: count_metric_def)

lemma send_broadcast_simps [simp]:
  "app_dag (fst (send_broadcast E d i s)) = app_dag s" "app_store (fst (send_broadcast E d i s)) = app_store s"
  "app_config (fst (send_broadcast E d i s)) = app_config s"
  "app_detector (fst (send_broadcast E d i s)) = app_detector s"
  by (simp_all add: send_broadcast_def split_beta Let_def)

lemma put_artifact_keeps:
  "st_commits (fst (put_artifact E bs m s)) = st_commits s"
  "st_heads (fst (put_artifact E bs m s)) = st_heads s"
  by (simp_all add: put_artifact_def Let_def split: option.splits sum.splits prod.splits)

lemma append_loop_warning_keeps:
  "append_loop_warning E w s = Inr s' \<Longrightarrow> st_commits s' = st_commits s \<and> st_heads s' = st_heads s"
  by (auto simp: append_loop_warning_def result_simps)

lemma prepare_payload_ledger:
  "same_ledger s (fst (prepare_payload E p s))"
  "app_config (fst (prepare_payload E p s)) = app_config s"
  using put_artifact_keeps [of E _ _ "app_store s"]
  by (auto simp: prepare_payload_def same_ledger_def Let_def split_beta split: sum.splits)

lemma inspect_loop_ledger: "same_ledger s (fst (inspect_loop E c s))"
proof -
  have "same_ledger s (fst (broadcast_loop_warning E w s'))" if "same_ledger s s'" for w s'
    using that by (auto simp: broadcast_loop_warning_def same_ledger_def split: sum.splits)
  moreover have "same_ledger s (count_metric f (s\<lparr>app_detector := d, app_store := st\<rparr>))"
    if "append_loop_warning E w (app_store s) = Inr st" for f d st w
    using append_loop_warning_keeps [OF that] by (simp add: same_ledger_def)
  ultimately show ?thesis
    by (auto simp: inspect_loop_def Let_def split_beta same_ledger_def [of s "s\<lparr>app_detector := _\<rparr>"]
        split: option.splits sum.splits)
qed

section \<open>Persisting is a ledger step\<close>

lemma reliable_append:
  assumes "reliable E" shows "\<exists>s'. append_commit E c s = Inr s'"
proof -
  obtain tags where "json_print E (JArr (map JStr (cm_tags c))) = Inr tags"
    using assms by (auto simp: reliable_def elim: is_okE)
  then show ?thesis using assms by (intro append_commit_succeeds) (simp_all add: reliable_def)
qed

lemma persist_commit_steps:
  assumes "same_codec E E0" "lossy \<or> reliable E" "admissible E0 (app_store s) c"
    and "ledger_ok E0 (ledger_of s)"
  shows "ledger_steps E0 lossy (ledger_of s) (ledger_of (fst (persist_commit E c s)))"
proof (cases "append (app_dag s) c")
  case (Inl e)
  then show ?thesis by (simp add: persist_commit_def)
next
  case (Inr d)
  show ?thesis
  proof (cases "append_commit E c (app_store s)")
    case (Inl e)
    then have lossy using assms(2) reliable_append [of E c "app_store s"] by auto
    then have "ledger_step E0 lossy (ledger_of s) \<lparr>lg_dag = d, lg_store = app_store s\<rparr>"
      using ledger_step.index [where l = "ledger_of s" and c = c and d = d] Inr assms(3)
      by (simp add: ledger_of_def)
    then show ?thesis using Inl \<open>append (app_dag s) c = Inr d\<close>
      by (simp add: persist_commit_def Let_def ledger_of_def)
  next
    case (Inr st)
    have p: "ledger_step E0 lossy (ledger_of s) \<lparr>lg_dag = d, lg_store = st\<rparr>"
      by (rule ledger_step.persist [where E = E and c = c])
        (use \<open>append (app_dag s) c = Inr d\<close> Inr assms(1,3) in \<open>simp_all add: ledger_of_def\<close>)
    show ?thesis
    proof (cases "set_head E (cm_run_id c) (cm_thread_id c) (cm_agent_id c) (cm_channel c) (cm_commit_id c) st")
      case (Inl e)
      then show ?thesis using Inr \<open>append (app_dag s) c = Inr d\<close> p
        by (simp add: persist_commit_def Let_def ledger_of_def)
    next
      case h: (Inr st')
      have "history E0 st = (history E0 (app_store s))(cm_commit_id c \<mapsto> c)"
        using persist_history(2) [OF _ assms(1,3) Inr] assms(4) by (simp add: ledger_ok_def ledger_of_def)
      then have "ledger_step E0 lossy \<lparr>lg_dag = d, lg_store = st\<rparr> \<lparr>lg_dag = d, lg_store = st'\<rparr>"
        using ledger_step.head [where l = "\<lparr>lg_dag = d, lg_store = st\<rparr>"] h by simp
      with p have "ledger_steps E0 lossy (ledger_of s) \<lparr>lg_dag = d, lg_store = st'\<rparr>"
        by (meson rtranclp.rtrancl_refl rtranclp.rtrancl_into_rtrancl)
      then show ?thesis using Inr h \<open>append (app_dag s) c = Inr d\<close>
        by (simp add: persist_commit_def Let_def ledger_of_def)
    qed
  qed
qed

lemma commit_and_broadcast_steps:
  assumes "same_codec E E0" "lossy \<or> reliable E" "admissible E0 (app_store s) c"
    and "ledger_ok E0 (ledger_of s)"
  shows "ledger_steps E0 lossy (ledger_of s) (ledger_of (fst (commit_and_broadcast E delta c s)))"
proof -
  have p: "ledger_steps E0 lossy (ledger_of s) (ledger_of (fst (persist_commit E c s)))"
    using assms by (rule persist_commit_steps)
  have b: "ledger_of (fst (send_broadcast E delta (cm_commit_id c) t)) = ledger_of t" for t
    by (simp add: ledger_of_def)
  have i: "ledger_steps E0 lossy (ledger_of s) (ledger_of (fst (inspect_loop E c t)))"
    if "ledger_steps E0 lossy (ledger_of s) (ledger_of t)" for t
    using that same_ledger_step [OF inspect_loop_ledger] by (rule rtranclp.rtrancl_into_rtrancl)
  show ?thesis unfolding commit_and_broadcast_def
    by (intro steps_after i) (simp_all add: p b)
qed

section \<open>The commit that a request builds\<close>

text \<open>
  The commit that \<open>publish_delta_inner\<close> and \<open>checkpoint_inner\<close> hand to \<open>persist_commit\<close>, if they
  get that far. The properties assume of it that the codec reads it back and that its id does
  not clash; nothing is assumed of commits in general.
\<close>

definition publish_commit :: "env \<Rightarrow> publish_delta_request \<Rightarrow> app_state \<Rightarrow> commit option" where
  "publish_commit E request s =
     (case pd_delta request of
        None \<Rightarrow> None
      | Some delta \<Rightarrow>
     (let delta = normalize_delta E delta in
      case ensure_channel_permission (sd_agent_id delta) (channel_write (sd_channel delta)) s of
        Inl e \<Rightarrow> None
      | Inr _ \<Rightarrow>
     (case prepare_payload E (sd_payload delta) s of
        (s, Done (p, report, artifact_refs)) \<Rightarrow>
     (let delta = delta\<lparr>sd_payload := Some p\<rparr> in
      if \<not> sd_durable delta \<and> \<not> cf_persist_ephemeral (app_config s) then None
      else
     (case resolve_parents E delta (pd_parent_commit_ids request) s of
        Inl e \<Rightarrow> None
      | Inr parents \<Rightarrow>
          Some (from_delta E delta parents p report (publish_extras (pd_objective request) artifact_refs))))
      | _ \<Rightarrow> None)))"

definition checkpoint_commit :: "env \<Rightarrow> checkpoint_request \<Rightarrow> app_state \<Rightarrow> commit option" where
  "checkpoint_commit E request s =
     (case ensure_channel_permission (cq_agent_id request) (channel_checkpoint (cq_channel request)) s of
        Inl e \<Rightarrow> None
      | Inr _ \<Rightarrow>
     (let delta = normalize_delta E (checkpoint_delta E request) in
      case prepare_payload E (sd_payload delta) s of
        (s, Done (p, report, artifact_refs)) \<Rightarrow>
     (let delta = delta\<lparr>sd_payload := Some p\<rparr> in
      case resolve_parents E delta (cq_parent_commit_ids request) s of
        Inl e \<Rightarrow> None
      | Inr parents \<Rightarrow>
          Some (from_delta E delta parents p report
                  (checkpoint_extras request (artifact_refs @ cq_artifact_refs request))))
      | _ \<Rightarrow> None))"

definition built_ok :: "env \<Rightarrow> app_state \<Rightarrow> commit option \<Rightarrow> bool" where
  "built_ok E0 s built \<longleftrightarrow> (\<forall>c. built = Some c \<longrightarrow> admissible E0 (app_store s) c)"

lemma admissible_same_ledger:
  assumes "same_ledger s s'" shows "admissible E0 (app_store s') c = admissible E0 (app_store s) c"
proof -
  have "history E0 (app_store s') = history E0 (app_store s)"
    using assms by (intro history_cong) (simp add: same_ledger_def)
  then show ?thesis by (simp add: admissible_def)
qed

lemma ledger_ok_same_ledger:
  assumes "same_ledger s s'" shows "ledger_ok E0 (ledger_of s') = ledger_ok E0 (ledger_of s)"
proof -
  have "history E0 (app_store s') = history E0 (app_store s)"
    using assms by (intro history_cong) (simp add: same_ledger_def)
  then show ?thesis using assms by (simp add: ledger_ok_def ledger_of_def same_ledger_def store_ok_def)
qed

lemma steps_after_same_ledger:
  assumes "same_ledger s t" "ledger_steps E0 lossy (ledger_of t) l"
  shows "ledger_steps E0 lossy (ledger_of s) l"
  using same_ledger_step [OF assms(1)] assms(2) by (rule converse_rtranclp_into_rtranclp)

lemma steps_same_ledger: "same_ledger s t \<Longrightarrow> ledger_steps E0 lossy (ledger_of s) (ledger_of t)"
  by (rule r_into_rtranclp) (rule same_ledger_step)

text \<open>The common end of the two publishing operations.\<close>

lemma commit_steps:
  assumes "same_codec E E0" "lossy \<or> reliable E" "same_ledger s t"
    and "admissible E0 (app_store s) c" "ledger_ok E0 (ledger_of s)"
  shows "ledger_steps E0 lossy (ledger_of s)
    (ledger_of (fst (after (commit_and_broadcast E delta c t) (\<lambda>_ s. (s, Done r)))))"
proof -
  have "ledger_steps E0 lossy (ledger_of t) (ledger_of (fst (commit_and_broadcast E delta c t)))"
    using assms by (intro commit_and_broadcast_steps)
      (simp_all add: admissible_same_ledger [OF assms(3)] ledger_ok_same_ledger [OF assms(3)])
  then have "ledger_steps E0 lossy (ledger_of s) (ledger_of (fst (commit_and_broadcast E delta c t)))"
    using assms(3) by (rule steps_after_same_ledger [rotated])
  then show ?thesis by (rule steps_after_done)
qed

lemma publish_steps:
  assumes "same_codec E E0" "lossy \<or> reliable E" "built_ok E0 s (publish_commit E request s)"
    and "ledger_ok E0 (ledger_of s)"
  shows "ledger_steps E0 lossy (ledger_of s) (ledger_of (fst (publish_delta_inner E request s)))"
proof (cases "pd_delta request")
  case None
  then show ?thesis by (simp add: publish_delta_inner_def)
next
  case (Some d)
  let ?d = "normalize_delta E d"
  obtain t r where t: "prepare_payload E (sd_payload ?d) s = (t, r)"
    by (cases "prepare_payload E (sd_payload ?d) s")
  have same: "same_ledger s t" using prepare_payload_ledger(1) [of s E "sd_payload ?d"] t by simp
  note quiet = steps_same_ledger [OF same]
  show ?thesis
  proof (cases "ensure_channel_permission (sd_agent_id ?d) (channel_write (sd_channel ?d)) s")
    case (Inl e)
    then show ?thesis using Some by (simp add: publish_delta_inner_def Let_def)
  next
    case perm: (Inr u)
    show ?thesis
    proof (cases r)
      case (Done x)
      obtain p report refs where x: "x = (p, report, refs)" by (cases x)
      let ?e = "?d\<lparr>sd_payload := Some p\<rparr>"
      show ?thesis
      proof (cases "\<not> sd_durable ?e \<and> \<not> cf_persist_ephemeral (app_config t)")
        case True
        have "same_ledger s (fst (send_broadcast E ?e [] t))" using same by (simp add: same_ledger_def)
        then have "ledger_steps E0 lossy (ledger_of s) (ledger_of (fst (send_broadcast E ?e [] t)))"
          by (rule steps_same_ledger)
        then have "ledger_steps E0 lossy (ledger_of s)
            (ledger_of (fst (after (send_broadcast E ?e [] t) (\<lambda>_ s. (s, Done y)))))" for y
          by (rule steps_after_done)
        then show ?thesis using Some perm t Done x True
          by (simp add: publish_delta_inner_def Let_def)
      next
        case False
        show ?thesis
        proof (cases "resolve_parents E ?e (pd_parent_commit_ids request) t")
          case (Inl e)
          then show ?thesis using Some perm t Done x False quiet
            by (auto simp: publish_delta_inner_def Let_def)
        next
          case (Inr parents)
          let ?c = "from_delta E ?e parents p report (publish_extras (pd_objective request) refs)"
          have "publish_commit E request s = Some ?c"
            using Some perm t Done x Inr False by (auto simp: publish_commit_def Let_def)
          then have "admissible E0 (app_store s) ?c" using assms(3) by (simp add: built_ok_def)
          note commit_steps [OF assms(1,2) same this assms(4)]
          then show ?thesis using Some perm t Done x False Inr
            by (auto simp: publish_delta_inner_def Let_def)
        qed
      qed
    qed (use Some perm t quiet in \<open>simp_all add: publish_delta_inner_def Let_def\<close>)
  qed
qed

lemma checkpoint_steps:
  assumes "same_codec E E0" "lossy \<or> reliable E" "built_ok E0 s (checkpoint_commit E request s)"
    and "ledger_ok E0 (ledger_of s)"
  shows "ledger_steps E0 lossy (ledger_of s) (ledger_of (fst (checkpoint_inner E request s)))"
proof -
  let ?d = "normalize_delta E (checkpoint_delta E request)"
  obtain t r where t: "prepare_payload E (sd_payload ?d) s = (t, r)"
    by (cases "prepare_payload E (sd_payload ?d) s")
  have same: "same_ledger s t" using prepare_payload_ledger(1) [of s E "sd_payload ?d"] t by simp
  note quiet = steps_same_ledger [OF same]
  show ?thesis
  proof (cases "ensure_channel_permission (cq_agent_id request) (channel_checkpoint (cq_channel request)) s")
    case (Inl e)
    then show ?thesis by (simp add: checkpoint_inner_def)
  next
    case perm: (Inr u)
    show ?thesis
    proof (cases r)
      case (Done x)
      obtain p report refs where x: "x = (p, report, refs)" by (cases x)
      let ?e = "?d\<lparr>sd_payload := Some p\<rparr>"
      show ?thesis
      proof (cases "resolve_parents E ?e (cq_parent_commit_ids request) t")
        case (Inl e)
        then show ?thesis using perm t Done x quiet by (simp add: checkpoint_inner_def Let_def)
      next
        case (Inr parents)
        let ?c = "from_delta E ?e parents p report (checkpoint_extras request (refs @ cq_artifact_refs request))"
        have "checkpoint_commit E request s = Some ?c"
          using perm t Done x Inr by (simp add: checkpoint_commit_def Let_def)
        then have "admissible E0 (app_store s) ?c" using assms(3) by (simp add: built_ok_def)
        note commit_steps [OF assms(1,2) same this assms(4)]
        then show ?thesis using perm t Done x Inr by (simp add: checkpoint_inner_def Let_def)
      qed
    qed (use perm t quiet in \<open>simp_all add: checkpoint_inner_def Let_def\<close>)
  qed
qed

section \<open>Fork and rollback are ledger steps\<close>

lemma event_steps:
  assumes "set_head E r t a ch i st = Inr s1" "i \<in> dom (history E0 st)"
  shows "ledger_steps E0 lossy \<lparr>lg_dag = d, lg_store = st\<rparr> \<lparr>lg_dag = d, lg_store = s1\<rparr>"
    and "append_event E' ty p s1 = (s2, u) \<Longrightarrow>
      ledger_steps E0 lossy \<lparr>lg_dag = d, lg_store = st\<rparr> \<lparr>lg_dag = d, lg_store = s2\<rparr>"
proof -
  have "ledger_step E0 lossy \<lparr>lg_dag = d, lg_store = st\<rparr> \<lparr>lg_dag = d, lg_store = s1\<rparr>"
    using ledger_step.head [where l = "\<lparr>lg_dag = d, lg_store = st\<rparr>"] assms by simp
  then show first: "ledger_steps E0 lossy \<lparr>lg_dag = d, lg_store = st\<rparr> \<lparr>lg_dag = d, lg_store = s1\<rparr>"
    by (rule r_into_rtranclp)
  assume "append_event E' ty p s1 = (s2, u)"
  then have "st_commits s2 = st_commits s1 \<and> st_heads s2 = st_heads s1"
    using append_event_keeps [of E' ty p s1] by simp
  then have "ledger_step E0 lossy \<lparr>lg_dag = d, lg_store = s1\<rparr> \<lparr>lg_dag = d, lg_store = s2\<rparr>"
    using ledger_step.other [where l = "\<lparr>lg_dag = d, lg_store = s1\<rparr>" and s = s2] by simp
  with first show "ledger_steps E0 lossy \<lparr>lg_dag = d, lg_store = st\<rparr> \<lparr>lg_dag = d, lg_store = s2\<rparr>"
    by (rule rtranclp.rtrancl_into_rtrancl)
qed

lemma stored_commit:
  assumes "store_ok E0 st" "same_codec E E0" "get_commit E st i = Inr (Some c)"
  shows "cm_commit_id c \<in> dom (history E0 st)"
proof -
  have st: "store_ok E st" using assms(1,2) by (simp add: codec_cong)
  have "history E st i = Some c" using get_commit_history [OF st assms(3)] by simp
  moreover from history_id [OF st this] have "cm_commit_id c = i" by simp
  ultimately show ?thesis using assms(2) by (auto simp: codec_cong)
qed

lemma fork_steps:
  assumes "store_ok E0 st" "same_codec E E0"
  shows "ledger_steps E0 lossy \<lparr>lg_dag = d, lg_store = st\<rparr> \<lparr>lg_dag = d, lg_store = fst (fork E q st)\<rparr>"
proof (cases "get_commit E st (fq_source_commit_id q)")
  case (Inl e)
  then show ?thesis by (simp add: fork_def)
next
  case (Inr found)
  show ?thesis
  proof (cases found)
    case None
    then show ?thesis using Inr by (simp add: fork_def)
  next
    case (Some c)
    have "cm_commit_id c \<in> dom (history E0 st)"
      using stored_commit [OF assms] Inr Some by blast
    note steps = event_steps [OF _ this]
    show ?thesis using Inr Some
      by (auto simp: fork_def Let_def intro: steps split: sum.splits prod.splits)
  qed
qed

lemma rollback_steps:
  assumes "store_ok E0 st" "same_codec E E0"
  shows "ledger_steps E0 lossy \<lparr>lg_dag = d, lg_store = st\<rparr> \<lparr>lg_dag = d, lg_store = fst (rollback E dg q st)\<rparr>"
proof (cases "get_commit E st (rb_target_commit_id q)")
  case (Inl e)
  then show ?thesis by (auto simp: rollback_def split: sum.splits option.splits)
next
  case (Inr found)
  show ?thesis
  proof (cases found)
    case None
    then show ?thesis using Inr by (auto simp: rollback_def split: sum.splits option.splits)
  next
    case (Some c)
    have "cm_commit_id c \<in> dom (history E0 st)"
      using stored_commit [OF assms] Inr Some by blast
    note steps = event_steps [OF _ this]
    show ?thesis using Inr Some
      by (auto simp: rollback_def intro: steps split: sum.splits option.splits prod.splits)
  qed
qed

section \<open>Requests\<close>

datatype request =
    RegisterAgent register_agent_request
  | Publish publish_delta_request
  | Checkpoint checkpoint_request
  | Fork fork_request
  | Rollback rollback_request
  | Subscribe subscribe_request
  | Stream "client_event option"
  | HttpCall "string option" http_request

text \<open>The state after a request; requests that only read leave it as it is.\<close>

fun handle :: "env \<Rightarrow> request \<Rightarrow> app_state \<Rightarrow> app_state" where
  "handle E (RegisterAgent q) s = fst (register_agent_inner E q s)"
| "handle E (Publish q) s = fst (publish_delta_inner E q s)"
| "handle E (Checkpoint q) s = fst (checkpoint_inner E q s)"
| "handle E (Fork q) s = fst (fork_inner E q s)"
| "handle E (Rollback q) s = fst (rollback_inner E q s)"
| "handle E (Subscribe q) s = fst (grpc_subscribe q s)"
| "handle E (Stream ev) s = fst (stream_event E ev s)"
| "handle E (HttpCall header r) s = fst (serve_http E header r s)"

text \<open>The commit that a request builds, if any.\<close>

fun http_commit_of :: "env \<Rightarrow> http_request \<Rightarrow> app_state \<Rightarrow> commit option" where
  "http_commit_of E (PostDelta b) s =
     (case payload_from_json E (pb_delta b) of
        Inl e \<Rightarrow> None
      | Inr p \<Rightarrow> publish_commit E (publish_request E b p) s)"
| "http_commit_of E (PostCheckpoint b) s =
     (case payload_from_json E (cb_state b) of
        Inl e \<Rightarrow> None
      | Inr p \<Rightarrow> checkpoint_commit E (checkpoint_request_of E b p) s)"
| "http_commit_of E (PostEvent v) s =
     (case try_api (try_from_value E v) (\<lambda>body.
             try_api (payload_from_json E v) (\<lambda>p. Inr (event_request E body p))) of
        Inl e \<Rightarrow> None
      | Inr q \<Rightarrow> checkpoint_commit E q s)"
| "http_commit_of E _ s = None"

fun built_commit :: "env \<Rightarrow> request \<Rightarrow> app_state \<Rightarrow> commit option" where
  "built_commit E (Publish q) s = publish_commit E q s"
| "built_commit E (Checkpoint q) s = checkpoint_commit E q s"
| "built_commit E (Stream (Some (CPublishDelta q))) s = publish_commit E q s"
| "built_commit E (Stream (Some (CCheckpoint q))) s = publish_commit E q s"
| "built_commit E (HttpCall header r) s = http_commit_of E r s"
| "built_commit E _ s = None"

text \<open>
  The other end of a subscription: the transport takes the oldest message of a queue, or it drops
  the receiver.
\<close>

definition take_message :: "queue_id \<Rightarrow> bus \<Rightarrow> bus" where
  "take_message q b = (let x = queue_of b q in set_queue q (x\<lparr>qu_items := tl (qu_items x)\<rparr>) b)"

definition drop_receiver :: "queue_id \<Rightarrow> bus \<Rightarrow> bus" where
  "drop_receiver q b = (let x = queue_of b q in set_queue q (x\<lparr>qu_closed := True\<rparr>) b)"

inductive app_step :: "env \<Rightarrow> bool \<Rightarrow> app_state \<Rightarrow> app_state \<Rightarrow> bool" for E0 lossy where
  serve: "same_codec E E0 \<Longrightarrow> lossy \<or> reliable E \<Longrightarrow> built_ok E0 s (built_commit E q s) \<Longrightarrow>
    app_step E0 lossy s (handle E q s)"
| receive: "app_step E0 lossy s (s\<lparr>app_bus := take_message q (app_bus s)\<rparr>)"
| hang_up: "app_step E0 lossy s (s\<lparr>app_bus := drop_receiver q (app_bus s)\<rparr>)"

abbreviation app_steps :: "env \<Rightarrow> bool \<Rightarrow> app_state \<Rightarrow> app_state \<Rightarrow> bool" where
  "app_steps E0 lossy \<equiv> (app_step E0 lossy)\<^sup>*\<^sup>*"

text \<open>The state in which \<open>run\<close> starts on a new data directory.\<close>

definition initial_state :: "config \<Rightarrow> app_state" where
  "initial_state config = new_state config (new_bus new_metrics) (open_store config) dag_default"

lemma stream_event_fst:
  "fst (stream_event E ev s) =
     (case ev of
        Some (CHeartbeat h) \<Rightarrow> s\<lparr>app_bus := heartbeat E (hb_agent_id h) (app_bus s)\<rparr>
      | Some (CPublishDelta q) \<Rightarrow> fst (publish_delta_inner E q s)
      | Some (CCheckpoint q) \<Rightarrow> fst (publish_delta_inner E q s)
      | _ \<Rightarrow> s)"
  by (auto simp: stream_event_def split: option.splits client_event.splits prod.splits outcome.splits)

lemma ledger_of_update [simp]:
  "ledger_of (s\<lparr>app_bus := b\<rparr>) = ledger_of s" "ledger_of (s\<lparr>app_grants := g\<rparr>) = ledger_of s"
  by (simp_all add: ledger_of_def)

lemma fst_answer [simp]: "fst (answer f r) = fst r"
  by (cases "(f, r)" rule: answer.cases) simp_all

lemma fst_moved [simp]: "fst (moved r) = fst r"
  by (simp add: moved_def)

lemma fst_stay [simp]: "fst (stay f s r) = s"
  by (simp add: stay_def)

text \<open>A writing handler leaves the state alone or runs its operation on the request it built.\<close>

lemma writes_cases:
  obtains (refused) e where "writes s header request f = (s, Some (Inl e))"
  | (ran) q where "request = Inr q" "guard s header = Inr ()" "writes s header request f = f q"
  by (cases "guard s header"; cases request) (simp_all add: writes_def)

lemma ledger_of_register [simp]: "ledger_of (fst (register_agent_inner E q s)) = ledger_of s"
  by (simp add: register_agent_inner_def Let_def)

lemma fork_inner_steps:
  assumes "ledger_ok E0 (ledger_of s)" "same_codec E E0"
  shows "ledger_steps E0 lossy (ledger_of s) (ledger_of (fst (fork_inner E q s)))"
  using fork_steps [OF _ assms(2), of "app_store s" lossy "app_dag s" q] assms(1)
  by (simp add: fork_inner_def split_beta ledger_of_def ledger_ok_def)

lemma rollback_inner_steps:
  assumes "ledger_ok E0 (ledger_of s)" "same_codec E E0"
  shows "ledger_steps E0 lossy (ledger_of s) (ledger_of (fst (rollback_inner E q s)))"
  using rollback_steps [OF _ assms(2), of "app_store s" lossy "app_dag s" "app_dag s" q] assms(1)
  by (simp add: rollback_inner_def split_beta ledger_of_def ledger_ok_def)

lemma http_steps:
  assumes "same_codec E E0" "lossy \<or> reliable E" "built_ok E0 s (http_commit_of E r s)"
    and "ledger_ok E0 (ledger_of s)"
  shows "ledger_steps E0 lossy (ledger_of s) (ledger_of (fst (serve_http E header r s)))"
proof (cases r)
  case (PostRegister b)
  then show ?thesis
    by (cases rule: writes_cases [of s header "Inr (register_request b)"])
      (auto simp: http_register_agent_def writes_def split_beta Let_def split: sum.splits)
next
  case (PostDelta b)
  let ?f = "\<lambda>p. answer publish_json (publish_delta_inner E (publish_request E b p) s)"
  show ?thesis
    by (cases rule: writes_cases [of s header "payload_from_json E (pb_delta b)" ?f])
      (use assms PostDelta publish_steps in \<open>simp_all add: http_publish_delta_def\<close>)
next
  case (PostCheckpoint b)
  let ?f = "\<lambda>p. answer checkpoint_json (checkpoint_inner E (checkpoint_request_of E b p) s)"
  show ?thesis
    by (cases rule: writes_cases [of s header "payload_from_json E (cb_state b)" ?f])
      (use assms PostCheckpoint checkpoint_steps in \<open>simp_all add: http_checkpoint_def\<close>)
next
  case (PostEvent v)
  let ?q = "try_api (try_from_value E v) (\<lambda>body.
     try_api (payload_from_json E v) (\<lambda>p. Inr (event_request E body p)))"
  let ?f = "\<lambda>q. answer checkpoint_json (checkpoint_inner E q s)"
  show ?thesis
    by (cases rule: writes_cases [of s header ?q ?f])
      (use assms PostEvent checkpoint_steps in \<open>simp_all add: http_universal_event_def\<close>)
next
  case (PostFork b)
  then show ?thesis using fork_inner_steps [OF assms(4,1)]
    by (simp add: http_fork_def writes_def split: sum.splits)
next
  case (PostRollback b)
  then show ?thesis using rollback_inner_steps [OF assms(4,1)]
    by (simp add: http_rollback_def writes_def split: sum.splits)
qed simp_all

lemma app_step_ledger:
  assumes "app_step E0 lossy s s'" "ledger_ok E0 (ledger_of s)"
  shows "ledger_steps E0 lossy (ledger_of s) (ledger_of s')"
  using assms
proof (cases rule: app_step.cases)
  case 1: (serve E q)
  have quiet: "ledger_steps E0 lossy (ledger_of s) (ledger_of s')" if "ledger_of s' = ledger_of s"
    using that by simp
  show ?thesis
  proof (cases q)
    case (Publish r)
    then show ?thesis using 1 assms(2) publish_steps by simp
  next
    case (Checkpoint r)
    then show ?thesis using 1 assms(2) checkpoint_steps by simp
  next
    case (Fork r)
    then show ?thesis using 1 assms(2) fork_inner_steps by simp
  next
    case (Rollback r)
    then show ?thesis using 1 assms(2) rollback_inner_steps by simp
  next
    case (Stream ev)
    then show ?thesis using 1 assms(2) publish_steps quiet
      by (cases ev; cases "the ev") (simp_all add: stream_event_fst)
  next
    case (RegisterAgent r)
    then show ?thesis using 1 by simp
  next
    case (Subscribe r)
    then show ?thesis using 1 by (simp add: grpc_subscribe_def split_beta Let_def)
  next
    case (HttpCall header r)
    then show ?thesis using 1 assms(2) http_steps by simp
  qed
qed simp_all

interpretation daemon: refinement "ledger_step E0 lossy" "ledger_ok E0" "app_step E0 lossy" ledger_of
  for E0 lossy
  by unfold_locales (rule app_step_ledger)

lemmas app_steps_ledger = daemon.steps_refine

end
