(* ===== verification/Tasks.thy ===== *)
theory Tasks
  imports Pool System
begin

text \<open>
  The writing requests of \<open>AppState\<close> as the tasks that tokio runs them as. The code holds a lock
  only inside a call, so other requests may run between two calls: a task is the place where a
  request is, and \<open>advance\<close> performs its next access to the shared state. A call that takes one
  lock is one step; \<open>DagIndex::append\<close>, \<open>Bus::broadcast\<close> and the \<open>append_event\<close> of a rollback, which
  take several, are one step per lock. What a step computes from its own data is part of that step.
\<close>

section \<open>Places\<close>

datatype write_op =
    WPublish publish_delta_request
  | WCheckpoint checkpoint_request
  | WFork fork_request
  | WRollback rollback_request

datatype reply =
    PublishReply publish_delta_response
  | CheckpointReply checkpoint_response
  | ForkReply fork_result
  | RollbackReply rollback_response

text \<open>What follows a broadcast.\<close>

datatype after_cast = ThenInspect commit reply | ThenReply reply

text \<open>\<open>persist_commit\<close>, with the three locks that \<open>append\<close> of dag.rs takes one after the other.\<close>

datatype persist_stage = CheckParents | InsertParents | InsertChildren | AppendCommit | SetHead

datatype cast_stage = UpdateChannel | PushRecent | CollectTargets

datatype task =
    Begin env write_op
  | Prepare env write_op state_delta
  | Resolve env write_op state_delta payload redaction_report "artifact_ref list"
  | Persist persist_stage env state_delta commit reply
  | Cast cast_stage env state_delta string after_cast
  | Send env state_delta string "(string \<times> queue_id) list" after_cast
  | AwaitRoom env state_delta string queue_id "(string \<times> queue_id) list" after_cast
  | CountDelta env bool after_cast
  | InspectLoop env commit reply
  | StoreWarning env loop_warning reply
  | MoveFork env fork_request commit
  | RecordFork env fork_request commit
  | ReadHead env rollback_request
  | ReadTarget env rollback_request commit
  | ReadAncestry env rollback_request commit commit
  | CollectWarnings env rollback_request commit commit "string list" "string list"
  | MoveHead env rollback_request commit commit "string list"
  | RecordRollback env rollback_request commit commit "string list"
  | LogRollback env rollback_request commit commit "string list"
  | Finished "reply outcome"
  | Dropped

abbreviation fail :: "anyhow \<Rightarrow> task" where
  "fail e \<equiv> Finished (Failed e)"

abbreviation answer_with :: "reply \<Rightarrow> task" where
  "answer_with r \<equiv> Finished (Done r)"

section \<open>Up to the commit\<close>

definition begin_publish :: "env \<Rightarrow> publish_delta_request \<Rightarrow> app_state \<Rightarrow> task" where
  "begin_publish E request s =
     (case pd_delta request of
        None \<Rightarrow> fail (Anyhow ''PublishDeltaRequest.delta is required'')
      | Some delta \<Rightarrow>
     (let delta = normalize_delta E delta in
      case ensure_channel_permission (sd_agent_id delta) (channel_write (sd_channel delta)) s of
        Inl e \<Rightarrow> fail e
      | Inr _ \<Rightarrow> Prepare E (WPublish request) delta))"

definition begin_checkpoint :: "env \<Rightarrow> checkpoint_request \<Rightarrow> app_state \<Rightarrow> task" where
  "begin_checkpoint E request s =
     (case ensure_channel_permission (cq_agent_id request) (channel_checkpoint (cq_channel request)) s of
        Inl e \<Rightarrow> fail e
      | Inr _ \<Rightarrow> Prepare E (WCheckpoint request) (normalize_delta E (checkpoint_delta E request)))"

definition begin_fork :: "env \<Rightarrow> fork_request \<Rightarrow> app_state \<Rightarrow> task" where
  "begin_fork E request s =
     (case get_commit E (app_store s) (fq_source_commit_id request) of
        Inl e \<Rightarrow> fail e
      | Inr None \<Rightarrow> fail (Anyhow ''source commit not found'')
      | Inr (Some source) \<Rightarrow> MoveFork E request source)"

definition begin_rollback :: "env \<Rightarrow> rollback_request \<Rightarrow> app_state \<Rightarrow> task" where
  "begin_rollback E request s =
     (if \<not> rb_force request
         \<and> \<not> is_ancestor (app_dag s) (rb_target_commit_id request) (rb_head_commit_id request)
      then fail (Anyhow ''target commit is not an ancestor of the current head; use force to move the head anyway'')
      else ReadHead E request)"

definition begin_op :: "env \<Rightarrow> write_op \<Rightarrow> app_state \<Rightarrow> task" where
  "begin_op E op s = (case op of
     WPublish q \<Rightarrow> begin_publish E q s
   | WCheckpoint q \<Rightarrow> begin_checkpoint E q s
   | WFork q \<Rightarrow> begin_fork E q s
   | WRollback q \<Rightarrow> begin_rollback E q s)"

definition ephemeral_reply :: "state_delta \<Rightarrow> redaction_report \<Rightarrow> reply" where
  "ephemeral_reply delta report = PublishReply
     \<lparr>pr_delta_id = sd_delta_id delta, pr_commit_id = [], pr_accepted = True,
      pr_persisted = False, pr_warning = [], pr_redaction_report = Some report\<rparr>"

text \<open>
  \<open>prepare_payload\<close>, then the branch for ephemeral deltas. Writing the artifact's file needs no
  lock: its name is the hash of its content.
\<close>

definition prepare_step :: "env \<Rightarrow> write_op \<Rightarrow> state_delta \<Rightarrow> app_state \<Rightarrow> app_state \<times> task" where
  "prepare_step E op delta s =
     (case prepare_payload E (sd_payload delta) s of
        (s, Failed e) \<Rightarrow> (s, fail e)
      | (s, Blocked) \<Rightarrow> (s, Finished Blocked)
      | (s, Done (p, report, refs)) \<Rightarrow>
     (let delta = delta\<lparr>sd_payload := Some p\<rparr> in
      (s, case op of
            WPublish _ \<Rightarrow>
              if \<not> sd_durable delta \<and> \<not> cf_persist_ephemeral (app_config s)
              then Cast UpdateChannel E delta [] (ThenReply (ephemeral_reply delta report))
              else Resolve E op delta p report refs
          | _ \<Rightarrow> Resolve E op delta p report refs)))"

definition op_parents :: "write_op \<Rightarrow> string list" where
  "op_parents op = (case op of WPublish q \<Rightarrow> pd_parent_commit_ids q
     | WCheckpoint q \<Rightarrow> cq_parent_commit_ids q | _ \<Rightarrow> [])"

definition op_extras :: "write_op \<Rightarrow> artifact_ref list \<Rightarrow> commit_extras" where
  "op_extras op refs = (case op of
     WCheckpoint q \<Rightarrow> checkpoint_extras q (refs @ cq_artifact_refs q)
   | WPublish q \<Rightarrow> publish_extras (pd_objective q) refs
   | _ \<Rightarrow> publish_extras [] refs)"

definition op_reply :: "write_op \<Rightarrow> state_delta \<Rightarrow> string \<Rightarrow> redaction_report \<Rightarrow> reply" where
  "op_reply op delta cid report = (case op of
     WCheckpoint _ \<Rightarrow> CheckpointReply
       \<lparr>cr_commit_id = cid, cr_delta_id = sd_delta_id delta, cr_accepted = True,
        cr_persisted = True, cr_warning = [], cr_redaction_report = Some report\<rparr>
   | _ \<Rightarrow> PublishReply
       \<lparr>pr_delta_id = sd_delta_id delta, pr_commit_id = cid, pr_accepted = True,
        pr_persisted = True, pr_warning = [], pr_redaction_report = Some report\<rparr>)"

definition resolve_step ::
    "env \<Rightarrow> write_op \<Rightarrow> state_delta \<Rightarrow> payload \<Rightarrow> redaction_report \<Rightarrow> artifact_ref list \<Rightarrow> app_state \<Rightarrow> task" where
  "resolve_step E op delta p report refs s =
     (case resolve_parents E delta (op_parents op) s of
        Inl e \<Rightarrow> fail e
      | Inr parents \<Rightarrow>
     (let c = from_delta E delta parents p report (op_extras op refs) in
      Persist CheckParents E delta c (op_reply op delta (cm_commit_id c) report)))"

section \<open>persist_commit\<close>

text \<open>\<open>append\<close> of dag.rs: the checks under the read lock, then each map under its write lock.\<close>

definition check_append :: "dag_index \<Rightarrow> commit \<Rightarrow> unit result" where
  "check_append self commit =
     (if cm_commit_id commit = [] then Inl (Anyhow ''commit_id is required'')
      else if \<exists>parent\<in>set (cm_parent_commit_ids commit). parent = cm_commit_id commit
      then Inl (Anyhow ''commit cannot parent itself'')
      else check_parents (dg_parents self) (cm_commit_id commit) (cm_parent_commit_ids commit))"

definition insert_parents :: "commit \<Rightarrow> dag_index \<Rightarrow> dag_index" where
  "insert_parents commit self = self\<lparr>dg_parents :=
     AList.update (cm_commit_id commit) (cm_parent_commit_ids commit) (dg_parents self)\<rparr>"

definition insert_children :: "commit \<Rightarrow> dag_index \<Rightarrow> dag_index" where
  "insert_children commit self = self\<lparr>dg_children :=
     fold (push_child (cm_commit_id commit)) (cm_parent_commit_ids commit) (dg_children self)\<rparr>"

fun persist_step ::
    "persist_stage \<Rightarrow> env \<Rightarrow> state_delta \<Rightarrow> commit \<Rightarrow> reply \<Rightarrow> app_state \<Rightarrow> app_state \<times> task" where
  "persist_step CheckParents E delta c r s =
     (s, case check_append (app_dag s) c of
           Inl e \<Rightarrow> fail e
         | Inr _ \<Rightarrow> Persist InsertParents E delta c r)"
| "persist_step InsertParents E delta c r s =
     (s\<lparr>app_dag := insert_parents c (app_dag s)\<rparr>, Persist InsertChildren E delta c r)"
| "persist_step InsertChildren E delta c r s =
     (s\<lparr>app_dag := insert_children c (app_dag s)\<rparr>, Persist AppendCommit E delta c r)"
| "persist_step AppendCommit E delta c r s =
     (case append_commit E c (app_store s) of
        Inl e \<Rightarrow> (s, fail e)
      | Inr st \<Rightarrow> (s\<lparr>app_store := st\<rparr>, Persist SetHead E delta c r))"
| "persist_step SetHead E delta c r s =
     (case set_head E (cm_run_id c) (cm_thread_id c) (cm_agent_id c) (cm_channel c) (cm_commit_id c)
             (app_store s) of
        Inl e \<Rightarrow> (s, fail e)
      | Inr st \<Rightarrow>
          (count_metric (\<lambda>m. m\<lparr>mt_commits_total := inc (mt_commits_total m)\<rparr>) (s\<lparr>app_store := st\<rparr>),
           Cast UpdateChannel E delta (cm_commit_id c) (ThenInspect c r)))"

section \<open>broadcast\<close>

fun cast_step ::
    "cast_stage \<Rightarrow> env \<Rightarrow> state_delta \<Rightarrow> string \<Rightarrow> after_cast \<Rightarrow> bus \<Rightarrow> bus \<times> task" where
  "cast_step UpdateChannel E delta commit_id k b =
     (update_channel delta b, Cast PushRecent E delta commit_id k)"
| "cast_step PushRecent E delta commit_id k b =
     (push_recent delta commit_id b, Cast CollectTargets E delta commit_id k)"
| "cast_step CollectTargets E delta commit_id k b =
     (b, Send E delta commit_id (targets_of delta b) k)"

definition message_of :: "state_delta \<Rightarrow> string \<Rightarrow> broadcast_delta" where
  "message_of delta commit_id =
     \<lparr>bd_delta = Some delta, bd_commit_id = commit_id, bd_redacted = True\<rparr>"

definition push_item :: "queue_id \<Rightarrow> broadcast_delta \<Rightarrow> bus \<Rightarrow> bus" where
  "push_item q msg b = (let x = queue_of b q in set_queue q (x\<lparr>qu_items := qu_items x @ [msg]\<rparr>) b)"

text \<open>One turn of the loop over the targets: \<open>try_send\<close> and its four cases.\<close>

fun send_step ::
    "env \<Rightarrow> state_delta \<Rightarrow> string \<Rightarrow> (string \<times> queue_id) list \<Rightarrow> after_cast \<Rightarrow> bus \<Rightarrow> bus \<times> task" where
  "send_step E delta commit_id [] k b = (b, CountDelta E (sd_durable delta) k)"
| "send_step E delta commit_id ((subscriber_id, q) # targets) k b =
     (case try_send (queue_of b q) of
        SendOk \<Rightarrow> (push_item q (message_of delta commit_id) b, Send E delta commit_id targets k)
      | SendFull \<Rightarrow>
          if sd_durable delta then (b, AwaitRoom E delta commit_id q targets k)
          else (record_drop subscriber_id b, Send E delta commit_id targets k)
      | SendClosed \<Rightarrow>
          (b\<lparr>bus_subscriptions := AList.delete subscriber_id (bus_subscriptions b)\<rparr>,
           Send E delta commit_id targets k))"

text \<open>
  \<open>send(message).await\<close>: enabled when the queue has room or is closed. tokio serves the senders
  that wait for a queue in turn and before later ones; here any of them may go first, and a place that
  tokio has set aside for one of them may be taken by a \<open>try_send\<close> that comes in between.
\<close>

definition await_step ::
    "env \<Rightarrow> state_delta \<Rightarrow> string \<Rightarrow> queue_id \<Rightarrow> (string \<times> queue_id) list \<Rightarrow> after_cast \<Rightarrow> bus
       \<Rightarrow> (bus \<times> task) option" where
  "await_step E delta commit_id q targets k b =
     (case try_send (queue_of b q) of
        SendOk \<Rightarrow> Some (push_item q (message_of delta commit_id) b, Send E delta commit_id targets k)
      | SendFull \<Rightarrow> None
      | SendClosed \<Rightarrow> Some (b, Send E delta commit_id targets k))"

definition count_step :: "env \<Rightarrow> bool \<Rightarrow> after_cast \<Rightarrow> bus \<Rightarrow> bus \<times> task" where
  "count_step E durable k b =
     (b\<lparr>bus_metrics := count_delta durable (bus_metrics b)\<rparr>,
      case k of ThenInspect c r \<Rightarrow> InspectLoop E c r | ThenReply r \<Rightarrow> answer_with r)"

section \<open>inspect_loop\<close>

definition inspect_step :: "env \<Rightarrow> commit \<Rightarrow> reply \<Rightarrow> app_state \<Rightarrow> app_state \<times> task" where
  "inspect_step E c r s =
     (if \<not> cf_loop_detection_enabled (app_config s) then (s, answer_with r)
      else
     (let (d, found) = inspect E c (app_detector s); s = s\<lparr>app_detector := d\<rparr> in
      case found of
        None \<Rightarrow> (s, answer_with r)
      | Some w \<Rightarrow> (s, StoreWarning E w r)))"

definition store_warning_step :: "env \<Rightarrow> loop_warning \<Rightarrow> reply \<Rightarrow> app_state \<Rightarrow> app_state \<times> task" where
  "store_warning_step E w r s =
     (case append_loop_warning E w (app_store s) of
        Inl e \<Rightarrow> (s, fail e)
      | Inr st \<Rightarrow>
          (count_metric (\<lambda>m. m\<lparr>mt_loop_warnings_total := inc (mt_loop_warnings_total m)\<rparr>)
             (s\<lparr>app_store := st\<rparr>),
           case json_print E (loop_warning_json w) of
             Inl e \<Rightarrow> fail e
           | Inr bs \<Rightarrow> Cast UpdateChannel E (loop_warning_delta E w bs) [] (ThenReply r)))"

section \<open>fork and rollback\<close>

definition fork_run :: "env \<Rightarrow> fork_request \<Rightarrow> string" where
  "fork_run E request =
     (if fq_new_run_id request = [] then new_id E RunSite ''run'' else fq_new_run_id request)"

definition move_fork_step :: "env \<Rightarrow> fork_request \<Rightarrow> commit \<Rightarrow> app_state \<Rightarrow> app_state \<times> task" where
  "move_fork_step E request source s =
     (case set_head E (fork_run E request) (cm_thread_id source) (cm_agent_id source)
             (cm_channel source) (cm_commit_id source) (app_store s) of
        Inl e \<Rightarrow> (s, fail e)
      | Inr st \<Rightarrow> (s\<lparr>app_store := st\<rparr>, RecordFork E request source))"

definition record_fork_step :: "env \<Rightarrow> fork_request \<Rightarrow> commit \<Rightarrow> app_state \<Rightarrow> app_state \<times> task" where
  "record_fork_step E request source s =
     (case append_event E ''fork''
             (json_text E (json_object
               [(''source_commit_id'', JStr (cm_commit_id source)),
                (''run_id'', JStr (fork_run E request))])) (app_store s) of
        (st, Inl e) \<Rightarrow> (s\<lparr>app_store := st\<rparr>, fail e)
      | (st, Inr _) \<Rightarrow> (s\<lparr>app_store := st\<rparr>, answer_with (ForkReply
          \<lparr>fr_source_commit_id = fq_source_commit_id request, fr_run_id = fork_run E request,
           fr_head_commit_id = fq_source_commit_id request\<rparr>)))"

definition read_head_step :: "env \<Rightarrow> rollback_request \<Rightarrow> app_state \<Rightarrow> task" where
  "read_head_step E request s =
     (case get_commit E (app_store s) (rb_head_commit_id request) of
        Inl e \<Rightarrow> fail e
      | Inr None \<Rightarrow> fail (Anyhow ''head commit not found'')
      | Inr (Some head) \<Rightarrow> ReadTarget E request head)"

definition read_target_step :: "env \<Rightarrow> rollback_request \<Rightarrow> commit \<Rightarrow> app_state \<Rightarrow> task" where
  "read_target_step E request head s =
     (case get_commit E (app_store s) (rb_target_commit_id request) of
        Inl e \<Rightarrow> fail e
      | Inr None \<Rightarrow> fail (Anyhow ''target commit not found'')
      | Inr (Some target) \<Rightarrow> ReadAncestry E request head target)"

fun warnings_step ::
    "env \<Rightarrow> rollback_request \<Rightarrow> commit \<Rightarrow> commit \<Rightarrow> string list \<Rightarrow> string list \<Rightarrow> app_state \<Rightarrow> task" where
  "warnings_step E request head target [] warnings s = MoveHead E request head target warnings"
| "warnings_step E request head target (commit_id # ids) warnings s =
     (if commit_id = rb_target_commit_id request then MoveHead E request head target warnings
      else (case get_commit E (app_store s) commit_id of
              Inl e \<Rightarrow> fail e
            | Inr None \<Rightarrow> CollectWarnings E request head target ids warnings
            | Inr (Some c) \<Rightarrow> CollectWarnings E request head target ids
                (warnings @ map (rollback_warning c) (cm_external_side_effects c))))"

definition move_head_step ::
    "env \<Rightarrow> rollback_request \<Rightarrow> commit \<Rightarrow> commit \<Rightarrow> string list \<Rightarrow> app_state \<Rightarrow> app_state \<times> task" where
  "move_head_step E request head target warnings s =
     (case set_head E (cm_run_id head) (cm_thread_id head) (cm_agent_id head) (cm_channel head)
             (cm_commit_id target) (app_store s) of
        Inl e \<Rightarrow> (s, fail e)
      | Inr st \<Rightarrow> (s\<lparr>app_store := st\<rparr>, RecordRollback E request head target warnings))"

text \<open>\<open>append_event\<close> of a rollback: the row of the audit table, then that of the table of rollbacks.\<close>

definition rollback_record :: "env \<Rightarrow> commit \<Rightarrow> commit \<Rightarrow> string list \<Rightarrow> string" where
  "rollback_record E head target warnings = json_text E (json_object
     [(''previous_head_commit_id'', JStr (cm_commit_id head)),
      (''new_head_commit_id'', JStr (cm_commit_id target)),
      (''warnings'', JArr (map JStr warnings))])"

definition record_rollback_step ::
    "env \<Rightarrow> rollback_request \<Rightarrow> commit \<Rightarrow> commit \<Rightarrow> string list \<Rightarrow> app_state \<Rightarrow> app_state \<times> task" where
  "record_rollback_step E request head target warnings s =
     (case append_audit E ''rollback'' (rollback_record E head target warnings) (app_store s) of
        Inl e \<Rightarrow> (s, fail e)
      | Inr st \<Rightarrow> (s\<lparr>app_store := st\<rparr>, LogRollback E request head target warnings))"

definition log_rollback_step ::
    "env \<Rightarrow> rollback_request \<Rightarrow> commit \<Rightarrow> commit \<Rightarrow> string list \<Rightarrow> app_state \<Rightarrow> app_state \<times> task" where
  "log_rollback_step E request head target warnings s =
     (case append_rollback E (rollback_record E head target warnings) (app_store s) of
        Inl e \<Rightarrow> (s, fail e)
      | Inr st \<Rightarrow> (s\<lparr>app_store := st\<rparr>, answer_with (RollbackReply
          \<lparr>rbr_moved = True, rbr_previous_head_commit_id = rb_head_commit_id request,
           rbr_new_head_commit_id = rb_target_commit_id request, rbr_warnings = warnings\<rparr>)))"

section \<open>The next step of a task\<close>

definition on_bus :: "(bus \<Rightarrow> bus \<times> task) \<Rightarrow> app_state \<Rightarrow> app_state \<times> task" where
  "on_bus f s = (let (b, t) = f (app_bus s) in (s\<lparr>app_bus := b\<rparr>, t))"

text \<open>\<open>None\<close>: the task is at its end, or it waits.\<close>

fun advance :: "task \<Rightarrow> app_state \<Rightarrow> (app_state \<times> task) option" where
  "advance (Begin E op) s = Some (s, begin_op E op s)"
| "advance (Prepare E op delta) s = Some (prepare_step E op delta s)"
| "advance (Resolve E op delta p report refs) s = Some (s, resolve_step E op delta p report refs s)"
| "advance (Persist st E delta c r) s = Some (persist_step st E delta c r s)"
| "advance (Cast st E delta i k) s = Some (on_bus (cast_step st E delta i k) s)"
| "advance (Send E delta i targets k) s = Some (on_bus (send_step E delta i targets k) s)"
| "advance (AwaitRoom E delta i q targets k) s =
     map_option (\<lambda>(b, t). (s\<lparr>app_bus := b\<rparr>, t)) (await_step E delta i q targets k (app_bus s))"
| "advance (CountDelta E durable k) s = Some (on_bus (count_step E durable k) s)"
| "advance (InspectLoop E c r) s = Some (inspect_step E c r s)"
| "advance (StoreWarning E w r) s = Some (store_warning_step E w r s)"
| "advance (MoveFork E q c) s = Some (move_fork_step E q c s)"
| "advance (RecordFork E q c) s = Some (record_fork_step E q c s)"
| "advance (ReadHead E q) s = Some (s, read_head_step E q s)"
| "advance (ReadTarget E q head) s = Some (s, read_target_step E q head s)"
| "advance (ReadAncestry E q head target) s =
     Some (s, CollectWarnings E q head target (ancestry (app_dag s) (rb_head_commit_id q)) [])"
| "advance (CollectWarnings E q head target ids ws) s = Some (s, warnings_step E q head target ids ws s)"
| "advance (MoveHead E q head target ws) s = Some (move_head_step E q head target ws s)"
| "advance (RecordRollback E q head target ws) s = Some (record_rollback_step E q head target ws s)"
| "advance (LogRollback E q head target ws) s = Some (log_rollback_step E q head target ws s)"
| "advance (Finished r) s = None"
| "advance Dropped s = None"

section \<open>The pool of requests\<close>

text \<open>The commit a task has built and is about to persist, and whether it has an id of its own.\<close>

fun commit_at :: "task \<Rightarrow> commit option" where
  "commit_at (Persist st E delta c r) = Some c"
| "commit_at _ = None"

text \<open>
  Content addressing over the life of the daemon: \<open>named\<close> is the commit that an id stands for, and
  the codec reads it back.
\<close>

definition known :: "env \<Rightarrow> (string \<Rightarrow> commit option) \<Rightarrow> commit \<Rightarrow> bool" where
  "known E0 named c \<longleftrightarrow> codec_ok E0 c \<and> named (cm_commit_id c) = Some c"

text \<open>
  An action of a task: its next step, or, while it awaits room in a queue, its end, because its
  client has gone and the future of the handler is dropped.
\<close>

inductive task_act ::
    "env \<Rightarrow> (string \<Rightarrow> commit option) \<Rightarrow> app_state \<Rightarrow> task \<Rightarrow> app_state \<Rightarrow> task \<Rightarrow> bool" for E0 named where
  advance: "advance t s = Some (s', t') \<Longrightarrow> (\<And>c. commit_at t' = Some c \<Longrightarrow> known E0 named c) \<Longrightarrow>
    task_act E0 named s t s' t'"
| drop: "task_act E0 named s (AwaitRoom E delta i q targets k) s Dropped"

text \<open>
  The other requests that change the state touch neither index nor store: registering, subscribing
  and heartbeats. Each is one step here, although the first two take the locks of the grants, the
  presence table, the subscriptions and the metrics one after the other. The receivers read or leave.
\<close>

inductive other_act :: "app_state \<Rightarrow> app_state \<Rightarrow> bool" where
  register: "other_act s (handle E (RegisterAgent q) s)"
| subscribe: "other_act s (handle E (Subscribe q) s)"
| heartbeat: "other_act s (handle E (Stream (Some (CHeartbeat h))) s)"
| receive: "other_act s (s\<lparr>app_bus := take_message q (app_bus s)\<rparr>)"
| hang_up: "other_act s (s\<lparr>app_bus := drop_receiver q (app_bus s)\<rparr>)"

inductive arrives :: "env \<Rightarrow> bool \<Rightarrow> task \<Rightarrow> bool" for E0 lossy where
  "same_codec E E0 \<Longrightarrow> lossy \<or> reliable E \<Longrightarrow> arrives E0 lossy (Begin E op)"

abbreviation requests_step ::
    "env \<Rightarrow> bool \<Rightarrow> (string \<Rightarrow> commit option) \<Rightarrow> app_state \<times> task list \<Rightarrow> app_state \<times> task list \<Rightarrow> bool" where
  "requests_step E0 lossy named \<equiv> pool_step (task_act E0 named) other_act (arrives E0 lossy)"

abbreviation requests_steps ::
    "env \<Rightarrow> bool \<Rightarrow> (string \<Rightarrow> commit option) \<Rightarrow> app_state \<times> task list \<Rightarrow> app_state \<times> task list \<Rightarrow> bool" where
  "requests_steps E0 lossy named \<equiv> (requests_step E0 lossy named)\<^sup>*\<^sup>*"

end
