(* ===== verification/Grpc.thy ===== *)
theory Grpc
  imports Http
begin

text \<open>
  The tonic service of \<open>daemon/src/grpc/service.rs\<close> behind the interceptor of
  \<open>grpc/interceptors.rs\<close>, and its relation to the HTTP interface. Request messages with a single
  field are that field. \<open>None\<close> is a call that does not return.
\<close>

section \<open>Calls\<close>

datatype grpc_request =
    GRegisterAgent register_agent_request
  | GPublishDelta publish_delta_request
  | GSubscribe subscribe_request
  | GGetChannelSnapshot string
  | GCheckpoint checkpoint_request
  | GGetCommit string
  | GListRuns
  | GListCommits list_commits_request
  | GDiffCommits diff_commits_request
  | GReplay replay_request
  | GFork fork_request
  | GRollback rollback_request
  | GExportRun export_run_request
  | GHealth

datatype grpc_reply =
    RRegisterAgent register_agent_response
  | RPublishDelta publish_delta_response
  | RSubscribe queue_id
  | RChannelSnapshot channel_snapshot_response
  | RCheckpoint checkpoint_response
  | RCommit commit
  | RRuns "run_summary list"
  | RCommits "commit list"
  | RDiff commit_diff
  | RReplay replay_result
  | RFork fork_result
  | RRollback rollback_response
  | RExportRun export_run_response
  | RHealth health_response

text \<open>\<open>map(Response::new).map_err(to_status)\<close>.\<close>

definition response :: "('a \<Rightarrow> grpc_reply) \<Rightarrow> 'a result \<Rightarrow> grpc_status + grpc_reply" where
  "response f r = (case r of Inl e \<Rightarrow> Inl (to_status e) | Inr x \<Rightarrow> Inr (f x))"

fun respond :: "('a \<Rightarrow> grpc_reply) \<Rightarrow> 's \<times> 'a outcome \<Rightarrow> 's \<times> (grpc_status + grpc_reply) option" where
  "respond f (s, Done x) = (s, Some (Inr (f x)))"
| "respond f (s, Failed e) = (s, Some (Inl (to_status e)))"
| "respond f (s, Blocked) = (s, None)"

fun call :: "env \<Rightarrow> grpc_request \<Rightarrow> app_state \<Rightarrow> app_state \<times> (grpc_status + grpc_reply) option" where
  "call E (GRegisterAgent q) s =
     (let (s', r) = register_agent_inner E q s in (s', Some (Inr (RRegisterAgent r))))"
| "call E (GPublishDelta q) s = respond RPublishDelta (publish_delta_inner E q s)"
| "call E (GSubscribe q) s = (let (s', r) = grpc_subscribe q s in (s', Some (Inr (RSubscribe r))))"
| "call E (GGetChannelSnapshot c) s = (s, Some (Inr (RChannelSnapshot (snapshot c (app_bus s)))))"
| "call E (GCheckpoint q) s = respond RCheckpoint (checkpoint_inner E q s)"
| "call E (GGetCommit c) s = (s, Some (response RCommit (get_commit_inner E c s)))"
| "call E GListRuns s = (s, Some (response RRuns (list_runs_inner E s)))"
| "call E (GListCommits q) s = (s, Some (response RCommits (list_commits_inner E q s)))"
| "call E (GDiffCommits q) s = (s, Some (response RDiff (diff_inner E q s)))"
| "call E (GReplay q) s = (s, map_option (response RReplay) (replay_inner E q s))"
| "call E (GFork q) s = respond RFork (fork_inner E q s)"
| "call E (GRollback q) s = respond RRollback (rollback_inner E q s)"
| "call E (GExportRun q) s = (s, Some (response RExportRun (export_run_inner E q s)))"
| "call E GHealth s = (s, Some (Inr (RHealth (health s))))"

text \<open>The interceptor runs before every call.\<close>

definition serve_grpc ::
    "env \<Rightarrow> string option \<Rightarrow> grpc_request \<Rightarrow> app_state \<Rightarrow> app_state \<times> (grpc_status + grpc_reply) option" where
  "serve_grpc E header q s =
     (case validate_grpc header (app_config s) of
        Inl status \<Rightarrow> (s, Some (Inl status))
      | Inr _ \<Rightarrow> call E q s)"

section \<open>open_stream\<close>

text \<open>
  The stream answers one event after another; the first status ends it and the later events are
  never read. Each event comes with the environment of its handling.
\<close>

fun open_stream ::
    "(env \<times> client_event option) list \<Rightarrow> app_state \<Rightarrow> app_state \<times> (grpc_status + server_event) list" where
  "open_stream [] s = (s, [])"
| "open_stream ((E, ev) # events) s =
     (case stream_event E ev s of
        (s', Done (Inr out)) \<Rightarrow> (let (s'', outs) = open_stream events s' in (s'', Inr out # outs))
      | (s', Done (Inl status)) \<Rightarrow> (s', [Inl status])
      | (s', Failed e) \<Rightarrow> (s', [])
      | (s', Blocked) \<Rightarrow> (s', []))"

section \<open>The two transports\<close>

text \<open>The HTTP answer that corresponds to a status: \<open>internal_error\<close> has no case for invalid input.\<close>

fun http_code :: "grpc_status \<Rightarrow> status_code \<times> string" where
  "http_code (Unauthenticated m) = (Unauthorized, m)"
| "http_code (PermissionDenied m) = (Forbidden, m)"
| "http_code (GrpcNotFound m) = (NotFound, m)"
| "http_code (InvalidArgument m) = (InternalServerError, m)"
| "http_code (Internal m) = (InternalServerError, m)"

lemma internal_error_code: "internal_error e = http_code (to_status e)"
  by (simp add: internal_error_def to_status_def Let_def)

text \<open>The call that a writing HTTP request comes down to, once its body has been accepted.\<close>

definition right_of :: "'a + 'b \<Rightarrow> 'b option" where
  "right_of r = (case r of Inl e \<Rightarrow> None | Inr x \<Rightarrow> Some x)"

fun forwarded :: "env \<Rightarrow> http_request \<Rightarrow> grpc_request option" where
  "forwarded E (PostRegister b) = Some (GRegisterAgent (register_request b))"
| "forwarded E (PostDelta b) =
     map_option (\<lambda>p. GPublishDelta (publish_request E b p)) (right_of (payload_from_json E (pb_delta b)))"
| "forwarded E (PostCheckpoint b) =
     map_option (\<lambda>p. GCheckpoint (checkpoint_request_of E b p)) (right_of (payload_from_json E (cb_state b)))"
| "forwarded E (PostEvent v) =
     map_option GCheckpoint (right_of (try_api (try_from_value E v) (\<lambda>body.
       try_api (payload_from_json E v) (\<lambda>p. Inr (event_request E body p)))))"
| "forwarded E (PostFork b) = Some (GFork (fork_request_of b))"
| "forwarded E (PostRollback b) = Some (GRollback (rollback_request_of b))"
| "forwarded E _ = None"

definition same_answer :: "(grpc_status + grpc_reply) option \<Rightarrow> http_reply api_result option \<Rightarrow> bool" where
  "same_answer g h =
     (case g of
        None \<Rightarrow> h = None
      | Some (Inl status) \<Rightarrow> h = Some (Inl (http_code status))
      | Some (Inr r) \<Rightarrow> (case h of Some (Inr v) \<Rightarrow> True | _ \<Rightarrow> False))"

lemma respond_answer [simp]:
  "fst (moved (answer g r)) = fst (respond f r)"
  "same_answer (snd (respond f r)) (snd (moved (answer g r)))"
  by (cases "(g, r)" rule: answer.cases; simp add: moved_def same_answer_def reply_def internal_error_code)+

lemma moved_Inr [simp]: "moved (s, Some (Inr v)) = (s, Some (Inr (RJson v)))"
  by (simp add: moved_def reply_def)

lemma same_answer_Inr [simp]: "same_answer (Some (Inr x)) (Some (Inr v))"
  by (simp add: same_answer_def)

lemma right_of_Some [simp]: "right_of r = Some x \<longleftrightarrow> r = Inr x"
  by (simp add: right_of_def split: sum.splits)

text \<open>
  Claim C37. The two transports are one service: an authorized HTTP request that writes changes the
  state exactly as the gRPC call it comes down to, returns when that call returns, fails when it
  fails, and gives the status that corresponds, except that an \<open>InvalidArgument\<close> of gRPC is a 500
  over HTTP.
\<close>

theorem transports_same_effect:
  assumes "validate_http header (app_config s) = Inr ()" "forwarded E r = Some q"
  shows "fst (serve_http E header r s) = fst (serve_grpc E header q s)
     \<and> same_answer (snd (serve_grpc E header q s)) (snd (serve_http E header r s))"
proof -
  have v: "validate_grpc header (app_config s) = Inr ()"
    using assms(1) by (auto simp: validate_http_def validate_grpc_def split: if_splits option.splits)
  have g: "guard s header = Inr ()" using assms(1) by (simp add: guard_def)
  show ?thesis using assms(2) v g
    by (cases r) (auto simp: serve_grpc_def writes_def http_register_agent_def http_publish_delta_def
        http_checkpoint_def http_universal_event_def http_fork_def http_rollback_def Let_def split_beta)
qed

text \<open>A fork of a commit that does not exist, over both transports.\<close>

theorem transports_same_effect_witness:
  "\<exists>m. snd (serve_http example_env (Some ''Bearer t'')
       (PostFork \<lparr>fb_source_commit_id = ''x'', fb_new_run_id = None\<rparr>)
       (new_state example_config (new_bus new_metrics) (open_store example_config) dag_default))
     = Some (Inl (NotFound, m))"
proof -
  let ?s = "new_state example_config (new_bus new_metrics) (open_store example_config) dag_default"
  let ?b = "\<lparr>fb_source_commit_id = ''x'', fb_new_run_id = None\<rparr>"
  have a: "validate_http (Some ''Bearer t'') (app_config ?s) = Inr ()"
    by (simp add: new_state_def validate_http_def example_config_def bearer_def visible_ascii_def strip_prefix_def)
  have g: "\<exists>m. snd (serve_grpc example_env (Some ''Bearer t'') (GFork (fork_request_of ?b)) ?s)
      = Some (Inl (GrpcNotFound m))"
    by (simp add: serve_grpc_def validate_grpc_def new_state_def example_config_def bearer_def
        visible_ascii_def strip_prefix_def fork_inner_def fork_def fork_request_of_def get_commit_def
        open_store_def example_env_def to_status_def Let_def)
  have "forwarded example_env (PostFork ?b) = Some (GFork (fork_request_of ?b))" by simp
  from transports_same_effect [OF a this] g show ?thesis by (auto simp: same_answer_def)
qed

end
