(* ===== verification/Daemon.thy ===== *)
theory Daemon
  imports System Grpc
begin

text \<open>
  The whole daemon: the invariant of its state, what a finished request leaves behind, the start
  of \<open>run\<close> in lib.rs, and the properties that hold in every state that any sequence of requests
  reaches.
\<close>

section \<open>The invariant of the state\<close>

definition app_ok :: "config \<Rightarrow> app_state \<Rightarrow> bool" where
  "app_ok config s \<longleftrightarrow> app_config s = config \<and> bus_ok (app_bus s)
     \<and> length (bus_recent_deltas (app_bus s)) \<le> 256
     \<and> ld_window_size (app_detector s) = 12
     \<and> (\<forall>key. length (window_of (app_detector s) key) \<le> 12)"

lemma app_ok_initial: "app_ok config (initial_state config)"
  by (simp add: app_ok_def initial_state_def new_state_def default_detector_def new_detector_def
      window_of_def new_bus_def bus_ok_def)

lemma app_ok_after:
  assumes "app_ok config (fst r)" "\<And>x. app_ok config (fst r) \<Longrightarrow> app_ok config (fst (f x (fst r)))"
  shows "app_ok config (fst (after r f))"
  using assms by (cases r; cases "snd r") auto

lemma app_ok_updates [simp]:
  "app_ok config (s\<lparr>app_store := st\<rparr>) = app_ok config s"
  "app_ok config (s\<lparr>app_dag := d\<rparr>) = app_ok config s"
  "app_ok config (s\<lparr>app_grants := g\<rparr>) = app_ok config s"
  "app_ok config (count_metric m s) = app_ok config s"
  by (simp_all add: app_ok_def count_metric_def)

lemma push_bounded_length: "length xs \<le> n \<Longrightarrow> 0 < n \<Longrightarrow> length (push_bounded n x xs) \<le> n"
  by (auto simp: push_bounded_def)

lemma broadcast_ok:
  assumes "bus_ok b" shows "bus_ok (fst (broadcast E d i b))"
  using deliver_ok [of "push_recent d i (update_channel d b)"] assms
  by (simp add: broadcast_def Let_def split_beta)

lemma app_ok_broadcast:
  assumes "app_ok config s" shows "app_ok config (fst (send_broadcast E d i s))"
proof -
  have "length (bus_recent_deltas (fst (broadcast E d i (app_bus s)))) \<le> 256"
    using assms unfolding broadcast_keeps by (intro push_bounded_length) (simp_all add: app_ok_def)
  then show ?thesis using assms broadcast_ok [of "app_bus s"]
    by (simp add: app_ok_def send_broadcast_def split_beta Let_def)
qed

lemma app_ok_prepare: "app_ok config s \<Longrightarrow> app_ok config (fst (prepare_payload E p s))"
  by (auto simp: prepare_payload_def Let_def split_beta split: sum.splits)

lemma app_ok_persist: "app_ok config s \<Longrightarrow> app_ok config (fst (persist_commit E c s))"
  by (simp add: persist_commit_def Let_def split: sum.splits)

lemma app_ok_detector:
  assumes "app_ok config s" "inspect E c (app_detector s) = (d, found)"
  shows "app_ok config (s\<lparr>app_detector := d\<rparr>)"
proof -
  have "ld_window_size d = 12" "length (window_of d key) \<le> 12" for key
    using inspect_window [of E c "app_detector s"] assms
      push_bounded_length [of "window_of (app_detector s) key" 12]
    by (auto simp: app_ok_def)
  then show ?thesis using assms(1) by (simp add: app_ok_def)
qed

lemma app_ok_inspect:
  assumes "app_ok config s" shows "app_ok config (fst (inspect_loop E c s))"
proof -
  obtain d found where i: "inspect E c (app_detector s) = (d, found)" by (cases "inspect E c (app_detector s)")
  have "app_ok config (s\<lparr>app_detector := d\<rparr>)" using assms i by (rule app_ok_detector)
  moreover have "app_ok config (fst (broadcast_loop_warning E w t))" if "app_ok config t" for w t
    using that app_ok_broadcast by (simp add: broadcast_loop_warning_def split: sum.splits)
  ultimately show ?thesis using assms i
    by (auto simp: inspect_loop_def Let_def split: option.splits sum.splits)
qed

lemma app_ok_commit: "app_ok config s \<Longrightarrow> app_ok config (fst (commit_and_broadcast E d c s))"
  unfolding commit_and_broadcast_def
  by (intro app_ok_after app_ok_persist app_ok_broadcast app_ok_inspect)

lemma app_ok_publish: "app_ok config s \<Longrightarrow> app_ok config (fst (publish_delta_inner E q s))"
  unfolding publish_delta_inner_def Let_def
  by (auto split: option.splits sum.splits
      intro!: app_ok_after app_ok_prepare app_ok_broadcast app_ok_commit)

lemma app_ok_checkpoint: "app_ok config s \<Longrightarrow> app_ok config (fst (checkpoint_inner E q s))"
  unfolding checkpoint_inner_def Let_def
  by (auto split: option.splits sum.splits intro!: app_ok_after app_ok_prepare app_ok_commit)

lemma app_ok_register: "app_ok config s \<Longrightarrow> app_ok config (fst (register_agent_inner E q s))"
  by (simp add: register_agent_inner_def bus_register_agent_def Let_def app_ok_def bus_ok_def)

lemma app_ok_fork: "app_ok config s \<Longrightarrow> app_ok config (fst (fork_inner E q s))"
  by (simp add: fork_inner_def split_beta)

lemma app_ok_rollback: "app_ok config s \<Longrightarrow> app_ok config (fst (rollback_inner E q s))"
  by (simp add: rollback_inner_def split_beta)

lemma app_ok_subscribe: "app_ok config s \<Longrightarrow> app_ok config (fst (grpc_subscribe q s))"
  using subscribe_ok [of "app_bus s"]
  by (simp add: grpc_subscribe_def split_beta Let_def app_ok_def subscribe_def)

lemma app_ok_heartbeat: "app_ok config s \<Longrightarrow> app_ok config (s\<lparr>app_bus := heartbeat E i (app_bus s)\<rparr>)"
  by (auto simp: app_ok_def heartbeat_def bus_ok_def split: option.splits)

lemma app_ok_stream: "app_ok config s \<Longrightarrow> app_ok config (fst (stream_event E ev s))"
  using app_ok_publish app_ok_heartbeat
  by (auto simp: stream_event_fst split: option.splits client_event.splits)

lemma app_ok_writes:
  assumes "app_ok config s" "\<And>q. app_ok config (fst (f q))"
  shows "app_ok config (fst (writes s header request f))"
  using assms by (cases rule: writes_cases [of s header request f]) simp_all

lemma app_ok_http: "app_ok config s \<Longrightarrow> app_ok config (fst (serve_http E header r s))"
  by (cases r) (auto simp: http_register_agent_def http_publish_delta_def http_checkpoint_def
      http_universal_event_def http_fork_def http_rollback_def split_beta Let_def
      intro!: app_ok_writes app_ok_register app_ok_publish app_ok_checkpoint app_ok_fork app_ok_rollback)

lemma app_ok_handle: "app_ok config s \<Longrightarrow> app_ok config (handle E q s)"
  by (cases q) (simp_all add: app_ok_register app_ok_publish app_ok_checkpoint app_ok_fork
      app_ok_rollback app_ok_subscribe app_ok_stream app_ok_http)

lemma app_ok_set_queue: "app_ok config s \<Longrightarrow> app_ok config (s\<lparr>app_bus := set_queue q x (app_bus s)\<rparr>)"
  by (auto simp: app_ok_def bus_ok_def list_all_iff set_queue_def set_keys_update simp del: set_map)

lemma app_step_ok: "app_step E0 lossy s s' \<Longrightarrow> app_ok config s \<Longrightarrow> app_ok config s'"
  by (auto elim!: app_step.cases simp: take_message_def drop_receiver_def Let_def
      intro: app_ok_handle app_ok_set_queue)

text \<open>A gRPC call is one of these requests, or changes nothing; a stream is a sequence of them.\<close>

fun grpc_as :: "grpc_request \<Rightarrow> request option" where
  "grpc_as (GRegisterAgent q) = Some (RegisterAgent q)"
| "grpc_as (GPublishDelta q) = Some (Publish q)"
| "grpc_as (GSubscribe q) = Some (Subscribe q)"
| "grpc_as (GCheckpoint q) = Some (Checkpoint q)"
| "grpc_as (GFork q) = Some (Fork q)"
| "grpc_as (GRollback q) = Some (Rollback q)"
| "grpc_as _ = None"

lemma fst_respond [simp]: "fst (respond f r) = fst r"
  by (cases "(f, r)" rule: respond.cases) simp_all

lemma call_handled: "fst (call E q s) = (case grpc_as q of None \<Rightarrow> s | Some r \<Rightarrow> handle E r s)"
  by (cases q) (simp_all add: split_beta Let_def)

lemma serve_grpc_handled: "fst (serve_grpc E header q s) = s \<or>
    (\<exists>r. grpc_as q = Some r \<and> fst (serve_grpc E header q s) = handle E r s)"
  by (cases "grpc_as q") (simp_all add: serve_grpc_def call_handled split: sum.splits)

interpretation daemon_state: preserved "app_step E0 lossy" "app_ok config" for E0 lossy config
  by unfold_locales (rule app_step_ok)

section \<open>What a finished publish leaves behind\<close>

lemma after_Done: "after r f = (s', Done y) \<longleftrightarrow> (\<exists>s x. r = (s, Done x) \<and> f x s = (s', Done y))"
  by (cases "(r, f)" rule: after.cases) auto

lemma after_Blocked:
  "after r f = (s', Blocked) \<longleftrightarrow> r = (s', Blocked) \<or> (\<exists>s x. r = (s, Done x) \<and> f x s = (s', Blocked))"
  by (cases "(r, f)" rule: after.cases) auto

lemma send_broadcast_store:
  "send_broadcast E d i s = (s', u) \<Longrightarrow> app_store s' = app_store s \<and> app_dag s' = app_dag s"
  using send_broadcast_simps [of E d i s] by simp

lemma inspect_loop_store:
  "inspect_loop E c s = (s', u) \<Longrightarrow> st_commits (app_store s') = st_commits (app_store s)
     \<and> st_heads (app_store s') = st_heads (app_store s)"
  using inspect_loop_ledger [of s E c] by (simp add: same_ledger_def)

text \<open>Where the commit of a request ends up: in the history, and as the head of its coordinates.\<close>

definition persisted :: "env \<Rightarrow> commit \<Rightarrow> app_state \<Rightarrow> bool" where
  "persisted E c s \<longleftrightarrow> history E (app_store s) (cm_commit_id c) = Some c
     \<and> map_option hd_commit_id (map_of (st_heads (app_store s))
          (head_key (cm_run_id c) (cm_thread_id c) (cm_agent_id c) (cm_channel c))) = Some (cm_commit_id c)"

lemma persisted_cong:
  assumes "st_commits (app_store s') = st_commits (app_store s)"
    "st_heads (app_store s') = st_heads (app_store s)"
  shows "persisted E c s' = persisted E c s"
  using history_cong [OF assms(1)] assms(2) by (simp add: persisted_def)

lemma persist_commit_persisted:
  assumes "persist_commit E c s = (s', Done u)" "store_ok E (app_store s)" "admissible E (app_store s) c"
  shows "persisted E c s'"
proof -
  obtain d st st' where p: "append (app_dag s) c = Inr d" "append_commit E c (app_store s) = Inr st"
    "set_head E (cm_run_id c) (cm_thread_id c) (cm_agent_id c) (cm_channel c) (cm_commit_id c) st = Inr st'"
    and s': "app_store s' = st'"
    using assms(1) by (auto simp: persist_commit_def Let_def split: sum.splits)
  have "history E st = (history E (app_store s))(cm_commit_id c \<mapsto> c)"
    using persist_history(2) [OF assms(2) same_codec_refl assms(3) p(2)] .
  moreover have "history E st' = history E st"
    using set_head_commits [OF p(3)] by (rule history_cong)
  moreover have "map_option hd_commit_id (map_of (st_heads st')
      (head_key (cm_run_id c) (cm_thread_id c) (cm_agent_id c) (cm_channel c))) = Some (cm_commit_id c)"
    using p(3) by (auto simp: set_head_def Let_def result_simps table_simps split: option.splits
        simp del: map_of_append)
  ultimately show ?thesis by (simp add: persisted_def s')
qed

lemma commit_and_broadcast_persisted:
  assumes "commit_and_broadcast E d c s = (s', r)" "r = Done () \<or> r = Blocked"
    "store_ok E (app_store s)" "admissible E (app_store s) c"
  shows "persisted E c s'"
proof -
  have b: "persisted E c t'" if "persisted E c t" "send_broadcast E d i t = (t', u)" for t t' i u
    using that send_broadcast_store [OF that(2)] persisted_cong by metis
  have i: "persisted E c t'" if "persisted E c t" "inspect_loop E c t = (t', u)" for t t' u
    using that inspect_loop_store [OF that(2)] persisted_cong by metis
  have p: "persisted E c t" if "persist_commit E c s = (t, Done u)" for t u
    using persist_commit_persisted that assms(3,4) by blast
  have "snd (persist_commit E c s) \<noteq> Blocked"
    by (simp add: persist_commit_def Let_def split: sum.splits)
  with assms(1,2) show ?thesis
    unfolding commit_and_broadcast_def by (auto simp: after_Done after_Blocked intro: i [OF b [OF p]] b [OF p])
qed

lemma normalize_delta_keeps [simp]:
  "sd_durable (normalize_delta E d) = sd_durable d" "sd_channel (normalize_delta E d) = sd_channel d"
  "sd_agent_id (normalize_delta E d) = sd_agent_id d" "sd_run_id (normalize_delta E d) = sd_run_id d"
  "sd_thread_id (normalize_delta E d) = sd_thread_id d"
  by (simp_all add: normalize_delta_def Let_def)

lemma prepare_payload_not_Blocked: "prepare_payload E p s \<noteq> (s', Blocked)"
  by (simp add: prepare_payload_def Let_def split_beta split: sum.splits)

text \<open>A publish that answers \<open>persisted\<close>, or that is held up while it is durable, has built a commit.\<close>

lemma publish_Done:
  assumes "publish_delta_inner E q s = (s', Done x)" "pr_persisted x"
  obtains t d c where "same_ledger s t" "publish_commit E q s = Some c"
    "commit_and_broadcast E d c t = (s', Done ())" "pr_commit_id x = cm_commit_id c"
proof -
  obtain d where d: "pd_delta q = Some d"
    using assms by (auto simp: publish_delta_inner_def split: option.splits)
  let ?d = "normalize_delta E d"
  have perm: "ensure_channel_permission (sd_agent_id d) (channel_write (sd_channel d)) s = Inr ()"
    using assms(1) d
    by (cases "ensure_channel_permission (sd_agent_id d) (channel_write (sd_channel d)) s")
      (simp_all add: publish_delta_inner_def)
  obtain t p report refs where t: "prepare_payload E (sd_payload ?d) s = (t, Done (p, report, refs))"
    using assms(1) d perm by (auto simp: publish_delta_inner_def Let_def after_Done)
  let ?e = "?d\<lparr>sd_payload := Some p\<rparr>"
  have same: "same_ledger s t" using prepare_payload_ledger(1) [of s E "sd_payload ?d"] t by simp
  have durable: "sd_durable d \<or> cf_persist_ephemeral (app_config t)"
  proof (rule ccontr)
    assume "\<not> ?thesis"
    then show False using assms d perm t by (auto simp: publish_delta_inner_def Let_def after_Done)
  qed
  obtain parents where parents: "resolve_parents E ?e (pd_parent_commit_ids q) t = Inr parents"
    using assms(1) d perm t durable
    by (auto simp: publish_delta_inner_def Let_def after_Done split: sum.splits)
  let ?c = "from_delta E ?e parents p report (publish_extras (pd_objective q) refs)"
  have c: "publish_commit E q s = Some ?c"
    using d perm t parents durable by (auto simp: publish_commit_def Let_def)
  have "commit_and_broadcast E ?e ?c t = (s', Done ()) \<and> pr_commit_id x = cm_commit_id ?c"
    using assms(1) d perm t durable parents
    by (auto simp: publish_delta_inner_def Let_def after_Done)
  with same c show ?thesis using that by blast
qed

lemma publish_Blocked:
  assumes "publish_delta_inner E q s = (s', Blocked)" "pd_delta q = Some d" "sd_durable d"
  obtains t e c where "same_ledger s t" "publish_commit E q s = Some c"
    "commit_and_broadcast E e c t = (s', Blocked)"
proof -
  let ?d = "normalize_delta E d"
  have perm: "ensure_channel_permission (sd_agent_id d) (channel_write (sd_channel d)) s = Inr ()"
    using assms(1,2)
    by (cases "ensure_channel_permission (sd_agent_id d) (channel_write (sd_channel d)) s")
      (simp_all add: publish_delta_inner_def)
  obtain t p report refs where t: "prepare_payload E (sd_payload ?d) s = (t, Done (p, report, refs))"
    using assms(1,2) perm
    by (auto simp: publish_delta_inner_def Let_def after_Blocked prepare_payload_not_Blocked)
  let ?e = "?d\<lparr>sd_payload := Some p\<rparr>"
  have same: "same_ledger s t" using prepare_payload_ledger(1) [of s E "sd_payload ?d"] t by simp
  obtain parents where parents: "resolve_parents E ?e (pd_parent_commit_ids q) t = Inr parents"
    using assms perm t by (auto simp: publish_delta_inner_def Let_def after_Blocked split: sum.splits)
  let ?c = "from_delta E ?e parents p report (publish_extras (pd_objective q) refs)"
  have c: "publish_commit E q s = Some ?c"
    using assms(2,3) perm t parents by (simp add: publish_commit_def Let_def)
  have "commit_and_broadcast E ?e ?c t = (s', Blocked)"
    using assms perm t parents by (auto simp: publish_delta_inner_def Let_def after_Blocked)
  with same c show ?thesis using that by blast
qed

lemma checkpoint_Done:
  assumes "checkpoint_inner E q s = (s', Done x)"
  obtains t d c where "same_ledger s t" "checkpoint_commit E q s = Some c"
    "commit_and_broadcast E d c t = (s', Done ())" "cr_commit_id x = cm_commit_id c"
proof -
  let ?d = "normalize_delta E (checkpoint_delta E q)"
  have perm: "ensure_channel_permission (cq_agent_id q) (channel_checkpoint (cq_channel q)) s = Inr ()"
    using assms
    by (cases "ensure_channel_permission (cq_agent_id q) (channel_checkpoint (cq_channel q)) s")
      (simp_all add: checkpoint_inner_def)
  obtain t p report refs where t: "prepare_payload E (sd_payload ?d) s = (t, Done (p, report, refs))"
    using assms(1) perm by (auto simp: checkpoint_inner_def Let_def after_Done)
  let ?e = "?d\<lparr>sd_payload := Some p\<rparr>"
  have same: "same_ledger s t" using prepare_payload_ledger(1) [of s E "sd_payload ?d"] t by simp
  obtain parents where parents: "resolve_parents E ?e (cq_parent_commit_ids q) t = Inr parents"
    using assms(1) perm t by (auto simp: checkpoint_inner_def Let_def after_Done split: sum.splits)
  let ?c = "from_delta E ?e parents p report (checkpoint_extras q (refs @ cq_artifact_refs q))"
  have c: "checkpoint_commit E q s = Some ?c"
    using perm t parents by (simp add: checkpoint_commit_def Let_def)
  have "commit_and_broadcast E ?e ?c t = (s', Done ()) \<and> cr_commit_id x = cm_commit_id ?c"
    using assms(1) perm t parents by (auto simp: checkpoint_inner_def Let_def after_Done)
  with same c show ?thesis using that by blast
qed

section \<open>lib.rs: run\<close>

text \<open>
  \<open>run\<close> up to the state that the three servers share; \<open>database\<close> is what the data directory holds.
  The sockets are bound and the servers spawned after it.
\<close>

definition start :: "env \<Rightarrow> bool \<Rightarrow> config \<Rightarrow> sqlite_store \<Rightarrow> app_state result" where
  "start E rocksdb config database =
     and_then (prepare E rocksdb config) (\<lambda>_.
     and_then (validate_network_policy config) (\<lambda>_.
     and_then (with_context ''open SQLite store'' (reopen E config database)) (\<lambda>store.
     and_then (rebuild_index E store) (\<lambda>dag.
       Inr (new_state config (new_bus new_metrics) store dag)))))"

lemma with_context_Inr [simp]: "with_context m r = Inr x \<longleftrightarrow> r = Inr x"
  by (cases r) (simp_all add: with_context_def)

lemma reopen_keeps:
  "reopen E config db = Inr st \<Longrightarrow> st_commits st = st_commits db \<and> st_heads st = st_heads db"
  by (auto simp: reopen_def result_simps)

text \<open>An index that could be rebuilt is the graph of the store.\<close>

lemma rebuild_index_sound:
  assumes "rebuild_index E st = Inr d" "store_ok E st"
  shows "dag_ok d" "set (keys (dg_parents d)) = dom (history E st)"
    "history E st i = Some c \<Longrightarrow> map_of (dg_parents d) i = Some (cm_parent_commit_ids c)"
proof -
  obtain cs where cs: "list_all_commits E st = Inr cs" and d: "from_commits cs = Inr d"
    using assms(1) by (auto simp: rebuild_index_def result_simps)
  have "db_fault E DbListCommits = None"
    using cs by (auto simp: list_all_commits_def list_commits_def guard_fault_def result_simps split: option.splits)
  with assms(2) obtain cs' where "list_all_commits E st = Inr cs'" "distinct (map cm_commit_id cs')"
      "\<forall>c. c \<in> set cs' \<longleftrightarrow> history E st (cm_commit_id c) = Some c"
    by (rule list_all_sorted)
  with cs have u: "distinct (map cm_commit_id cs)"
    and h: "\<forall>c. c \<in> set cs \<longleftrightarrow> history E st (cm_commit_id c) = Some c" by simp_all
  have rows: "dg_parents d = map parent_row cs" using from_commits_rows [OF u] d by blast
  have ids: "cm_commit_id c = i" if "history E st i = Some c" for i c
    using history_id [OF assms(2) that] by simp
  show "dag_ok d" using d append_all_ok [of dag_default cs d] by (simp add: from_commits_def)
  have "set (keys (dg_parents d)) = cm_commit_id ` set cs" by (simp add: rows parent_row_def image_image)
  also have "\<dots> = dom (history E st)"
  proof
    show "cm_commit_id ` set cs \<subseteq> dom (history E st)" using h by blast
    show "dom (history E st) \<subseteq> cm_commit_id ` set cs"
    proof
      fix i assume "i \<in> dom (history E st)"
      then obtain c where c: "history E st i = Some c" by blast
      then have "c \<in> set cs" using h ids [OF c] by simp
      with ids [OF c] show "i \<in> cm_commit_id ` set cs" by blast
    qed
  qed
  finally show "set (keys (dg_parents d)) = dom (history E st)" .
  show "map_of (dg_parents d) i = Some (cm_parent_commit_ids c)" if c: "history E st i = Some c"
  proof (rule map_of_is_SomeI)
    show "distinct (keys (dg_parents d))" using u by (simp add: rows parent_row_def o_def)
    have "c \<in> set cs" using h c ids [OF c] by simp
    then show "(i, cm_parent_commit_ids c) \<in> set (dg_parents d)"
      using ids [OF c] by (auto simp: rows parent_row_def image_iff)
  qed
qed

text \<open>The ledger, the configuration and the bus of a state that serves requests.\<close>

definition daemon_ok :: "env \<Rightarrow> app_state \<Rightarrow> bool" where
  "daemon_ok E0 s \<longleftrightarrow> ledger_ok E0 (ledger_of s) \<and> app_ok (app_config s) s"

definition daemon_exact :: "env \<Rightarrow> app_state \<Rightarrow> bool" where
  "daemon_exact E0 s \<longleftrightarrow> daemon_ok E0 s \<and> ledger_complete E0 (ledger_of s)"

lemma start_state:
  assumes "start E rocksdb config db = Inr s"
  shows "app_ok config s" "app_config s = config" "app_grants s = []"
    "st_commits (app_store s) = st_commits db" "st_heads (app_store s) = st_heads db"
    "rebuild_index E (app_store s) = Inr (app_dag s)"
proof -
  obtain st d where st: "reopen E config db = Inr st" "rebuild_index E st = Inr d"
    and s: "s = new_state config (new_bus new_metrics) st d"
    using assms by (auto simp: start_def result_simps)
  show "app_ok config s" using app_ok_initial [of config]
    by (simp add: s app_ok_def initial_state_def new_state_def)
  show "app_config s = config" "app_grants s = []" "rebuild_index E (app_store s) = Inr (app_dag s)"
    using st(2) by (simp_all add: s new_state_def)
  show "st_commits (app_store s) = st_commits db" "st_heads (app_store s) = st_heads db"
    using reopen_keeps [OF st(1)] by (simp_all add: s new_state_def)
qed

lemma start_history:
  "start E rocksdb config db = Inr s \<Longrightarrow> history E0 (app_store s) = history E0 db"
  by (intro history_cong start_state(4))

lemma start_exact:
  assumes "start E rocksdb config (app_store s) = Inr s'" "same_codec E E0" "daemon_ok E0 s"
  shows "daemon_exact E0 s'"
proof -
  have st: "store_ok E0 (app_store s')"
    using assms(3) start_state(4,5) [OF assms(1)]
    by (simp add: daemon_ok_def ledger_ok_def ledger_of_def store_ok_def)
  then have stE: "store_ok E (app_store s')" by (simp add: codec_cong(3) [OF assms(2)])
  have h: "history E (app_store s') = history E0 (app_store s')"
    by (simp add: codec_cong(2) [OF assms(2)])
  note sound = rebuild_index_sound [OF start_state(6) [OF assms(1)] stE, unfolded h]
  have "hd_commit_id x \<in> dom (history E0 (app_store s'))"
    if "map_of (st_heads (app_store s')) k = Some x" for k x
    using that assms(3) start_state(5) [OF assms(1)] start_history [OF assms(1), of E0]
    by (simp add: daemon_ok_def ledger_ok_def ledger_of_def)
  then have "ledger_ok E0 (ledger_of s')" using st sound by (simp add: ledger_ok_def ledger_of_def)
  then show ?thesis using sound(2) start_state(1,2) [OF assms(1)]
    by (simp add: daemon_exact_def daemon_ok_def ledger_complete_def ledger_of_def)
qed

section \<open>The life of a daemon\<close>

text \<open>
  A daemon serves requests; when it has stopped, it starts again, under any configuration, on the
  database it left.
\<close>

inductive daemon_step :: "env \<Rightarrow> bool \<Rightarrow> app_state \<Rightarrow> app_state \<Rightarrow> bool" for E0 lossy where
  request: "app_step E0 lossy s s' \<Longrightarrow> daemon_step E0 lossy s s'"
| restart: "same_codec E E0 \<Longrightarrow> start E rocksdb config (app_store s) = Inr s' \<Longrightarrow>
    daemon_step E0 lossy s s'"

abbreviation daemon_steps :: "env \<Rightarrow> bool \<Rightarrow> app_state \<Rightarrow> app_state \<Rightarrow> bool" where
  "daemon_steps E0 lossy \<equiv> (daemon_step E0 lossy)\<^sup>*\<^sup>*"

lemma ledger_of_initial [simp]: "ledger_of (initial_state config) = empty_ledger config"
  by (simp add: ledger_of_def initial_state_def new_state_def empty_ledger_def)

lemma daemon_exact_initial: "daemon_exact E0 (initial_state config)"
  using app_ok_initial [of config]
  by (simp add: daemon_exact_def daemon_ok_def) (simp add: app_ok_def)

lemma app_step_daemon_ok:
  assumes "app_step E0 lossy s s'" "daemon_ok E0 s"
  shows "daemon_ok E0 s'"
proof -
  have "ledger_ok E0 (ledger_of s')"
    using ledger_steps_ok [OF app_step_ledger [OF assms(1)]] assms(2) by (simp add: daemon_ok_def)
  moreover have "app_ok (app_config s) s'" using app_step_ok assms by (simp add: daemon_ok_def)
  ultimately show ?thesis by (simp add: daemon_ok_def) (simp add: app_ok_def)
qed

lemma daemon_step_exact:
  assumes "daemon_step E0 False s s'" "daemon_exact E0 s"
  shows "daemon_exact E0 s'"
  using assms(1)
proof cases
  case request
  have ok: "ledger_ok E0 (ledger_of s)" "ledger_complete E0 (ledger_of s)" "daemon_ok E0 s"
    using assms(2) by (simp_all add: daemon_exact_def daemon_ok_def)
  have "ledger_complete E0 (ledger_of s')"
    using app_step_ledger [OF request ok(1)] ok(1,2) by (rule ledger_steps_complete)
  then show ?thesis using app_step_daemon_ok [OF request ok(3)] by (simp add: daemon_exact_def)
next
  case (restart E rocksdb config)
  then show ?thesis using assms(2) start_exact by (simp add: daemon_exact_def)
qed

lemma daemon_step_grows:
  assumes "daemon_step E0 lossy s s'" "daemon_ok E0 s"
  shows "history E0 (app_store s) \<subseteq>\<^sub>m history E0 (app_store s')"
  using assms(1)
proof cases
  case request
  have "ledger_ok E0 (ledger_of s)" using assms(2) by (simp add: daemon_ok_def)
  from ledger_steps_append_only [OF app_step_ledger [OF request this] this]
  show ?thesis by (simp add: ledger_of_def)
next
  case (restart E rocksdb config)
  then show ?thesis using start_history by simp
qed

interpretation life: growing "daemon_step E0 lossy" "daemon_ok E0" "\<lambda>s. history E0 (app_store s)"
  for E0 lossy
  by unfold_locales
    (auto intro: app_step_daemon_ok daemon_step_grows start_exact [unfolded daemon_exact_def, THEN conjunct1]
      elim: daemon_step.cases)

interpretation exact_life: preserved "daemon_step E0 False" "daemon_exact E0" for E0
  by unfold_locales (rule daemon_step_exact)

section \<open>Reading what was written\<close>

lemma get_commit_inner_Inr:
  assumes "store_ok E (app_store s)"
  shows "get_commit_inner E i s = Inr c \<longleftrightarrow>
    db_fault E (DbGetCommit i) = None \<and> history E (app_store s) i = Some c"
  by (auto simp: get_commit_inner_def get_commit_ok [OF assms] result_simps split: option.splits)

lemma reached:
  assumes "daemon_steps E0 lossy (initial_state config) s" "same_codec E E0"
  shows "daemon_ok E0 s" "store_ok E (app_store s)" "history E = history E0"
proof -
  show ok: "daemon_ok E0 s"
    using life.steps_inv [OF assms(1)] daemon_exact_initial by (simp add: daemon_exact_def)
  show "store_ok E (app_store s)"
    using ok by (simp add: daemon_ok_def ledger_ok_def ledger_of_def codec_cong(3) [OF assms(2)])
  show "history E = history E0" by (rule codec_cong(2) [OF assms(2)])
qed

text \<open>What a reader sees of a commit that is stored and at its head.\<close>

lemma persisted_read:
  assumes "persisted E0 c s" "same_codec E E0" "store_ok E (app_store s)"
    and "db_fault E (DbGetCommit (cm_commit_id c)) = None" "db_fault E DbGetHead = None"
  shows "get_commit_inner E (cm_commit_id c) s = Inr c"
    "get_head E (app_store s) (cm_run_id c) (cm_thread_id c) (cm_agent_id c) (cm_channel c)
       = Inr (Some (cm_commit_id c))"
  using assms by (simp_all add: get_commit_inner_Inr persisted_def get_head_def codec_cong(2) [OF assms(2)])

lemma commit_and_broadcast_read:
  assumes "daemon_steps E0 lossy (initial_state config) s" "same_codec E E0" "lossy \<or> reliable E"
    and "admissible E0 (app_store s) c" "same_ledger s t"
    and "commit_and_broadcast E d c t = (s', r)" "r = Done () \<or> r = Blocked"
  shows "persisted E0 c s'" "\<And>E'. same_codec E' E0 \<Longrightarrow> store_ok E' (app_store s')"
proof -
  note ok = reached [OF assms(1,2)]
  have l: "ledger_ok E0 (ledger_of t)"
    using ok(1) by (simp add: daemon_ok_def ledger_ok_same_ledger [OF assms(5)])
  have a: "admissible E0 (app_store t) c"
    using assms(4) by (simp add: admissible_same_ledger [OF assms(5)])
  have t: "store_ok E (app_store t)"
    using l by (simp add: ledger_ok_def ledger_of_def codec_cong(3) [OF assms(2)])
  have "admissible E (app_store t) c"
    using a by (simp add: admissible_def codec_cong(1,2) [OF assms(2)])
  then have "persisted E c s'"
    using commit_and_broadcast_persisted [OF assms(6,7) t] by blast
  then show "persisted E0 c s'" by (simp add: persisted_def codec_cong(2) [OF assms(2)])
  have "ledger_steps E0 lossy (ledger_of t) (ledger_of s')"
    using commit_and_broadcast_steps [OF assms(2,3) a l, of d] assms(6) by simp
  then have "ledger_ok E0 (ledger_of s')" using l by (rule ledger_steps_ok)
  then show "store_ok E' (app_store s')" if "same_codec E' E0" for E'
    by (simp add: ledger_ok_def ledger_of_def codec_cong(3) [OF that])
qed

lemma start_resumes:
  assumes "daemon_exact E0 s" "same_codec E E0"
    and "prepare E rocksdb config' = Inr ()" "validate_network_policy config' = Inr ()"
    and "db_fault E DbOpen = None" "db_fault E DbListCommits = None"
    and "query_order_grows (history E0 (app_store s))"
  obtains s' where "start E rocksdb config' (app_store s) = Inr s'"
    "st_commits (app_store s') = st_commits (app_store s)" "st_heads (app_store s') = st_heads (app_store s)"
    "\<forall>i. map_of (dg_parents (app_dag s')) i = map_of (dg_parents (app_dag s)) i" "app_grants s' = []"
proof -
  obtain st where st: "reopen E config' (app_store s) = Inr st"
    "st_commits st = st_commits (app_store s)" "st_heads st = st_heads (app_store s)"
    using assms(5) by (auto simp: reopen_def guard_fault_def)
  have l: "ledger_ok E0 \<lparr>lg_dag = app_dag s, lg_store = st\<rparr>"
      "ledger_complete E0 \<lparr>lg_dag = app_dag s, lg_store = st\<rparr>"
    using assms(1) st(2,3) history_cong [of st "app_store s" E0]
    by (simp_all add: daemon_exact_def daemon_ok_def ledger_ok_def ledger_complete_def ledger_of_def store_ok_def)
  have h: "history E st = history E0 (app_store s)"
    using history_cong [OF st(2)] codec_cong(2) [OF assms(2)] by simp
  have "ledger_ok E \<lparr>lg_dag = app_dag s, lg_store = st\<rparr>" "ledger_complete E \<lparr>lg_dag = app_dag s, lg_store = st\<rparr>"
    using l by (simp_all add: ledger_ok_def ledger_complete_def codec_cong(2,3) [OF assms(2)])
  then obtain d where d: "rebuild_index E st = Inr d"
      "\<forall>i. map_of (dg_parents d) i = map_of (dg_parents (app_dag s)) i"
    using rebuild_index_ok [of E "\<lparr>lg_dag = app_dag s, lg_store = st\<rparr>"] assms(6,7) h by auto
  have started: "start E rocksdb config' (app_store s) = Inr (new_state config' (new_bus new_metrics) st d)"
    using assms(3,4) st(1) d(1) by (simp add: start_def with_context_def)
  show ?thesis using st(2,3) d(2) by (intro that [OF started]) (simp_all add: new_state_def)
qed

end
