(* ===== verification/Concurrent.thy ===== *)
theory Concurrent
  imports Tasks Daemon
begin

text \<open>
  Requests that run interleaved: what holds in every state that any interleaving reaches, that each
  request ends or waits, and that the requests of \<open>System\<close>, which run as one step, are among the
  interleavings.
\<close>

section \<open>What a task relies on\<close>

definition index_named :: "(string \<Rightarrow> commit option) \<Rightarrow> dag_index \<Rightarrow> bool" where
  "index_named named d \<longleftrightarrow> (\<forall>i ps. map_of (dg_parents d) i = Some ps \<longrightarrow>
     (\<exists>c. named i = Some c \<and> cm_parent_commit_ids c = ps))"

definition requests_ok :: "env \<Rightarrow> (string \<Rightarrow> commit option) \<Rightarrow> app_state \<Rightarrow> bool" where
  "requests_ok E0 named s \<longleftrightarrow> ledger_ok E0 (ledger_of s) \<and> index_named named (app_dag s)
     \<and> history E0 (app_store s) \<subseteq>\<^sub>m named"

definition known_ids :: "app_state \<Rightarrow> string set" where
  "known_ids s = set (keys (dg_parents (app_dag s)))"

definition stored_ids :: "env \<Rightarrow> app_state \<Rightarrow> string set" where
  "stored_ids E0 s = dom (history E0 (app_store s))"

definition only_grows :: "env \<Rightarrow> app_state \<Rightarrow> app_state \<Rightarrow> bool" where
  "only_grows E0 s s' \<longleftrightarrow> known_ids s \<subseteq> known_ids s'
     \<and> history E0 (app_store s) \<subseteq>\<^sub>m history E0 (app_store s')"

text \<open>The commit that an answer speaks of.\<close>

fun reply_commit :: "reply \<Rightarrow> string option" where
  "reply_commit (PublishReply r) = (if pr_persisted r then Some (pr_commit_id r) else None)"
| "reply_commit (CheckpointReply r) = Some (cr_commit_id r)"
| "reply_commit (ForkReply r) = Some (fr_head_commit_id r)"
| "reply_commit (RollbackReply r) = Some (rbr_new_head_commit_id r)"

definition reply_ok :: "env \<Rightarrow> app_state \<Rightarrow> reply \<Rightarrow> bool" where
  "reply_ok E0 s r \<longleftrightarrow> (\<forall>i. reply_commit r = Some i \<longrightarrow> i \<in> stored_ids E0 s)"

fun after_ok :: "env \<Rightarrow> app_state \<Rightarrow> after_cast \<Rightarrow> bool" where
  "after_ok E0 s (ThenInspect c r) = reply_ok E0 s r"
| "after_ok E0 s (ThenReply r) = reply_ok E0 s r"

fun stage_ok :: "env \<Rightarrow> app_state \<Rightarrow> commit \<Rightarrow> persist_stage \<Rightarrow> bool" where
  "stage_ok E0 s c CheckParents = True"
| "stage_ok E0 s c InsertParents = (cm_commit_id c \<noteq> [] \<and> set (cm_parent_commit_ids c) \<subseteq> known_ids s
     \<and> cm_commit_id c \<notin> set (cm_parent_commit_ids c))"
| "stage_ok E0 s c InsertChildren = (cm_commit_id c \<in> known_ids s)"
| "stage_ok E0 s c AppendCommit = (cm_commit_id c \<in> known_ids s)"
| "stage_ok E0 s c SetHead = (cm_commit_id c \<in> stored_ids E0 s)"

definition trusted :: "env \<Rightarrow> bool \<Rightarrow> env \<Rightarrow> bool" where
  "trusted E0 lossy E \<longleftrightarrow> same_codec E E0 \<and> (lossy \<or> reliable E)"

fun task_ok :: "env \<Rightarrow> bool \<Rightarrow> (string \<Rightarrow> commit option) \<Rightarrow> app_state \<Rightarrow> task \<Rightarrow> bool" where
  "task_ok E0 lossy named s (Begin E op) = trusted E0 lossy E"
| "task_ok E0 lossy named s (Prepare E op delta) = trusted E0 lossy E"
| "task_ok E0 lossy named s (Resolve E op delta p report refs) = trusted E0 lossy E"
| "task_ok E0 lossy named s (Persist st E delta c r) = (trusted E0 lossy E \<and> known E0 named c
     \<and> reply_commit r = Some (cm_commit_id c) \<and> stage_ok E0 s c st)"
| "task_ok E0 lossy named s (Cast st E delta i k) = after_ok E0 s k"
| "task_ok E0 lossy named s (Send E delta i targets k) = after_ok E0 s k"
| "task_ok E0 lossy named s (AwaitRoom E delta i q targets k) = after_ok E0 s k"
| "task_ok E0 lossy named s (CountDelta E durable k) = after_ok E0 s k"
| "task_ok E0 lossy named s (InspectLoop E c r) = reply_ok E0 s r"
| "task_ok E0 lossy named s (StoreWarning E w r) = reply_ok E0 s r"
| "task_ok E0 lossy named s (MoveFork E q c) =
     (cm_commit_id c = fq_source_commit_id q \<and> cm_commit_id c \<in> stored_ids E0 s)"
| "task_ok E0 lossy named s (RecordFork E q c) =
     (cm_commit_id c = fq_source_commit_id q \<and> cm_commit_id c \<in> stored_ids E0 s)"
| "task_ok E0 lossy named s (ReadHead E q) = trusted E0 lossy E"
| "task_ok E0 lossy named s (ReadTarget E q head) = trusted E0 lossy E"
| "task_ok E0 lossy named s (ReadAncestry E q head target) =
     (cm_commit_id target = rb_target_commit_id q \<and> cm_commit_id target \<in> stored_ids E0 s)"
| "task_ok E0 lossy named s (CollectWarnings E q head target ids ws) =
     (cm_commit_id target = rb_target_commit_id q \<and> cm_commit_id target \<in> stored_ids E0 s)"
| "task_ok E0 lossy named s (MoveHead E q head target ws) =
     (cm_commit_id target = rb_target_commit_id q \<and> cm_commit_id target \<in> stored_ids E0 s)"
| "task_ok E0 lossy named s (RecordRollback E q head target ws) =
     (cm_commit_id target = rb_target_commit_id q \<and> cm_commit_id target \<in> stored_ids E0 s)"
| "task_ok E0 lossy named s (LogRollback E q head target ws) =
     (cm_commit_id target = rb_target_commit_id q \<and> cm_commit_id target \<in> stored_ids E0 s)"
| "task_ok E0 lossy named s (Finished r) = (\<forall>x. r = Done x \<longrightarrow> reply_ok E0 s x)"
| "task_ok E0 lossy named s Dropped = True"

section \<open>Stability\<close>

lemma only_grows_refl: "only_grows E0 s s"
  by (simp add: only_grows_def)

lemma only_grows_trans: "only_grows E0 s s' \<Longrightarrow> only_grows E0 s' s'' \<Longrightarrow> only_grows E0 s s''"
  by (auto simp: only_grows_def intro: map_le_trans)

lemma stored_grows: "only_grows E0 s s' \<Longrightarrow> i \<in> stored_ids E0 s \<Longrightarrow> i \<in> stored_ids E0 s'"
  unfolding only_grows_def stored_ids_def using map_le_implies_dom_le by blast

lemma known_grows: "only_grows E0 s s' \<Longrightarrow> i \<in> known_ids s \<Longrightarrow> i \<in> known_ids s'"
  by (auto simp: only_grows_def)

lemma reply_ok_stable: "only_grows E0 s s' \<Longrightarrow> reply_ok E0 s r \<Longrightarrow> reply_ok E0 s' r"
  by (auto simp: reply_ok_def intro: stored_grows)

lemma after_ok_stable: "only_grows E0 s s' \<Longrightarrow> after_ok E0 s k \<Longrightarrow> after_ok E0 s' k"
  by (cases k) (auto intro: reply_ok_stable)

lemma stage_ok_stable: "only_grows E0 s s' \<Longrightarrow> stage_ok E0 s c st \<Longrightarrow> stage_ok E0 s' c st"
  by (cases st) (auto intro: stored_grows known_grows)

lemma task_ok_stable: "only_grows E0 s s' \<Longrightarrow> task_ok E0 lossy named s t \<Longrightarrow> task_ok E0 lossy named s' t"
  by (cases t) (auto intro: stored_grows reply_ok_stable after_ok_stable stage_ok_stable)

section \<open>What a step keeps\<close>

lemma requests_ok_same_ledger:
  assumes "same_ledger s s'"
  shows "requests_ok E0 named s' = requests_ok E0 named s" "only_grows E0 s s'"
    "known_ids s' = known_ids s" "stored_ids E0 s' = stored_ids E0 s"
proof -
  have "history E0 (app_store s') = history E0 (app_store s)"
    using assms by (intro history_cong) (simp add: same_ledger_def)
  then show "requests_ok E0 named s' = requests_ok E0 named s" "only_grows E0 s s'"
      "known_ids s' = known_ids s" "stored_ids E0 s' = stored_ids E0 s"
    using assms ledger_ok_same_ledger [OF assms]
    by (simp_all add: requests_ok_def only_grows_def same_ledger_def known_ids_def stored_ids_def)
qed

lemma requests_ok_ledger_step:
  assumes "requests_ok E0 named s" "ledger_step E0 True (ledger_of s) (ledger_of s')"
    "app_dag s' = app_dag s" "st_commits (app_store s') = st_commits (app_store s)"
  shows "requests_ok E0 named s' \<and> only_grows E0 s s'"
proof -
  have "history E0 (app_store s') = history E0 (app_store s)" using assms(4) by (rule history_cong)
  moreover have "ledger_ok E0 (ledger_of s')"
    using assms(1,2) by (auto simp: requests_ok_def intro: ledger_step_ok)
  ultimately show ?thesis using assms(1,3) by (simp add: requests_ok_def only_grows_def known_ids_def)
qed

lemma requests_ok_set_head:
  assumes "requests_ok E0 named s" "set_head E r t a ch i (app_store s) = Inr st" "i \<in> stored_ids E0 s"
  shows "requests_ok E0 named (s\<lparr>app_store := st\<rparr>) \<and> only_grows E0 s (s\<lparr>app_store := st\<rparr>)
    \<and> stored_ids E0 (s\<lparr>app_store := st\<rparr>) = stored_ids E0 s"
proof -
  have "ledger_step E0 True (ledger_of s) (ledger_of (s\<lparr>app_store := st\<rparr>))"
    using ledger_step.head [of E r t a ch i "ledger_of s" st] assms(2,3)
    by (simp add: ledger_of_def stored_ids_def)
  then show ?thesis
    using requests_ok_ledger_step [OF assms(1)] history_cong [OF set_head_commits [OF assms(2)]]
      set_head_commits [OF assms(2)] by (simp add: stored_ids_def)
qed

lemma requests_ok_append_event:
  assumes "requests_ok E0 named s" "append_event E ty p (app_store s) = (st, u)"
  shows "requests_ok E0 named (s\<lparr>app_store := st\<rparr>) \<and> only_grows E0 s (s\<lparr>app_store := st\<rparr>)
    \<and> stored_ids E0 (s\<lparr>app_store := st\<rparr>) = stored_ids E0 s"
proof -
  have "same_ledger s (s\<lparr>app_store := st\<rparr>)"
    using append_event_keeps [of E ty p "app_store s"] assms(2) by (simp add: same_ledger_def)
  then show ?thesis using requests_ok_same_ledger assms(1) by blast
qed

lemma requests_ok_rollback_event:
  assumes "requests_ok E0 named s"
    "append_audit E ty p (app_store s) = Inr st \<or> append_rollback E p (app_store s) = Inr st"
  shows "requests_ok E0 named (s\<lparr>app_store := st\<rparr>) \<and> only_grows E0 s (s\<lparr>app_store := st\<rparr>)
    \<and> stored_ids E0 (s\<lparr>app_store := st\<rparr>) = stored_ids E0 s"
proof -
  have "same_ledger s (s\<lparr>app_store := st\<rparr>)"
    using append_event_parts_keep assms(2) by (fastforce simp: same_ledger_def)
  then show ?thesis using requests_ok_same_ledger assms(1) by blast
qed

section \<open>The index and the store\<close>

lemma append_by_stages:
  "append d c = and_then (check_append d c) (\<lambda>_. Inr (insert_children c (insert_parents c d)))"
  by (cases d) (simp add: append_def check_append_def insert_children_def insert_parents_def)

lemma index_named_lookup:
  assumes "index_named named d" "named (cm_commit_id c) = Some c" "cm_commit_id c \<in> set (keys (dg_parents d))"
  shows "map_of (dg_parents d) (cm_commit_id c) = Some (cm_parent_commit_ids c)"
proof -
  obtain ps where ps: "map_of (dg_parents d) (cm_commit_id c) = Some ps" using assms(3) in_keys_map_of by metis
  then obtain b where "named (cm_commit_id c) = Some b" "cm_parent_commit_ids b = ps"
    using assms(1) unfolding index_named_def by blast
  with ps assms(2) show ?thesis by simp
qed

lemma check_append_known:
  "check_append (app_dag s) c = Inr u \<Longrightarrow> cm_commit_id c \<noteq> [] \<and> set (cm_parent_commit_ids c) \<subseteq> known_ids s
     \<and> cm_commit_id c \<notin> set (cm_parent_commit_ids c)"
  by (auto simp: check_append_def check_parents_iff known_ids_def simp del: set_map split: if_splits)

text \<open>
  A commit goes into an index that may have changed since the check: its parents are still known,
  and it has no descendants, unless it is there already with the same parents.
\<close>

lemma insert_parents_ok:
  assumes d: "dag_ok d" "index_named named d" and c: "named (cm_commit_id c) = Some c"
    and ps: "cm_commit_id c \<noteq> []" "set (cm_parent_commit_ids c) \<subseteq> set (keys (dg_parents d))"
      "cm_commit_id c \<notin> set (cm_parent_commit_ids c)"
  shows "dag_ok (insert_parents c d)"
proof (cases "cm_commit_id c \<in> set (keys (dg_parents d))")
  case True
  with d(2) c have same: "map_of (dg_parents d) (cm_commit_id c) = Some (cm_parent_commit_ids c)"
    by (rule index_named_lookup)
  then have "edges (dg_parents (insert_parents c d)) = edges (dg_parents d)"
    by (auto simp: edges_def insert_parents_def table_simps split: if_splits)
  moreover have "set (keys (dg_parents (insert_parents c d))) = set (keys (dg_parents d))"
    using True by (auto simp: insert_parents_def set_keys_update simp del: set_map)
  ultimately show ?thesis
    using d(1) by (simp add: dag_ok_def insert_parents_def del: set_map)
next
  case False
  let ?R = "edges (dg_parents d)"
  have target: "y \<in> set (keys (dg_parents d))" if "(x, y) \<in> ?R" for x y
    using d(1) that unfolding dag_ok_def by blast
  have "(p, cm_commit_id c) \<notin> ?R\<^sup>*" if "p \<in> set (cm_parent_commit_ids c)" for p
    using that ps(3) False target by (auto elim: rtranclE)
  then have "acyclic (edges (dg_parents (insert_parents c d)))"
    using d(1) by (simp add: insert_parents_def acyclic_update dag_ok_def)
  moreover have "edges (dg_parents (insert_parents c d)) `` UNIV \<subseteq> set (keys (dg_parents (insert_parents c d)))"
    using ps(2) target unfolding insert_parents_def
    by (auto simp: edges_update set_keys_update simp del: set_map split: if_splits)
  ultimately show ?thesis
    using d(1) ps(1) by (simp add: dag_ok_def insert_parents_def set_keys_update del: set_map)
qed

lemma requests_ok_insert_parents:
  assumes s: "requests_ok E0 named s" and c: "known E0 named c" and st: "stage_ok E0 s c InsertParents"
  defines "s' \<equiv> s\<lparr>app_dag := insert_parents c (app_dag s)\<rparr>"
  shows "requests_ok E0 named s' \<and> only_grows E0 s s' \<and> cm_commit_id c \<in> known_ids s'"
proof -
  have n: "named (cm_commit_id c) = Some c" using c by (simp add: known_def)
  have lk: "map_of (dg_parents (insert_parents c (app_dag s))) i =
      (if i = cm_commit_id c then Some (cm_parent_commit_ids c) else map_of (dg_parents (app_dag s)) i)" for i
    by (simp add: insert_parents_def table_simps)
  have "dag_ok (insert_parents c (app_dag s))"
    using s n st by (intro insert_parents_ok [where named = named])
      (simp_all add: requests_ok_def ledger_ok_def ledger_of_def known_ids_def)
  moreover have "index_named named (insert_parents c (app_dag s))"
    using s n by (auto simp: index_named_def lk requests_ok_def)
  moreover have "map_of (dg_parents (insert_parents c (app_dag s))) i = Some (cm_parent_commit_ids x)"
    if "history E0 (app_store s) i = Some x" for i x
  proof -
    have "named i = Some x" using s that by (auto simp: requests_ok_def map_le_def dom_def)
    then show ?thesis using s that n by (auto simp: lk requests_ok_def ledger_ok_def ledger_of_def)
  qed
  ultimately have "requests_ok E0 named s'"
    using s by (auto simp: s'_def requests_ok_def ledger_ok_def ledger_of_def)
  moreover have "known_ids s' = insert (cm_commit_id c) (known_ids s)"
    by (simp add: s'_def known_ids_def insert_parents_def set_keys_update del: set_map)
  ultimately show ?thesis by (auto simp: only_grows_def s'_def)
qed

lemma requests_ok_children:
  fixes c :: commit
  assumes "requests_ok E0 named s"
  defines "s' \<equiv> s\<lparr>app_dag := insert_children c (app_dag s)\<rparr>"
  shows "requests_ok E0 named s' \<and> only_grows E0 s s' \<and> known_ids s' = known_ids s"
  using assms(1) by (simp add: s'_def insert_children_def requests_ok_def ledger_ok_def ledger_of_def
      dag_ok_def index_named_def only_grows_def known_ids_def)

lemma known_admissible: "requests_ok E0 named s \<Longrightarrow> known E0 named c \<Longrightarrow> admissible E0 (app_store s) c"
  by (auto simp: admissible_def known_def requests_ok_def map_le_def dom_def)

lemma requests_ok_append_commit:
  assumes s: "requests_ok E0 named s" and c: "known E0 named c" "cm_commit_id c \<in> known_ids s"
    and E: "same_codec E E0" "append_commit E c (app_store s) = Inr st"
  defines "s' \<equiv> s\<lparr>app_store := st\<rparr>"
  shows "requests_ok E0 named s' \<and> only_grows E0 s s' \<and> cm_commit_id c \<in> stored_ids E0 s'"
proof -
  have ok: "store_ok E0 (app_store s)" using s by (simp add: requests_ok_def ledger_ok_def ledger_of_def)
  note h = persist_history [OF ok E(1) known_admissible [OF s c(1)] E(2)]
  have n: "named (cm_commit_id c) = Some c" using c(1) by (simp add: known_def)
  have "map_of (dg_parents (app_dag s)) (cm_commit_id c) = Some (cm_parent_commit_ids c)"
    using s n c(2) unfolding requests_ok_def known_ids_def by (blast intro: index_named_lookup)
  then have "ledger_ok E0 (ledger_of s')"
    using s h by (auto simp: s'_def requests_ok_def ledger_ok_def ledger_of_def)
  moreover have "history E0 st \<subseteq>\<^sub>m named" using s n by (auto simp: h(2) requests_ok_def map_le_def)
  moreover have "history E0 (app_store s) \<subseteq>\<^sub>m history E0 st"
    using known_admissible [OF s c(1)] by (auto simp: h(2) map_le_def admissible_def)
  ultimately show ?thesis
    using s by (simp add: s'_def requests_ok_def only_grows_def known_ids_def stored_ids_def h(2))
qed

section \<open>Every action keeps the invariant\<close>

lemma get_commit_stored:
  assumes "requests_ok E0 named s" "same_codec E E0" "get_commit E (app_store s) i = Inr (Some c)"
  shows "cm_commit_id c = i \<and> i \<in> stored_ids E0 s"
proof -
  have st: "store_ok E (app_store s)"
    using assms(1,2) by (simp add: codec_cong requests_ok_def ledger_ok_def ledger_of_def)
  have "history E (app_store s) i = Some c" using get_commit_history [OF st assms(3)] by simp
  moreover from history_id [OF st this] have "cm_commit_id c = i" by simp
  ultimately show ?thesis using assms(2) by (auto simp: codec_cong stored_ids_def)
qed

lemma op_reply_commit [simp]: "reply_commit (op_reply op delta i report) = Some i"
  by (cases op) (simp_all add: op_reply_def)

lemma requests_ok_bus [simp]:
  "requests_ok E0 named (s\<lparr>app_bus := b\<rparr>) = requests_ok E0 named s"
  "only_grows E0 s (s\<lparr>app_bus := b\<rparr>)" "stored_ids E0 (s\<lparr>app_bus := b\<rparr>) = stored_ids E0 s"
  "known_ids (s\<lparr>app_bus := b\<rparr>) = known_ids s"
  by (rule requests_ok_same_ledger, simp add: same_ledger_def)+

lemma requests_ok_metric [simp]:
  "requests_ok E0 named (count_metric f s) = requests_ok E0 named s"
  "stored_ids E0 (count_metric f s) = stored_ids E0 s" "known_ids (count_metric f s) = known_ids s"
  "only_grows E0 s (count_metric f s')= only_grows E0 s s'"
  by (simp_all add: count_metric_def only_grows_def)

abbreviation kept :: "env \<Rightarrow> bool \<Rightarrow> (string \<Rightarrow> commit option) \<Rightarrow> app_state \<Rightarrow> app_state \<times> task \<Rightarrow> bool" where
  "kept E0 lossy named s p \<equiv> requests_ok E0 named (fst p) \<and> only_grows E0 s (fst p)
     \<and> task_ok E0 lossy named (fst p) (snd p)"

lemma kept_begin:
  assumes "requests_ok E0 named s" "trusted E0 lossy E"
  shows "task_ok E0 lossy named s (begin_op E op s)"
  using assms get_commit_stored [of E0 named s E]
  by (auto simp: begin_op_def begin_publish_def begin_checkpoint_def begin_fork_def begin_rollback_def
      Let_def trusted_def split: write_op.splits option.splits sum.splits)

lemma kept_prepare:
  assumes "requests_ok E0 named s" "trusted E0 lossy E"
  shows "kept E0 lossy named s (prepare_step E op delta s)"
proof -
  obtain t r where t: "prepare_payload E (sd_payload delta) s = (t, r)"
    by (cases "prepare_payload E (sd_payload delta) s")
  have "same_ledger s t" using prepare_payload_ledger(1) [of s E "sd_payload delta"] t by simp
  note keep = requests_ok_same_ledger [OF this]
  show ?thesis using assms keep(1) [of E0 named] keep(2) [of E0]
    by (cases r) (auto simp: prepare_step_def t Let_def ephemeral_reply_def reply_ok_def split: write_op.splits)
qed

lemma kept_resolve:
  assumes "trusted E0 lossy E" "\<And>c. commit_at (resolve_step E op delta p report refs s) = Some c \<Longrightarrow> known E0 named c"
  shows "task_ok E0 lossy named s (resolve_step E op delta p report refs s)"
  using assms by (simp add: resolve_step_def Let_def split: sum.splits)

lemma kept_persist:
  assumes "requests_ok E0 named s" "task_ok E0 lossy named s (Persist st E delta c r)"
  shows "kept E0 lossy named s (persist_step st E delta c r s)"
proof (cases st)
  case CheckParents
  then show ?thesis using assms check_append_known [of s c]
    by (auto simp: only_grows_refl split: sum.splits)
next
  case InsertParents
  then show ?thesis using assms requests_ok_insert_parents [of E0 named s c] by simp
next
  case InsertChildren
  then show ?thesis using assms requests_ok_children [of E0 named s c] by simp
next
  case AppendCommit
  then show ?thesis using assms requests_ok_append_commit [of E0 named s c E]
    by (auto simp: only_grows_refl trusted_def split: sum.splits)
next
  case SetHead
  then show ?thesis using assms
      requests_ok_set_head [of E0 named s E "cm_run_id c" "cm_thread_id c" "cm_agent_id c" "cm_channel c"]
    by (auto simp: only_grows_refl reply_ok_def split: sum.splits)
qed

lemma kept_bus:
  assumes "requests_ok E0 named s" "\<And>b t. f (app_bus s) = (b, t) \<Longrightarrow> task_ok E0 lossy named s t"
  shows "kept E0 lossy named s (on_bus f s)"
proof -
  obtain b t where f: "f (app_bus s) = (b, t)" by (cases "f (app_bus s)")
  have "task_ok E0 lossy named (s\<lparr>app_bus := b\<rparr>) t"
    using assms(2) [OF f] by (rule task_ok_stable [rotated]) simp
  then show ?thesis using assms(1) f by (simp add: on_bus_def)
qed

lemma kept_cast: "after_ok E0 s k \<Longrightarrow> cast_step st E delta i k b = (b', t) \<Longrightarrow> task_ok E0 lossy named s t"
  by (cases st) auto

lemma kept_send: "after_ok E0 s k \<Longrightarrow> send_step E delta i targets k b = (b', t) \<Longrightarrow> task_ok E0 lossy named s t"
  by (cases "(E, delta, i, targets, k, b)" rule: send_step.cases)
    (auto split: try_send_result.splits if_splits)

lemma kept_count: "after_ok E0 s k \<Longrightarrow> count_step E durable k b = (b', t) \<Longrightarrow> task_ok E0 lossy named s t"
  by (auto simp: count_step_def split: after_cast.splits)

lemma kept_await:
  "after_ok E0 s k \<Longrightarrow> await_step E delta i q targets k b = Some (b', t) \<Longrightarrow> task_ok E0 lossy named s t"
  by (auto simp: await_step_def split: try_send_result.splits)

lemma kept_inspect:
  assumes "requests_ok E0 named s" "reply_ok E0 s r"
  shows "kept E0 lossy named s (inspect_step E c r s)"
proof -
  have "same_ledger s (s\<lparr>app_detector := d\<rparr>)" for d by (simp add: same_ledger_def)
  note keep = requests_ok_same_ledger [OF this]
  show ?thesis using assms keep(1) [of E0 named] keep(2) [of E0] keep(4) [of E0]
    by (auto simp: inspect_step_def Let_def only_grows_refl reply_ok_def split: prod.splits option.splits)
qed

lemma kept_store_warning:
  assumes "requests_ok E0 named s" "reply_ok E0 s r"
  shows "kept E0 lossy named s (store_warning_step E w r s)"
proof (cases "append_loop_warning E w (app_store s)")
  case (Inl e)
  then show ?thesis using assms by (simp add: store_warning_step_def only_grows_refl)
next
  case (Inr st)
  then have "same_ledger s (s\<lparr>app_store := st\<rparr>)"
    using append_loop_warning_keeps by (simp add: same_ledger_def)
  note keep = requests_ok_same_ledger [OF this]
  show ?thesis using assms Inr keep(1) [of E0 named] keep(2,4) [of E0]
    by (auto simp: store_warning_step_def reply_ok_def split: sum.splits)
qed

lemma kept_heads:
  assumes "requests_ok E0 named s"
  shows "task_ok E0 lossy named s (MoveFork E q c) \<Longrightarrow> kept E0 lossy named s (move_fork_step E q c s)"
    "task_ok E0 lossy named s (MoveHead E rq head target ws) \<Longrightarrow>
       kept E0 lossy named s (move_head_step E rq head target ws s)"
  using requests_ok_set_head [OF assms]
  by (auto simp: move_fork_step_def move_head_step_def only_grows_refl assms split: sum.splits)

lemma kept_records:
  assumes "requests_ok E0 named s"
  shows "task_ok E0 lossy named s (RecordFork E q c) \<Longrightarrow> kept E0 lossy named s (record_fork_step E q c s)"
    "task_ok E0 lossy named s (RecordRollback E rq head target ws) \<Longrightarrow>
       kept E0 lossy named s (record_rollback_step E rq head target ws s)"
    "task_ok E0 lossy named s (LogRollback E rq head target ws) \<Longrightarrow>
       kept E0 lossy named s (log_rollback_step E rq head target ws s)"
  using requests_ok_append_event [OF assms] requests_ok_rollback_event [OF assms disjI1]
    requests_ok_rollback_event [OF assms disjI2]
  by (auto simp: record_fork_step_def record_rollback_step_def log_rollback_step_def reply_ok_def only_grows_refl
      assms split: sum.splits prod.splits)

lemma kept_reads:
  assumes "requests_ok E0 named s" "trusted E0 lossy E"
  shows "task_ok E0 lossy named s (read_head_step E q s)" "task_ok E0 lossy named s (read_target_step E q head s)"
  using assms get_commit_stored [of E0 named s E]
  by (auto simp: read_head_step_def read_target_step_def trusted_def split: sum.splits option.splits)

lemma kept_warnings:
  "task_ok E0 lossy named s (CollectWarnings E q head target ids ws) \<Longrightarrow>
   task_ok E0 lossy named s (warnings_step E q head target ids ws s)"
  by (cases "(E, q, head, target, ids, ws, s)" rule: warnings_step.cases) (auto split: sum.splits option.splits)

lemma advance_kept:
  assumes "requests_ok E0 named s" "task_ok E0 lossy named s t" "advance t s = Some (s', t')"
    and "\<And>c. commit_at t' = Some c \<Longrightarrow> known E0 named c"
  shows "kept E0 lossy named s (s', t')"
  using assms
proof (cases t)
  case (Resolve E op delta p report refs)
  then show ?thesis using assms kept_resolve [of E0 lossy E op delta p report refs s named]
    by (auto simp: only_grows_refl)
next
  case (AwaitRoom E delta i q targets k)
  then obtain b where "await_step E delta i q targets k (app_bus s) = Some (b, t')" "s' = s\<lparr>app_bus := b\<rparr>"
    using assms(3) by auto
  with assms(1,2) AwaitRoom kept_await task_ok_stable [of E0 s s' lossy named t'] show ?thesis by auto
next
  case (Begin E op)
  then show ?thesis using assms kept_begin [of E0 named s lossy E op] by (auto simp: only_grows_refl)
next
  case (Prepare E op delta)
  then show ?thesis using assms kept_prepare [of E0 named s lossy E op delta] by (auto simp: only_grows_refl)
next
  case (Persist st E delta c r)
  then show ?thesis using assms kept_persist [of E0 named s lossy st E delta c r] by (auto simp: only_grows_refl)
next
  case (Cast st E delta i k)
  then show ?thesis using assms kept_bus [of E0 named s "cast_step st E delta i k" lossy] kept_cast [of E0 s k st E delta i] by (auto simp: only_grows_refl)
next
  case (Send E delta i targets k)
  then show ?thesis using assms kept_bus [of E0 named s "send_step E delta i targets k" lossy] kept_send [of E0 s k E delta i targets] by (auto simp: only_grows_refl)
next
  case (CountDelta E durable k)
  then show ?thesis using assms kept_bus [of E0 named s "count_step E durable k" lossy] kept_count [of E0 s k E durable] by (auto simp: only_grows_refl)
next
  case (InspectLoop E c r)
  then show ?thesis using assms kept_inspect [of E0 named s r E c lossy] by (auto simp: only_grows_refl)
next
  case (StoreWarning E w r)
  then show ?thesis using assms kept_store_warning [of E0 named s r E w lossy] by (auto simp: only_grows_refl)
next
  case (MoveFork E q c)
  then show ?thesis using assms kept_heads(1) [of E0 named s lossy E q c] by (auto simp: only_grows_refl)
next
  case (RecordFork E q c)
  then show ?thesis using assms kept_records(1) [of E0 named s lossy E q c] by (auto simp: only_grows_refl)
next
  case (ReadHead E q)
  then show ?thesis using assms kept_reads(1) [of E0 named s lossy E q] by (auto simp: only_grows_refl)
next
  case (ReadTarget E q head)
  then show ?thesis using assms kept_reads(2) [of E0 named s lossy E q head] by (auto simp: only_grows_refl)
next
  case (CollectWarnings E q head target ids ws)
  then show ?thesis using assms kept_warnings [of E0 lossy named s E q head target ids ws] by (auto simp: only_grows_refl)
next
  case (MoveHead E q head target ws)
  then show ?thesis using assms kept_heads(2) [of E0 named s lossy E q head target ws] by (auto simp: only_grows_refl)
next
  case (RecordRollback E q head target ws)
  then show ?thesis using assms kept_records(2) [of E0 named s lossy E q head target ws] by (auto simp: only_grows_refl)
next
  case (LogRollback E q head target ws)
  then show ?thesis using assms kept_records(3) [of E0 named s lossy E q head target ws] by (auto simp: only_grows_refl)
qed (use assms in \<open>auto simp: only_grows_refl\<close>)

lemma other_act_ledger: "other_act s s' \<Longrightarrow> same_ledger s s'"
proof (induction rule: other_act.induct)
  case (register s E q)
  show ?case using ledger_of_register [of E q s] by (simp add: same_ledger_def ledger_of_def)
next
  case (subscribe s E q)
  show ?case by (simp add: same_ledger_def grpc_subscribe_def split_beta Let_def)
next
  case (heartbeat s E h)
  show ?case by (simp add: same_ledger_def stream_event_fst)
qed (simp_all add: same_ledger_def)

lemma task_act_kept:
  assumes "task_act E0 named s t s' t'" "requests_ok E0 named s" "task_ok E0 lossy named s t"
  shows "requests_ok E0 named s' \<and> task_ok E0 lossy named s' t' \<and> only_grows E0 s s'"
  using assms
proof (cases rule: task_act.cases)
  case advance
  then show ?thesis using advance_kept [OF assms(2,3)] by simp
next
  case drop
  then show ?thesis using assms(2) by (simp add: only_grows_refl)
qed

interpretation requests: interleaving "task_act E0 named" other_act "arrives E0 lossy"
  "requests_ok E0 named" "task_ok E0 lossy named" "only_grows E0" for E0 lossy named
proof (unfold_locales, goal_cases)
  case (1 s t s' t')
  then show ?case by (rule task_act_kept)
next
  case (2 s s')
  then show ?case using requests_ok_same_ledger [OF other_act_ledger] by blast
next
  case (3 t s)
  then show ?case by (auto simp: trusted_def elim: arrives.cases)
next
  case (4 s s' t)
  then show ?case by (rule task_ok_stable)
next
  case (5 s)
  show ?case by (rule only_grows_refl)
next
  case (6 s s' s'')
  then show ?case by (rule only_grows_trans)
qed

lemma requests_ok_initial: "requests_ok E0 named (initial_state config)"
proof -
  have "ledger_of (initial_state config) = empty_ledger config"
    by (simp add: ledger_of_def initial_state_def new_state_def empty_ledger_def)
  moreover have "history E0 (app_store (initial_state config)) = Map.empty"
    by (simp add: initial_state_def new_state_def history_def open_store_def fun_eq_iff)
  ultimately show ?thesis
    by (simp add: requests_ok_def index_named_def initial_state_def new_state_def dag_default_def)
qed

lemma requests_reach:
  assumes "requests_steps E0 lossy named (initial_state config, []) p"
  shows "requests_ok E0 named (fst p)" "t \<in> set (snd p) \<Longrightarrow> task_ok E0 lossy named (fst p) t"
  using requests.steps_inv [OF assms] requests_ok_initial by (auto simp: requests.pool_ok_def)

section \<open>The index is exact when no write is under way\<close>

text \<open>The commits that a task has put into the index and not yet into the store.\<close>

fun in_flight :: "task \<Rightarrow> string set" where
  "in_flight (Persist InsertChildren E delta c r) = {cm_commit_id c}"
| "in_flight (Persist AppendCommit E delta c r) = {cm_commit_id c}"
| "in_flight t = {}"

definition index_exact :: "env \<Rightarrow> app_state \<times> task list \<Rightarrow> bool" where
  "index_exact E0 p \<longleftrightarrow> known_ids (fst p) \<subseteq> stored_ids E0 (fst p) \<union> (\<Union>t\<in>set (snd p). in_flight t)"

lemma advance_elsewhere:
  assumes "advance t s = Some (s', t')" "\<And>st E delta c r. t \<noteq> Persist st E delta c r"
  shows "app_dag s' = app_dag s \<and> in_flight t = {} \<and> in_flight t' = {}"
proof (cases t)
  case (Prepare E op delta)
  obtain u v where p: "prepare_payload E (sd_payload delta) s = (u, v)"
    by (cases "prepare_payload E (sd_payload delta) s")
  then have "app_dag u = app_dag s"
    using prepare_payload_ledger(1) [of s E "sd_payload delta"] by (simp add: same_ledger_def)
  then show ?thesis using assms Prepare p
    by (cases v) (auto simp: prepare_step_def Let_def split: write_op.splits if_splits)
next
  case (Send E delta i targets k)
  then show ?thesis using assms
    by (cases "(E, delta, i, targets, k, app_bus s)" rule: send_step.cases)
      (auto simp: on_bus_def split: try_send_result.splits if_splits)
next
  case (Cast st E delta i k)
  then show ?thesis using assms by (cases st) (auto simp: on_bus_def)
next
  case (CollectWarnings E q head target ids ws)
  then show ?thesis using assms
    by (cases "(E, q, head, target, ids, ws, s)" rule: warnings_step.cases)
      (auto split: if_splits sum.splits option.splits)
qed (use assms in \<open>auto simp: begin_op_def begin_publish_def begin_checkpoint_def begin_fork_def
    begin_rollback_def resolve_step_def Let_def on_bus_def await_step_def count_step_def inspect_step_def
    store_warning_step_def move_fork_step_def record_fork_step_def read_head_step_def read_target_step_def
    move_head_step_def record_rollback_step_def log_rollback_step_def
    split: write_op.splits option.splits sum.splits if_splits try_send_result.splits after_cast.splits prod.splits\<close>)

lemma persist_in_flight:
  assumes "persist_step st E delta c r s = (s', t')" "reliable E" "requests_ok E0 named s"
    "task_ok E0 lossy named s (Persist st E delta c r)"
  shows "known_ids s' \<subseteq> known_ids s \<union> in_flight t'"
    "in_flight (Persist st E delta c r) \<subseteq> in_flight t' \<union> stored_ids E0 s'"
proof -
  have append: "st = AppendCommit \<Longrightarrow> cm_commit_id c \<in> stored_ids E0 s' \<and> app_dag s' = app_dag s"
    using requests_ok_append_commit [OF assms(3), of c E] assms(1,4) reliable_append [OF assms(2), of c "app_store s"]
    by (auto simp: trusted_def)
  show "known_ids s' \<subseteq> known_ids s \<union> in_flight t'"
    using assms(1,4) append
    by (cases st) (auto simp: known_ids_def insert_parents_def insert_children_def set_keys_update simp del: set_map
        split: sum.splits)
  show "in_flight (Persist st E delta c r) \<subseteq> in_flight t' \<union> stored_ids E0 s'"
    using assms(1) append by (cases st) auto
qed

lemma flight_sets:
  "K' \<subseteq> K \<union> F' \<Longrightarrow> F \<subseteq> F' \<union> S' \<Longrightarrow> K \<subseteq> S \<union> A \<Longrightarrow> S \<subseteq> S' \<Longrightarrow> A \<subseteq> B \<union> F \<Longrightarrow> F' \<subseteq> B
   \<Longrightarrow> K' \<subseteq> S' \<union> B"
  by blast

lemma pool_exact:
  assumes "requests_step E0 False named p p'" "requests.pool_ok E0 named False p" "index_exact E0 p"
  shows "index_exact E0 p'"
proof -
  have grows: "stored_ids E0 (fst p) \<subseteq> stored_ids E0 (fst p')"
    using requests.pool_step_ok [OF assms(1,2)] by (auto intro: stored_grows)
  from assms(1) show ?thesis
  proof cases
    case (act i ts s s' t')
    let ?t = "ts ! i"
    have ok: "requests_ok E0 named s" "task_ok E0 False named s ?t"
      using assms(2) act by (simp_all add: requests.pool_ok_def)
    have step: "known_ids s' \<subseteq> known_ids s \<union> in_flight t' \<and> in_flight ?t \<subseteq> in_flight t' \<union> stored_ids E0 s'"
      using act(4)
    proof (cases rule: task_act.cases)
      case advance
      show ?thesis
      proof (cases "\<exists>st E delta c r. ?t = Persist st E delta c r")
        case True
        then obtain st E delta c r where t: "?t = Persist st E delta c r" by blast
        have p: "persist_step st E delta c r s = (s', t')" using advance(1) t by simp
        have "reliable E" using ok(2) t by (simp add: trusted_def)
        then show ?thesis using persist_in_flight [OF p _ ok(1) ok(2) [unfolded t]] t by simp
      next
        case False
        then have "app_dag s' = app_dag s \<and> in_flight ?t = {} \<and> in_flight t' = {}"
          using advance(1) by (intro advance_elsewhere) auto
        then show ?thesis by (simp add: known_ids_def)
      qed
    qed simp
    have "t' \<in> set (ts[i := t'])" using act(3) by (rule set_update_memI)
    have left: "u \<in> set (ts[i := t']) \<or> u = ?t" if "u \<in> set ts" for u
      using that act(3) by (auto simp: in_set_conv_nth) (metis nth_list_update_eq nth_list_update_neq)
    have "known_ids s' \<subseteq> stored_ids E0 s' \<union> (\<Union>u\<in>set (ts[i := t']). in_flight u)"
    proof (rule flight_sets [of _ "known_ids s" "in_flight t'" "in_flight ?t"])
      show "known_ids s \<subseteq> stored_ids E0 s \<union> (\<Union>u\<in>set ts. in_flight u)" "stored_ids E0 s \<subseteq> stored_ids E0 s'"
        using assms(3) grows act(1,2) by (simp_all add: index_exact_def)
      show "(\<Union>u\<in>set ts. in_flight u) \<subseteq> (\<Union>u\<in>set (ts[i := t']). in_flight u) \<union> in_flight ?t"
        using left by blast
      show "in_flight t' \<subseteq> (\<Union>u\<in>set (ts[i := t']). in_flight u)"
        using \<open>t' \<in> set (ts[i := t'])\<close> by blast
    qed (use step in simp_all)
    then show ?thesis using act(2) by (simp add: index_exact_def)
  next
    case (env s s' ts)
    then have "known_ids s' = known_ids s" using requests_ok_same_ledger(3) [OF other_act_ledger] by blast
    then show ?thesis using assms(3) grows env(1,2) by (auto simp: index_exact_def)
  next
    case (arrive t s ts)
    then show ?thesis using assms(3) by (auto simp: index_exact_def)
  qed
qed

text \<open>
  Claim C4. Whatever the interleaving: while any number of publishes, checkpoints, forks and
  rollbacks run at the same time, lock by lock, with agents registering, subscribers coming, reading
  and leaving, and clients hanging up, the index stays acyclic and records every stored commit with
  its parents, every head is a stored commit, and whatever commit an answered request names as
  persisted, as the head of a fork or as the target of a rollback, is stored. If no write of a
  commit fails and no request is between index and store, the index knows no commit that is not
  stored. Ids are assumed to stand for one commit each (\<open>named\<close>), as content addressing has it.
\<close>

theorem interleaved_requests_ok:
  assumes "requests_steps E0 lossy named (initial_state config, []) (s, ts)"
  shows "ledger_ok E0 (ledger_of s)
     \<and> (\<forall>r i. Finished (Done r) \<in> set ts \<and> reply_commit r = Some i \<longrightarrow> i \<in> stored_ids E0 s)
     \<and> (\<not> lossy \<and> (\<forall>t\<in>set ts. in_flight t = {}) \<longrightarrow> known_ids s = stored_ids E0 s)"
proof (intro conjI impI allI)
  note ok = requests_reach [OF assms]
  show l: "ledger_ok E0 (ledger_of s)" using ok(1) by (simp add: requests_ok_def)
  show "i \<in> stored_ids E0 s" if "Finished (Done r) \<in> set ts \<and> reply_commit r = Some i" for r i
    using ok(2) [of "Finished (Done r)"] that by (simp add: reply_ok_def)
  assume quiet: "\<not> lossy \<and> (\<forall>t\<in>set ts. in_flight t = {})"
  have "requests.pool_ok E0 named False p \<and> index_exact E0 p"
    if "requests_steps E0 False named (initial_state config, []) p" for p
    using that
  proof (induction rule: rtranclp_induct)
    case base
    then show ?case using requests_ok_initial
      by (simp add: requests.pool_ok_def index_exact_def known_ids_def initial_state_def new_state_def dag_default_def)
  next
    case (step y z)
    then show ?case using requests.pool_step_ok pool_exact by blast
  qed
  then have "index_exact E0 (s, ts)" using assms quiet by simp
  moreover have "stored_ids E0 s \<subseteq> known_ids s"
  proof
    fix i assume "i \<in> stored_ids E0 s"
    then obtain c where "history E0 (app_store s) i = Some c" by (auto simp: stored_ids_def)
    with l have "map_of (dg_parents (app_dag s)) i = Some (cm_parent_commit_ids c)"
      by (simp add: ledger_ok_def ledger_of_def)
    then show "i \<in> known_ids s" unfolding known_ids_def by (rule map_of_Some_in_keys)
  qed
  ultimately show "known_ids s = stored_ids E0 s" using quiet by (auto simp: index_exact_def)
qed

end
