(* ===== verification/Progress.thy ===== *)
theory Progress
  imports Concurrent
begin

text \<open>
  Requests end: the steps of a task are bounded whatever runs in between, so under a fair scheduler
  every task comes to its end, unless it waits for a full queue again and again.
\<close>

section \<open>A bound on the steps of a task\<close>

fun cast_rank :: "after_cast \<Rightarrow> nat" where
  "cast_rank (ThenInspect c r) = 20"
| "cast_rank (ThenReply r) = 4"

fun stage_rank :: "persist_stage \<Rightarrow> nat" where
  "stage_rank CheckParents = 37"
| "stage_rank InsertParents = 36"
| "stage_rank InsertChildren = 35"
| "stage_rank AppendCommit = 34"
| "stage_rank SetHead = 33"

fun rank :: "task \<Rightarrow> nat \<times> nat" where
  "rank (Begin E op) = (40, 0)"
| "rank (Prepare E op delta) = (39, 0)"
| "rank (Resolve E op delta p report refs) = (38, 0)"
| "rank (Persist st E delta c r) = (stage_rank st, 0)"
| "rank (Cast UpdateChannel E delta i k) = (cast_rank k + 6, 0)"
| "rank (Cast PushRecent E delta i k) = (cast_rank k + 5, 0)"
| "rank (Cast CollectTargets E delta i k) = (cast_rank k + 4, 0)"
| "rank (Send E delta i targets k) = (cast_rank k + 3, 2 * length targets)"
| "rank (AwaitRoom E delta i q targets k) = (cast_rank k + 3, 2 * length targets + 1)"
| "rank (CountDelta E durable k) = (cast_rank k + 2, 0)"
| "rank (InspectLoop E c r) = (21, 0)"
| "rank (StoreWarning E w r) = (20, 0)"
| "rank (ReadHead E q) = (16, 0)"
| "rank (ReadTarget E q head) = (15, 0)"
| "rank (ReadAncestry E q head target) = (14, 0)"
| "rank (CollectWarnings E q head target ids ws) = (13, length ids)"
| "rank (MoveHead E q head target ws) = (12, 0)"
| "rank (RecordRollback E q head target ws) = (11, 0)"
| "rank (MoveFork E q c) = (3, 0)"
| "rank (RecordFork E q c) = (2, 0)"
| "rank (LogRollback E q head target ws) = (10, 0)"
| "rank (Finished r) = (0, 0)"
| "rank Dropped = (0, 0)"

abbreviation lower :: "((nat \<times> nat) \<times> (nat \<times> nat)) set" where
  "lower \<equiv> less_than <*lex*> less_than"

lemma cast_rank_pos [simp]: "0 < cast_rank k" "cast_rank k \<le> 20"
  by (cases k; simp)+

lemma advance_lower: "advance t s = Some (s', t') \<Longrightarrow> (rank t', rank t) \<in> lower"
proof (cases t)
  case (Begin E op)
  assume "advance t s = Some (s', t')"
  then show ?thesis using Begin
    by (auto simp: begin_op_def begin_publish_def begin_checkpoint_def begin_fork_def begin_rollback_def Let_def
      split: write_op.splits option.splits sum.splits if_splits)
next
  case (Prepare E op delta)
  assume "advance t s = Some (s', t')"
  then show ?thesis using Prepare
    by (auto simp: prepare_step_def Let_def split: prod.splits outcome.splits write_op.splits if_splits)
next
  case (Persist st E delta c r)
  assume "advance t s = Some (s', t')"
  then show ?thesis using Persist by (cases st) (auto split: sum.splits)
next
  case (Cast st E delta i k)
  assume "advance t s = Some (s', t')"
  then show ?thesis using Cast by (cases st) (auto simp: on_bus_def)
next
  case (Send E delta i targets k)
  assume "advance t s = Some (s', t')"
  then show ?thesis using Send
    by (cases "(E, delta, i, targets, k, app_bus s)" rule: send_step.cases)
      (auto simp: on_bus_def split: try_send_result.splits if_splits)
next
  case (CountDelta E durable k)
  assume "advance t s = Some (s', t')"
  then show ?thesis using CountDelta by (cases k) (auto simp: on_bus_def count_step_def)
next
  case (CollectWarnings E q head target ids ws)
  assume "advance t s = Some (s', t')"
  then show ?thesis using CollectWarnings
    by (cases "(E, q, head, target, ids, ws, s)" rule: warnings_step.cases)
      (auto split: if_splits sum.splits option.splits)
qed (auto simp: resolve_step_def Let_def await_step_def inspect_step_def store_warning_step_def
    move_fork_step_def record_fork_step_def read_head_step_def read_target_step_def
    move_head_step_def record_rollback_step_def log_rollback_step_def
    split: option.splits sum.splits if_splits try_send_result.splits prod.splits)

lemma task_act_lower: "task_act E0 named s t s' t' \<Longrightarrow> (rank t', rank t) \<in> lower"
  by (auto elim!: task_act.cases intro: advance_lower)

text \<open>A task that has no step is at its end or waits for room in a queue.\<close>

fun ended :: "task \<Rightarrow> bool" where
  "ended (Finished r) = True"
| "ended Dropped = True"
| "ended t = False"

definition waits :: "task \<Rightarrow> app_state \<Rightarrow> bool" where
  "waits t s \<longleftrightarrow> (\<exists>E delta i q targets k. t = AwaitRoom E delta i q targets k
     \<and> try_send (queue_of (app_bus s) q) = SendFull)"

lemma waits_await [simp]:
  "waits (AwaitRoom E delta i q targets k) s \<longleftrightarrow> try_send (queue_of (app_bus s) q) = SendFull"
  by (simp add: waits_def)

lemma advance_None_iff: "advance t s = None \<longleftrightarrow> ended t \<or> waits t s"
  by (cases t) (auto simp: waits_def await_step_def split: try_send_result.splits)

section \<open>Under a fair scheduler\<close>

lemma wf_settles:
  assumes "wf r" "\<And>n. f (Suc n) = f n \<or> (g (f (Suc n)), g (f n)) \<in> r"
  shows "\<exists>N. \<forall>n\<ge>N. f n = f N"
proof -
  obtain x where x: "x \<in> range (g \<circ> f)" "\<And>y. (y, x) \<in> r \<Longrightarrow> y \<notin> range (g \<circ> f)"
    using wfE_min [OF assms(1), of "g (f 0)" "range (g \<circ> f)"] by auto
  then obtain N where N: "x = g (f N)" by auto
  have "f n = f N" if "N \<le> n" for n
    using that
  proof (induction rule: dec_induct)
    case (step n)
    have "g (f (Suc n)) \<in> range (g \<circ> f)" by auto
    then have "(g (f (Suc n)), g (f n)) \<notin> r" using x(2) N step by metis
    then show ?case using assms(2) [of n] step by auto
  qed simp
  then show ?thesis by blast
qed

lemma pool_step_task:
  assumes "requests_step E0 lossy named p p'" "i < length (snd p)"
  shows "i < length (snd p') \<and> (snd p' ! i = snd p ! i \<or> (rank (snd p' ! i), rank (snd p ! i)) \<in> lower)"
  using assms(1)
proof cases
  case (act j ts s s' t')
  then show ?thesis using assms(2) task_act_lower [OF act(4)] by (cases "i = j") auto
qed (use assms(2) in \<open>auto simp: nth_append\<close>)

text \<open>
  Claim C8. No request runs for ever: in any infinite execution, with any requests arriving and any
  interleaving that does not forget a request that could go on, every request comes to rest, either
  at its end, answered or failed or dropped because its client left, or waiting for room in the
  queue of one subscriber, and then that queue is full again and again.
\<close>

theorem requests_end:
  assumes "\<forall>n. requests_step E0 lossy named (\<sigma> n) (\<sigma> (Suc n))" "i < length (snd (\<sigma> 0))"
    and fair: "\<forall>n. (\<forall>m\<ge>n. advance (snd (\<sigma> m) ! i) (fst (\<sigma> m)) \<noteq> None) \<longrightarrow>
      (\<exists>m\<ge>n. snd (\<sigma> (Suc m)) ! i \<noteq> snd (\<sigma> m) ! i)"
  shows "\<exists>N t. (\<forall>n\<ge>N. snd (\<sigma> n) ! i = t)
     \<and> (ended t \<or> (\<exists>E delta c q targets k. t = AwaitRoom E delta c q targets k
          \<and> (\<forall>n. \<exists>m\<ge>n. try_send (queue_of (app_bus (fst (\<sigma> m))) q) = SendFull)))"
proof -
  have len: "i < length (snd (\<sigma> n))" for n
    using assms(1,2) pool_step_task by (induction n) blast+
  have "snd (\<sigma> (Suc n)) ! i = snd (\<sigma> n) ! i \<or> (rank (snd (\<sigma> (Suc n)) ! i), rank (snd (\<sigma> n) ! i)) \<in> lower" for n
    using pool_step_task [OF assms(1) [rule_format] len] by blast
  then have "\<exists>N. \<forall>n\<ge>N. snd (\<sigma> n) ! i = snd (\<sigma> N) ! i"
    by (intro wf_settles [of lower _ rank] wf_lex_prod wf_less_than)
  then obtain N t where N: "\<And>n. N \<le> n \<Longrightarrow> snd (\<sigma> n) ! i = t" by metis
  have stuck: "\<exists>m\<ge>n. advance t (fst (\<sigma> m)) = None" for n
  proof (rule ccontr)
    assume "\<not> ?thesis"
    then have "\<forall>m\<ge>max n N. advance (snd (\<sigma> m) ! i) (fst (\<sigma> m)) \<noteq> None" using N by auto
    then obtain m where "m \<ge> max n N" "snd (\<sigma> (Suc m)) ! i \<noteq> snd (\<sigma> m) ! i" using fair by blast
    then show False using N [of m] N [of "Suc m"] by simp
  qed
  show ?thesis
  proof (cases "ended t")
    case True
    then show ?thesis using N by blast
  next
    case False
    then have w: "\<exists>m\<ge>n. waits t (fst (\<sigma> m))" for n using stuck advance_None_iff by metis
    from w [of 0] obtain E delta c q targets k where aw: "t = AwaitRoom E delta c q targets k"
      unfolding waits_def by blast
    have "\<forall>n. \<exists>m\<ge>n. try_send (queue_of (app_bus (fst (\<sigma> m))) q) = SendFull"
      using w unfolding aw waits_await by blast
    with N aw show ?thesis by blast
  qed
qed

end
