(* ===== verification/Simulation.thy ===== *)
theory Simulation
  imports Progress
begin

text \<open>
  The requests of \<open>Service\<close>, each run as one step, are interleavings: the one in which nothing else
  runs, apart from a receiver that does what the environment of the request says of it.
\<close>

section \<open>Queues\<close>

text \<open>A queue never holds more than its capacity.\<close>

definition queue_ok :: "queue \<Rightarrow> bool" where
  "queue_ok x \<longleftrightarrow> 0 < qu_capacity x \<and> length (qu_items x) \<le> qu_capacity x"

definition queues_ok :: "bus \<Rightarrow> bool" where
  "queues_ok b \<longleftrightarrow> (\<forall>q. queue_ok (queue_of b q))"

lemma queues_ok_set_queue: "queues_ok b \<Longrightarrow> queue_ok x \<Longrightarrow> queues_ok (set_queue q x b)"
  by (simp add: queues_ok_def queue_of_set_queue)

lemma queues_ok_cong: "bus_queues b' = bus_queues b \<Longrightarrow> queues_ok b' = queues_ok b"
  by (simp add: queues_ok_def queue_of_def)

lemma queues_ok_metrics [simp]: "queues_ok (b\<lparr>bus_metrics := m\<rparr>) = queues_ok b"
  by (rule queues_ok_cong) simp

lemma update_update: "AList.update k v (AList.update k w t) = AList.update k v t"
  by (induction t) auto

lemma set_queue_twice [simp]: "set_queue q y (set_queue q x b) = set_queue q y b"
  by (simp add: set_queue_def update_update)

lemma drain:
  "n \<noteq> 0 \<Longrightarrow> (\<And>s. other_act s (s\<lparr>app_bus := take_message q (app_bus s)\<rparr>)) \<Longrightarrow>
   (other_act ^^ n) s (s\<lparr>app_bus := set_queue q ((queue_of (app_bus s) q)\<lparr>qu_items := drop n (qu_items (queue_of (app_bus s) q))\<rparr>) (app_bus s)\<rparr>)"
proof (induction n arbitrary: s)
  case (Suc n)
  let ?x = "queue_of (app_bus s) q"
  let ?s = "s\<lparr>app_bus := take_message q (app_bus s)\<rparr>"
  have first: "other_act s ?s" by (rule Suc.prems)
  show ?case
  proof (cases "n = 0")
    case True
    then show ?thesis using first by (auto simp: take_message_def Let_def drop_Suc)
  next
    case False
    from Suc.IH [OF this Suc.prems(2), of ?s] have "(other_act ^^ n) ?s
      (s\<lparr>app_bus := set_queue q (?x\<lparr>qu_items := drop (Suc n) (qu_items ?x)\<rparr>) (app_bus s)\<rparr>)"
      by (simp add: take_message_def Let_def queue_of_set_queue drop_Suc)
    with first show ?thesis by (rule relpowp_Suc_I2)
  qed
qed simp

lemma solo_env_power:
  "(env_act ^^ n) s s' \<Longrightarrow> solo act env_act (s', t) p \<Longrightarrow> solo act env_act (s, t) p"
proof (induction n arbitrary: s)
  case (Suc n)
  then obtain u where "env_act s u" "(env_act ^^ n) u s'" by (blast elim: relpowp_Suc_E2)
  with Suc show ?case by (blast intro: solo.env)
qed simp

section \<open>The stages of a request, one after the other\<close>

abbreviation alone ::
    "env \<Rightarrow> (string \<Rightarrow> commit option) \<Rightarrow> app_state \<times> task \<Rightarrow> app_state \<times> task \<Rightarrow> bool" where
  "alone E0 named \<equiv> solo (task_act E0 named) other_act"

lemma alone_step:
  "advance t s = Some (s', t') \<Longrightarrow> alone E0 named (s', t') p \<Longrightarrow>
   (\<And>c. commit_at t' = Some c \<Longrightarrow> known E0 named c) \<Longrightarrow> alone E0 named (s, t) p"
  by (rule solo.act) (rule task_act.advance)

text \<open>Where a task is when its request has come to this outcome.\<close>

fun comes_to :: "app_state \<Rightarrow> task \<Rightarrow> reply outcome \<Rightarrow> bool" where
  "comes_to s t (Done r) = (t = answer_with r)"
| "comes_to s t (Failed e) = (t = fail e)"
| "comes_to s t Blocked = waits t s"

lemma alone_persist:
  assumes "persist_commit E c s = (s', u)" "known E0 named c"
  shows "alone E0 named (s, Persist CheckParents E delta c r)
    (s', case u of Done _ \<Rightarrow> Cast UpdateChannel E delta (cm_commit_id c) (ThenInspect c r) | Failed e \<Rightarrow> fail e
         | Blocked \<Rightarrow> Dropped)"
proof (cases "check_append (app_dag s) c")
  case (Inl e)
  then show ?thesis using assms
    by (intro alone_step [OF _ solo.stop]) (auto simp: persist_commit_def append_by_stages)
next
  case (Inr v)
  let ?d = "insert_children c (insert_parents c (app_dag s))"
  have a: "append (app_dag s) c = Inr ?d" using Inr by (simp add: append_by_stages)
  have start: "alone E0 named (s, Persist CheckParents E delta c r) p"
    if "alone E0 named (s\<lparr>app_dag := ?d\<rparr>, Persist AppendCommit E delta c r) p" for p
  proof -
    have "alone E0 named (s\<lparr>app_dag := insert_parents c (app_dag s)\<rparr>, Persist InsertChildren E delta c r) p"
      by (rule alone_step [OF _ that]) (simp_all add: assms(2))
    then have "alone E0 named (s, Persist InsertParents E delta c r) p"
      by (rule alone_step [rotated]) (simp_all add: assms(2))
    then show ?thesis by (rule alone_step [rotated]) (simp_all add: assms(2) Inr)
  qed
  show ?thesis
  proof (cases "append_commit E c (app_store s)")
    case (Inl e)
    then show ?thesis using assms a
      by (intro start alone_step [OF _ solo.stop]) (auto simp: persist_commit_def Let_def)
  next
    case st: (Inr st)
    show ?thesis
    proof (cases "set_head E (cm_run_id c) (cm_thread_id c) (cm_agent_id c) (cm_channel c) (cm_commit_id c) st")
      case (Inl e)
      then show ?thesis using assms a st
        by (intro start alone_step [where t = "Persist AppendCommit E delta c r" and t' = "Persist SetHead E delta c r"]
            alone_step [OF _ solo.stop]) (auto simp: persist_commit_def Let_def)
    next
      case (Inr st')
      then show ?thesis using assms a st
        by (intro start alone_step [where t = "Persist AppendCommit E delta c r" and t' = "Persist SetHead E delta c r"]
            alone_step [OF _ solo.stop]) (auto simp: persist_commit_def Let_def)
    qed
  qed
qed

definition after_count :: "env \<Rightarrow> after_cast \<Rightarrow> task" where
  "after_count E k = (case k of ThenInspect c r \<Rightarrow> InspectLoop E c r | ThenReply r \<Rightarrow> answer_with r)"

lemma commit_at_after_count [simp]: "commit_at (after_count E k) = None"
  by (simp add: after_count_def split: after_cast.split)

lemma count_step_after:
  "count_step E durable k b = (b\<lparr>bus_metrics := count_delta durable (bus_metrics b)\<rparr>, after_count E k)"
  by (simp add: count_step_def after_count_def)

text \<open>The wait for a full queue: the receiver makes room, or leaves, or does nothing.\<close>

lemma send_one_queues:
  assumes "send_one E m d i q b = Some b'" "queues_ok b"
  shows "queues_ok b'"
proof -
  have x: "queue_ok (queue_of b q)" using assms(2) by (simp add: queues_ok_def)
  have "\<not> (d \<and> stuck E q (queue_of b q))" using assms(1) send_one_None [of E m d i q b] by auto
  then have "queue_ok (sent E m d q (queue_of b q))"
    using x by (auto simp: sent_def stuck_def queue_ok_def try_send_def
        split: try_send_result.splits receiver_behaviour.splits if_splits)
  then show ?thesis using assms(2) by (simp add: queues_ok_def send_one_queue [OF assms(1)])
qed

lemma waiting_for_room:
  assumes "try_send (queue_of (app_bus s) q) = SendFull" "sd_durable delta"
    and "alone E0 named (s, AwaitRoom E delta i q targets k) p"
  shows "alone E0 named (s, Send E delta i ((j, q) # targets) k) p"
  by (rule alone_step [OF _ assms(3)]) (simp_all add: on_bus_def assms(1,2))

lemma alone_drain:
  assumes "try_send (queue_of (app_bus s) q) = SendFull" "n \<noteq> 0" "queues_ok (app_bus s)"
  defines "x \<equiv> queue_of (app_bus s) q"
  assumes rest: "alone E0 named (s\<lparr>app_bus := set_queue q (x\<lparr>qu_items := drop n (qu_items x) @ [message_of delta i]\<rparr>)
      (app_bus s)\<rparr>, Send E delta i targets k) p"
  shows "alone E0 named (s, AwaitRoom E delta i q targets k) p"
proof -
  let ?s = "s\<lparr>app_bus := set_queue q (x\<lparr>qu_items := drop n (qu_items x)\<rparr>) (app_bus s)\<rparr>"
  have "queue_ok x" using assms(3) by (simp add: queues_ok_def x_def)
  then have "try_send (queue_of (app_bus ?s) q) = SendOk"
    using assms(1,2) by (auto simp: try_send_def queue_ok_def x_def split: if_splits)
  then have "alone E0 named (?s, AwaitRoom E delta i q targets k) p"
    by (intro alone_step [OF _ rest]) (simp_all add: await_step_def push_item_def Let_def)
  moreover have "(other_act ^^ n) s ?s" unfolding x_def by (rule drain [OF assms(2) other_act.receive])
  ultimately show ?thesis by (rule solo_env_power [rotated])
qed

lemma alone_leave:
  assumes "try_send (queue_of (app_bus s) q) = SendFull"
  defines "x \<equiv> queue_of (app_bus s) q"
  assumes rest: "alone E0 named (s\<lparr>app_bus := set_queue q (x\<lparr>qu_closed := True\<rparr>) (app_bus s)\<rparr>, Send E delta i targets k) p"
  shows "alone E0 named (s, AwaitRoom E delta i q targets k) p"
proof -
  let ?s = "s\<lparr>app_bus := drop_receiver q (app_bus s)\<rparr>"
  have s: "?s = s\<lparr>app_bus := set_queue q (x\<lparr>qu_closed := True\<rparr>) (app_bus s)\<rparr>"
    by (simp add: drop_receiver_def Let_def x_def)
  have "alone E0 named (?s, AwaitRoom E delta i q targets k) p"
    by (rule alone_step [OF _ rest [folded s]])
      (simp_all add: await_step_def drop_receiver_def Let_def try_send_def)
  then show ?thesis by (rule solo.env [rotated]) (rule other_act.hang_up)
qed

lemma alone_send_one:
  assumes "queues_ok (app_bus s)"
    and sent: "send_one E (message_of delta i) (sd_durable delta) j q (app_bus s) = Some b"
    and rest: "alone E0 named (s\<lparr>app_bus := b\<rparr>, Send E delta i targets k) p"
  shows "alone E0 named (s, Send E delta i ((j, q) # targets) k) p"
proof (cases "try_send (queue_of (app_bus s) q)")
  case SendFull
  show ?thesis
  proof (cases "sd_durable delta")
    case True
    show ?thesis
    proof (rule waiting_for_room [OF SendFull True], cases "receiver E q")
      case (Drains n)
      then show "alone E0 named (s, AwaitRoom E delta i q targets k) p"
        using SendFull True sent rest assms(1)
        by (intro alone_drain [where n = n]) (auto simp: send_one_def Let_def split: if_splits)
    next
      case Closes
      then show "alone E0 named (s, AwaitRoom E delta i q targets k) p"
        using SendFull True sent rest by (intro alone_leave) (auto simp: send_one_def Let_def)
    qed (use SendFull True sent in \<open>simp add: send_one_def Let_def\<close>)
  next
    case False
    then show ?thesis using SendFull sent
      by (intro alone_step [OF _ rest]) (auto simp: send_one_def Let_def on_bus_def)
  qed
qed (use sent in \<open>intro alone_step [OF _ rest]; auto simp: send_one_def Let_def on_bus_def push_item_def\<close>)+

lemma alone_deliver:
  assumes "deliver E (message_of delta i) (sd_durable delta) targets (app_bus s) = (b, returned)"
    and "queues_ok (app_bus s)"
  shows "\<exists>t. alone E0 named (s, Send E delta i targets k) (s\<lparr>app_bus := b\<rparr>, t)
    \<and> (if returned then t = CountDelta E (sd_durable delta) k else waits t (s\<lparr>app_bus := b\<rparr>))"
  using assms
proof (induction targets arbitrary: s)
  case Nil
  then show ?case
    by (auto intro!: exI [of _ "CountDelta E (sd_durable delta) k"] alone_step [OF _ solo.stop] simp: on_bus_def)
next
  case (Cons t targets)
  obtain j q where t: "t = (j, q)" by (cases t)
  show ?case
  proof (cases "send_one E (message_of delta i) (sd_durable delta) j q (app_bus s)")
    case None
    then have full: "try_send (queue_of (app_bus s) q) = SendFull" "sd_durable delta"
      by (simp_all add: send_one_None stuck_def)
    then show ?thesis using Cons.prems(1) None t
      by (auto intro!: exI [of _ "AwaitRoom E delta i q targets k"] waiting_for_room solo.stop)
  next
    case (Some c)
    have "queues_ok c" using Some Cons.prems(2) by (rule send_one_queues)
    moreover have "deliver E (message_of delta i) (sd_durable delta) targets c = (b, returned)"
      using Cons.prems(1) Some t by simp
    ultimately obtain u where "alone E0 named (s\<lparr>app_bus := c\<rparr>, Send E delta i targets k) (s\<lparr>app_bus := b\<rparr>, u)"
      "if returned then u = CountDelta E (sd_durable delta) k else waits u (s\<lparr>app_bus := b\<rparr>)"
      using Cons.IH [of "s\<lparr>app_bus := c\<rparr>"] by (cases returned) auto
    with alone_send_one [OF Cons.prems(2) Some] t show ?thesis by blast
  qed
qed

lemma queues_ok_prepared: "queues_ok (push_recent d i (update_channel d b)) = queues_ok b"
  by (rule queues_ok_cong) (simp add: push_recent_def update_channel_def Let_def)

lemma alone_cast:
  assumes "send_broadcast E delta i s = (s', u)" "queues_ok (app_bus s)"
  shows "\<exists>t. alone E0 named (s, Cast UpdateChannel E delta i k) (s', t)
    \<and> (u = Done () \<and> t = after_count E k \<or> u = Blocked \<and> waits t s')"
proof -
  let ?b = "push_recent delta i (update_channel delta (app_bus s))"
  let ?s = "s\<lparr>app_bus := ?b\<rparr>"
  obtain b returned where d: "deliver E (message_of delta i) (sd_durable delta) (targets_of delta ?b) ?b = (b, returned)"
    by (cases "deliver E (message_of delta i) (sd_durable delta) (targets_of delta ?b) ?b")
  then obtain t where t: "alone E0 named (?s, Send E delta i (targets_of delta ?b) k) (s\<lparr>app_bus := b\<rparr>, t)"
    "if returned then t = CountDelta E (sd_durable delta) k else waits t (s\<lparr>app_bus := b\<rparr>)"
    using alone_deliver [of E delta i "targets_of delta ?b" ?s b returned E0 named k] assms(2)
    by (cases returned) (auto simp: queues_ok_prepared)
  have "alone E0 named (?s, Cast CollectTargets E delta i k) (s\<lparr>app_bus := b\<rparr>, t)"
    by (rule alone_step [OF _ t(1)]) (simp_all add: on_bus_def)
  then have "alone E0 named (s\<lparr>app_bus := update_channel delta (app_bus s)\<rparr>, Cast PushRecent E delta i k)
      (s\<lparr>app_bus := b\<rparr>, t)"
    by (rule alone_step [rotated]) (simp_all add: on_bus_def)
  then have cast: "alone E0 named (s, Cast UpdateChannel E delta i k) (s\<lparr>app_bus := b\<rparr>, t)"
    by (rule alone_step [rotated]) (simp_all add: on_bus_def)
  have r: "broadcast E delta i (app_bus s) = (if returned
      then (b\<lparr>bus_metrics := count_delta (sd_durable delta) (bus_metrics b)\<rparr>, True) else (b, False))"
    using d by (simp add: broadcast_def message_of_def Let_def)
  show ?thesis
  proof (cases returned)
    case True
    then have "s' = s\<lparr>app_bus := b\<lparr>bus_metrics := count_delta (sd_durable delta) (bus_metrics b)\<rparr>\<rparr>" "u = Done ()"
      using assms(1) r by (simp_all add: send_broadcast_def)
    moreover from this have "alone E0 named (s\<lparr>app_bus := b\<rparr>, t) (s', after_count E k)"
      using t(2) True
      by (intro alone_step [OF _ solo.stop]) (simp_all add: on_bus_def count_step_after)
    ultimately show ?thesis using cast solo_trans by blast
  next
    case False
    then show ?thesis using assms(1) r t(2) cast by (auto simp: send_broadcast_def)
  qed
qed

text \<open>An answer at the end of the request, with what the sequential operation returns before it.\<close>

definition answered :: "reply \<Rightarrow> unit outcome \<Rightarrow> reply outcome" where
  "answered r u = map_outcome (\<lambda>_. r) u"

lemma alone_inspect:
  assumes "inspect_loop E c s = (s', u)" "queues_ok (app_bus s)"
  shows "\<exists>t. alone E0 named (s, InspectLoop E c r) (s', t) \<and> comes_to s' t (answered r u)"
proof (cases "cf_loop_detection_enabled (app_config s)")
  case False
  then show ?thesis using assms(1)
    by (intro exI [of _ "answer_with r"] conjI alone_step [OF _ solo.stop])
      (auto simp: inspect_loop_def inspect_step_def answered_def)
next
  case True
  obtain d found where i: "inspect E c (app_detector s) = (d, found)" by (cases "inspect E c (app_detector s)")
  let ?s = "s\<lparr>app_detector := d\<rparr>"
  show ?thesis
  proof (cases found)
    case None
    then show ?thesis using assms(1) True i
      by (intro exI [of _ "answer_with r"] conjI alone_step [OF _ solo.stop])
        (auto simp: inspect_loop_def inspect_step_def answered_def)
  next
    case (Some w)
    have first: "alone E0 named (s, InspectLoop E c r) p" if "alone E0 named (?s, StoreWarning E w r) p" for p
      by (rule alone_step [OF _ that]) (simp_all add: inspect_step_def True i Some)
    show ?thesis
    proof (cases "append_loop_warning E w (app_store ?s)")
      case (Inl e)
      then show ?thesis using assms(1) True i Some
        by (intro exI [of _ "fail e"] conjI first alone_step [OF _ solo.stop])
          (auto simp: inspect_loop_def store_warning_step_def answered_def)
    next
      case (Inr st)
      let ?t = "count_metric (\<lambda>m. m\<lparr>mt_loop_warnings_total := inc (mt_loop_warnings_total m)\<rparr>) (?s\<lparr>app_store := st\<rparr>)"
      have b: "broadcast_loop_warning E w ?t = (s', u)"
        using assms(1) True i Some Inr by (simp add: inspect_loop_def)
      show ?thesis
      proof (cases "json_print E (loop_warning_json w)")
        case (Inl e)
        then show ?thesis using b Inr
          by (intro exI [of _ "fail e"] conjI first alone_step [OF _ solo.stop])
            (auto simp: broadcast_loop_warning_def store_warning_step_def answered_def)
      next
        case bs: (Inr bs)
        let ?c = "Cast UpdateChannel E (loop_warning_delta E w bs) [] (ThenReply r)"
        have "queues_ok (app_bus ?t)" using assms(2) by (simp add: count_metric_def queues_ok_def queue_of_def)
        moreover have "send_broadcast E (loop_warning_delta E w bs) [] ?t = (s', u)"
          using b bs by (simp add: broadcast_loop_warning_def)
        ultimately obtain t where t: "alone E0 named (?t, ?c) (s', t)"
          "u = Done () \<and> t = after_count E (ThenReply r) \<or> u = Blocked \<and> waits t s'"
          using alone_cast by blast
        have "alone E0 named (?s, StoreWarning E w r) (s', t)"
          by (rule alone_step [OF _ t(1)]) (use Inr bs in \<open>simp_all add: store_warning_step_def\<close>)
        then have "alone E0 named (s, InspectLoop E c r) (s', t)" by (rule first)
        with t(2) show ?thesis by (auto simp: answered_def after_count_def)
      qed
    qed
  qed
qed

lemma queues_ok_broadcast:
  assumes "send_broadcast E delta i s = (s', u)" "queues_ok (app_bus s)"
  shows "queues_ok (app_bus s')"
proof -
  have "queues_ok b \<Longrightarrow> queues_ok (fst (deliver E m d ts b))" for m d ts b
  proof (induction ts arbitrary: b)
    case (Cons t ts)
    then show ?case by (cases t) (auto split: option.splits dest: send_one_queues)
  qed simp
  note deliver = this
  have "queues_ok (fst (broadcast E delta i (app_bus s)))"
    using deliver [of "push_recent delta i (update_channel delta (app_bus s))" "message_of delta i" "sd_durable delta"] assms(2)
    by (simp add: broadcast_def message_of_def Let_def split_beta queues_ok_prepared)
  then show ?thesis using assms(1) by (auto simp: send_broadcast_def split_beta Let_def)
qed

lemma queues_ok_persist:
  "persist_commit E c s = (s', u) \<Longrightarrow> queues_ok (app_bus s') = queues_ok (app_bus s)"
  by (auto simp: persist_commit_def Let_def count_metric_def split: sum.splits)

lemma alone_commit:
  assumes "commit_and_broadcast E delta c s = (s', u)" "queues_ok (app_bus s)" "known E0 named c"
  shows "\<exists>t. alone E0 named (s, Persist CheckParents E delta c r) (s', t) \<and> comes_to s' t (answered r u)"
proof -
  obtain s1 u1 where p: "persist_commit E c s = (s1, u1)" by (cases "persist_commit E c s")
  have u1: "u1 \<noteq> Blocked" using p by (auto simp: persist_commit_def Let_def split: sum.splits)
  note persisted = alone_persist [OF p assms(3), of delta r]
  show ?thesis
  proof (cases u1)
    case (Failed e)
    then show ?thesis using assms(1) p persisted
      by (auto simp: commit_and_broadcast_def answered_def)
  next
    case (Done v)
    obtain s2 u2 where b: "send_broadcast E delta (cm_commit_id c) s1 = (s2, u2)"
      by (cases "send_broadcast E delta (cm_commit_id c) s1")
    have q1: "queues_ok (app_bus s1)" using assms(2) queues_ok_persist [OF p] by simp
    obtain t2 where t2: "alone E0 named (s1, Cast UpdateChannel E delta (cm_commit_id c) (ThenInspect c r)) (s2, t2)"
      "u2 = Done () \<and> t2 = InspectLoop E c r \<or> u2 = Blocked \<and> waits t2 s2"
      using alone_cast [OF b q1, of E0 named "ThenInspect c r"] by (auto simp: after_count_def)
    have to: "alone E0 named (s, Persist CheckParents E delta c r) (s2, t2)"
      using persisted t2(1) Done by (auto intro: solo_trans)
    from t2(2) show ?thesis
    proof
      assume fin: "u2 = Done () \<and> t2 = InspectLoop E c r"
      then have "inspect_loop E c s2 = (s', u)"
        using assms(1) p Done b by (simp add: commit_and_broadcast_def)
      then obtain t where "alone E0 named (s2, InspectLoop E c r) (s', t)" "comes_to s' t (answered r u)"
        using alone_inspect queues_ok_broadcast [OF b q1] by blast
      then show ?thesis using to fin by (blast intro: solo_trans)
    next
      assume "u2 = Blocked \<and> waits t2 s2"
      then show ?thesis using assms(1) p Done b to by (auto simp: commit_and_broadcast_def answered_def)
    qed
  qed (use u1 in simp)
qed

section \<open>Whole requests\<close>

text \<open>A writing request as one step, with the outcome that its caller sees.\<close>

definition handle_op :: "env \<Rightarrow> write_op \<Rightarrow> app_state \<Rightarrow> app_state \<times> reply outcome" where
  "handle_op E op s = (case op of
     WPublish q \<Rightarrow> map_prod id (map_outcome PublishReply) (publish_delta_inner E q s)
   | WCheckpoint q \<Rightarrow> map_prod id (map_outcome CheckpointReply) (checkpoint_inner E q s)
   | WFork q \<Rightarrow> map_prod id (map_outcome ForkReply) (fork_inner E q s)
   | WRollback q \<Rightarrow> map_prod id (map_outcome RollbackReply) (rollback_inner E q s))"

definition op_commit :: "env \<Rightarrow> write_op \<Rightarrow> app_state \<Rightarrow> commit option" where
  "op_commit E op s = (case op of WPublish q \<Rightarrow> publish_commit E q s
     | WCheckpoint q \<Rightarrow> checkpoint_commit E q s | _ \<Rightarrow> None)"

lemma queues_ok_prepare:
  "prepare_payload E p s = (s', u) \<Longrightarrow> queues_ok (app_bus s') = queues_ok (app_bus s)"
  by (auto simp: prepare_payload_def Let_def count_metric_def split_beta split: sum.splits if_splits)

lemma map_after:
  "map_prod id (map_outcome f) (after r (\<lambda>_ s. (s, Done x))) = (fst r, answered (f x) (snd r))"
  for r :: "app_state \<times> unit outcome"
  by (cases r; cases "snd r") (auto simp: answered_def)

lemma alone_finish: "t = fail e \<Longrightarrow> advance u s = Some (s', t) \<Longrightarrow> alone E0 named (s, u) (s', t)"
  by (rule alone_step [OF _ solo.stop]) simp_all

lemma alone_publish:
  assumes "queues_ok (app_bus s)" "\<And>c. publish_commit E q s = Some c \<Longrightarrow> known E0 named c"
    and "handle_op E (WPublish q) s = (s', u)"
  shows "\<exists>t. alone E0 named (s, Begin E (WPublish q)) (s', t) \<and> comes_to s' t u"
proof (cases "pd_delta q")
  case None
  then show ?thesis using assms(3)
    by (intro exI [of _ "fail (Anyhow ''PublishDeltaRequest.delta is required'')"] conjI alone_finish)
      (auto simp: handle_op_def publish_delta_inner_def begin_op_def begin_publish_def)
next
  case (Some d)
  let ?d = "normalize_delta E d"
  show ?thesis
  proof (cases "ensure_channel_permission (sd_agent_id ?d) (channel_write (sd_channel ?d)) s")
    case (Inl e)
    then show ?thesis using assms(3) Some
      by (intro exI [of _ "fail e"] conjI alone_finish)
        (auto simp: handle_op_def publish_delta_inner_def begin_op_def begin_publish_def Let_def)
  next
    case perm: (Inr v)
    have start: "alone E0 named (s, Begin E (WPublish q)) p" if "alone E0 named (s, Prepare E (WPublish q) ?d) p" for p
      by (rule alone_step [OF _ that]) (use Some perm in \<open>simp_all add: begin_op_def begin_publish_def Let_def\<close>)
    obtain t r where t: "prepare_payload E (sd_payload ?d) s = (t, r)" by (cases "prepare_payload E (sd_payload ?d) s")
    have qt: "queues_ok (app_bus t)" using assms(1) queues_ok_prepare [OF t] by simp
    show ?thesis
    proof (cases r)
      case (Failed e)
      then show ?thesis using assms(3) Some perm t
        by (intro exI [of _ "fail e"] conjI start alone_finish)
          (auto simp: handle_op_def publish_delta_inner_def prepare_step_def Let_def)
    next
      case Blocked
      then show ?thesis using t prepare_payload_not_Blocked by auto
    next
      case (Done x)
      obtain p report refs where x: "x = (p, report, refs)" by (cases x)
      let ?e = "?d\<lparr>sd_payload := Some p\<rparr>"
      have prepare: "alone E0 named (s, Begin E (WPublish q)) z"
        if "alone E0 named (t, if \<not> sd_durable ?e \<and> \<not> cf_persist_ephemeral (app_config t)
              then Cast UpdateChannel E ?e [] (ThenReply (ephemeral_reply ?e report))
              else Resolve E (WPublish q) ?e p report refs) z" for z
        by (intro start, rule alone_step [OF _ that]) (use Done x t in \<open>auto simp: prepare_step_def Let_def split: if_splits\<close>)
      show ?thesis
      proof (cases "\<not> sd_durable ?e \<and> \<not> cf_persist_ephemeral (app_config t)")
        case True
        obtain w v where b: "send_broadcast E ?e [] t = (w, v)" by (cases "send_broadcast E ?e [] t")
        have "s' = w \<and> u = answered (ephemeral_reply ?e report) v"
          using assms(3) Some perm t Done x True b
          by (cases v) (auto simp: handle_op_def publish_delta_inner_def Let_def answered_def ephemeral_reply_def)
        with alone_cast [OF b qt, of E0 named "ThenReply (ephemeral_reply ?e report)"] show ?thesis
          using True by (auto simp: after_count_def answered_def intro!: prepare)
      next
        case False
        show ?thesis
        proof (cases "resolve_parents E ?e (pd_parent_commit_ids q) t")
          case (Inl e)
          then show ?thesis using assms(3) Some perm t Done x False
            by (intro exI [of _ "fail e"] conjI prepare)
              (auto simp: handle_op_def publish_delta_inner_def resolve_step_def op_parents_def Let_def
                intro!: alone_finish)
        next
          case (Inr parents)
          let ?c = "from_delta E ?e parents p report (publish_extras (pd_objective q) refs)"
          let ?r = "op_reply (WPublish q) ?e (cm_commit_id ?c) report"
          have "publish_commit E q s = Some ?c"
            using Some perm t Done x Inr False by (auto simp: publish_commit_def Let_def)
          then have k: "known E0 named ?c" by (rule assms(2))
          obtain w v where c: "commit_and_broadcast E ?e ?c t = (w, v)"
            by (cases "commit_and_broadcast E ?e ?c t")
          have su: "s' = w \<and> u = answered ?r v"
            using assms(3) Some perm t Done x False Inr c
            by (cases v) (auto simp: handle_op_def publish_delta_inner_def Let_def answered_def op_reply_def)
          obtain z where z: "alone E0 named (t, Persist CheckParents E ?e ?c ?r) (w, z)" "comes_to w z (answered ?r v)"
            using alone_commit [OF c qt k] by blast
          have "alone E0 named (t, Resolve E (WPublish q) ?e p report refs) (w, z)"
            by (rule alone_step [OF _ z(1)])
              (use Inr k in \<open>simp_all add: resolve_step_def op_parents_def op_extras_def Let_def\<close>)
          with False have "alone E0 named (s, Begin E (WPublish q)) (w, z)" by (intro prepare) auto
          with su z(2) show ?thesis by blast
        qed
      qed
    qed
  qed
qed

lemma alone_checkpoint:
  assumes "queues_ok (app_bus s)" "\<And>c. checkpoint_commit E q s = Some c \<Longrightarrow> known E0 named c"
    and "handle_op E (WCheckpoint q) s = (s', u)"
  shows "\<exists>t. alone E0 named (s, Begin E (WCheckpoint q)) (s', t) \<and> comes_to s' t u"
proof (cases "ensure_channel_permission (cq_agent_id q) (channel_checkpoint (cq_channel q)) s")
  case (Inl e)
  then show ?thesis using assms(3)
    by (intro exI [of _ "fail e"] conjI alone_finish)
      (auto simp: handle_op_def checkpoint_inner_def begin_op_def begin_checkpoint_def)
next
  case perm: (Inr v)
  let ?d = "normalize_delta E (checkpoint_delta E q)"
  have start: "alone E0 named (s, Begin E (WCheckpoint q)) p" if "alone E0 named (s, Prepare E (WCheckpoint q) ?d) p" for p
    by (rule alone_step [OF _ that]) (use perm in \<open>simp_all add: begin_op_def begin_checkpoint_def\<close>)
  obtain t r where t: "prepare_payload E (sd_payload ?d) s = (t, r)" by (cases "prepare_payload E (sd_payload ?d) s")
  have qt: "queues_ok (app_bus t)" using assms(1) queues_ok_prepare [OF t] by simp
  show ?thesis
  proof (cases r)
    case (Failed e)
    then show ?thesis using assms(3) perm t
      by (intro exI [of _ "fail e"] conjI start alone_finish)
        (auto simp: handle_op_def checkpoint_inner_def prepare_step_def Let_def)
  next
    case Blocked
    then show ?thesis using t prepare_payload_not_Blocked by auto
  next
    case (Done x)
    obtain p report refs where x: "x = (p, report, refs)" by (cases x)
    let ?e = "?d\<lparr>sd_payload := Some p\<rparr>"
    have prepare: "alone E0 named (s, Begin E (WCheckpoint q)) z"
      if "alone E0 named (t, Resolve E (WCheckpoint q) ?e p report refs) z" for z
      by (intro start, rule alone_step [OF _ that]) (use Done x t in \<open>simp_all add: prepare_step_def Let_def\<close>)
    show ?thesis
    proof (cases "resolve_parents E ?e (cq_parent_commit_ids q) t")
      case (Inl e)
      then show ?thesis using assms(3) perm t Done x
        by (intro exI [of _ "fail e"] conjI prepare alone_finish)
          (auto simp: handle_op_def checkpoint_inner_def resolve_step_def op_parents_def Let_def)
    next
      case (Inr parents)
      let ?c = "from_delta E ?e parents p report (checkpoint_extras q (refs @ cq_artifact_refs q))"
      let ?r = "op_reply (WCheckpoint q) ?e (cm_commit_id ?c) report"
      have "checkpoint_commit E q s = Some ?c"
        using perm t Done x Inr by (simp add: checkpoint_commit_def Let_def)
      then have k: "known E0 named ?c" by (rule assms(2))
      obtain w v where c: "commit_and_broadcast E ?e ?c t = (w, v)" by (cases "commit_and_broadcast E ?e ?c t")
      have su: "s' = w \<and> u = answered ?r v"
        using assms(3) perm t Done x Inr c
        by (cases v) (auto simp: handle_op_def checkpoint_inner_def Let_def answered_def op_reply_def)
      obtain z where z: "alone E0 named (t, Persist CheckParents E ?e ?c ?r) (w, z)" "comes_to w z (answered ?r v)"
        using alone_commit [OF c qt k] by blast
      have "alone E0 named (t, Resolve E (WCheckpoint q) ?e p report refs) (w, z)"
        by (rule alone_step [OF _ z(1)])
          (use Inr k in \<open>simp_all add: resolve_step_def op_parents_def op_extras_def Let_def\<close>)
      then have "alone E0 named (s, Begin E (WCheckpoint q)) (w, z)" by (rule prepare)
      with su z(2) show ?thesis by blast
    qed
  qed
qed

lemma alone_fork:
  assumes "handle_op E (WFork q) s = (s', u)"
  shows "\<exists>t. alone E0 named (s, Begin E (WFork q)) (s', t) \<and> comes_to s' t u"
proof (cases "get_commit E (app_store s) (fq_source_commit_id q)")
  case (Inl e)
  then show ?thesis using assms
    by (intro exI [of _ "fail e"] conjI alone_finish)
      (auto simp: handle_op_def fork_inner_def fork_def begin_op_def begin_fork_def)
next
  case (Inr found)
  show ?thesis
  proof (cases found)
    case None
    then show ?thesis using assms Inr
      by (intro exI [of _ "fail (Anyhow ''source commit not found'')"] conjI alone_finish)
        (auto simp: handle_op_def fork_inner_def fork_def begin_op_def begin_fork_def)
  next
    case (Some c)
    have start: "alone E0 named (s, Begin E (WFork q)) p" if "alone E0 named (s, MoveFork E q c) p" for p
      by (rule alone_step [OF _ that]) (use Inr Some in \<open>simp_all add: begin_op_def begin_fork_def\<close>)
    show ?thesis
    proof (cases "set_head E (fork_run E q) (cm_thread_id c) (cm_agent_id c) (cm_channel c) (cm_commit_id c) (app_store s)")
      case (Inl e)
      then show ?thesis using assms \<open>get_commit _ _ _ = _\<close> Some
        by (intro exI [of _ "fail e"] conjI start alone_finish)
          (auto simp: handle_op_def fork_inner_def fork_def move_fork_step_def fork_run_def)
    next
      case st: (Inr st)
      let ?s = "s\<lparr>app_store := st\<rparr>"
      have move: "alone E0 named (s, Begin E (WFork q)) p" if "alone E0 named (?s, RecordFork E q c) p" for p
        by (intro start, rule alone_step [OF _ that]) (use st in \<open>simp_all add: move_fork_step_def\<close>)
      obtain t where t: "advance (RecordFork E q c) ?s = Some (s', t)" "comes_to s' t u" "commit_at t = None"
        using assms Inr Some st
        by (auto simp: handle_op_def fork_inner_def fork_def record_fork_step_def fork_run_def Let_def
            split: prod.splits sum.splits)
      have "alone E0 named (?s, RecordFork E q c) (s', t)"
        by (rule alone_step [OF t(1) solo.stop]) (simp add: t(3))
      with move t(2) show ?thesis by blast
    qed
  qed
qed

lemma alone_warnings:
  "alone E0 named (s, CollectWarnings E q head target ids ws)
     (s, case rollback_warnings E (app_store s) (rb_target_commit_id q) ids of
           Inl e \<Rightarrow> fail e | Inr v \<Rightarrow> MoveHead E q head target (ws @ v))"
proof (induction ids arbitrary: ws)
  case Nil
  show ?case by (rule alone_step [OF _ solo.stop]) simp_all
next
  case (Cons i ids)
  show ?case
  proof (cases "i = rb_target_commit_id q")
    case True
    show ?thesis by (rule alone_step [OF _ solo.stop]) (simp_all add: True)
  next
    case False
    show ?thesis
    proof (cases "get_commit E (app_store s) i")
      case (Inl e)
      show ?thesis by (rule alone_step [OF _ solo.stop]) (simp_all add: False Inl)
    next
      case (Inr found)
      let ?w = "case found of None \<Rightarrow> [] | Some c \<Rightarrow> map (rollback_warning c) (cm_external_side_effects c)"
      have "alone E0 named (s, CollectWarnings E q head target (i # ids) ws) p"
        if "alone E0 named (s, CollectWarnings E q head target ids (ws @ ?w)) p" for p
        by (rule alone_step [OF _ that]) (simp_all add: False Inr split: option.split)
      note first = this
      show ?thesis using first [OF Cons.IH]
        by (cases "rollback_warnings E (app_store s) (rb_target_commit_id q) ids") (simp_all add: False Inr)
    qed
  qed
qed

lemma alone_move_head:
  assumes "set_head E (cm_run_id head) (cm_thread_id head) (cm_agent_id head) (cm_channel head)
      (cm_commit_id target) (app_store s) = Inr st"
    and "alone E0 named (s\<lparr>app_store := st\<rparr>, RecordRollback E q head target ws) p"
  shows "alone E0 named (s, MoveHead E q head target ws) p"
  by (rule alone_step [OF _ assms(2)]) (use assms(1) in \<open>simp_all add: move_head_step_def\<close>)

text \<open>The two inserts of \<open>append_event\<close>.\<close>

lemma alone_record_rollback:
  assumes "append_event E ''rollback'' (rollback_record E head target ws) (app_store s) = (st, r)"
  shows "\<exists>t. alone E0 named (s, RecordRollback E q head target ws) (s\<lparr>app_store := st\<rparr>, t)
     \<and> t = (case r of Inl e \<Rightarrow> fail e | Inr _ \<Rightarrow> answer_with (RollbackReply
          \<lparr>rbr_moved = True, rbr_previous_head_commit_id = rb_head_commit_id q,
           rbr_new_head_commit_id = rb_target_commit_id q, rbr_warnings = ws\<rparr>))"
proof (cases "append_audit E ''rollback'' (rollback_record E head target ws) (app_store s)")
  case (Inl e)
  then have "r = Inl e" "st = app_store s" using assms by (simp_all add: append_event_def)
  moreover have "alone E0 named (s, RecordRollback E q head target ws) (s, fail e)"
    by (rule alone_finish [OF refl]) (use Inl in \<open>simp add: record_rollback_step_def\<close>)
  ultimately show ?thesis by simp
next
  case (Inr s1)
  have first: "alone E0 named (s, RecordRollback E q head target ws) p"
    if "alone E0 named (s\<lparr>app_store := s1\<rparr>, LogRollback E q head target ws) p" for p
    by (rule alone_step [OF _ that]) (use Inr in \<open>simp_all add: record_rollback_step_def\<close>)
  have "\<exists>t. advance (LogRollback E q head target ws) (s\<lparr>app_store := s1\<rparr>) = Some (s\<lparr>app_store := st\<rparr>, t)
      \<and> commit_at t = None
      \<and> t = (case r of Inl e \<Rightarrow> fail e | Inr _ \<Rightarrow> answer_with (RollbackReply
          \<lparr>rbr_moved = True, rbr_previous_head_commit_id = rb_head_commit_id q,
           rbr_new_head_commit_id = rb_target_commit_id q, rbr_warnings = ws\<rparr>))"
    using assms Inr by (auto simp: append_event_def log_rollback_step_def split: sum.splits)
  then obtain t where t: "advance (LogRollback E q head target ws) (s\<lparr>app_store := s1\<rparr>) = Some (s\<lparr>app_store := st\<rparr>, t)"
    "commit_at t = None" "t = (case r of Inl e \<Rightarrow> fail e | Inr _ \<Rightarrow> answer_with (RollbackReply
          \<lparr>rbr_moved = True, rbr_previous_head_commit_id = rb_head_commit_id q,
           rbr_new_head_commit_id = rb_target_commit_id q, rbr_warnings = ws\<rparr>))" by blast
  have "alone E0 named (s\<lparr>app_store := s1\<rparr>, LogRollback E q head target ws) (s\<lparr>app_store := st\<rparr>, t)"
    by (rule alone_step [OF t(1) solo.stop]) (simp add: t(2))
  from first [OF this] t(3) show ?thesis by blast
qed

lemma alone_rollback:
  assumes "handle_op E (WRollback q) s = (s', u)"
  shows "\<exists>t. alone E0 named (s, Begin E (WRollback q)) (s', t) \<and> comes_to s' t u"
proof (cases "\<not> rb_force q \<and> \<not> is_ancestor (app_dag s) (rb_target_commit_id q) (rb_head_commit_id q)")
  case True
  then show ?thesis using assms
    by (auto simp: handle_op_def rollback_inner_def rollback_def begin_op_def begin_rollback_def
        intro!: alone_finish [OF refl])
next
  case ancestor: False
  have start: "alone E0 named (s, Begin E (WRollback q)) p" if "alone E0 named (s, ReadHead E q) p" for p
    by (rule alone_step [OF _ that]) (use ancestor in \<open>auto simp: begin_op_def begin_rollback_def\<close>)
  note defs = handle_op_def rollback_inner_def rollback_def
  show ?thesis
  proof (cases "\<exists>head. get_commit E (app_store s) (rb_head_commit_id q) = Inr (Some head)")
    case False
    then obtain e where "read_head_step E q s = fail e" "s' = s" "u = Failed e"
      using assms ancestor by (auto simp: defs read_head_step_def split: sum.splits option.splits)
    then show ?thesis by (intro exI [of _ "fail e"] conjI start alone_finish) simp_all
  next
    case True
    then obtain head where head: "get_commit E (app_store s) (rb_head_commit_id q) = Inr (Some head)" by blast
    have read: "alone E0 named (s, Begin E (WRollback q)) p" if "alone E0 named (s, ReadTarget E q head) p" for p
      by (intro start, rule alone_step [OF _ that]) (use head in \<open>simp_all add: read_head_step_def\<close>)
    show ?thesis
    proof (cases "\<exists>target. get_commit E (app_store s) (rb_target_commit_id q) = Inr (Some target)")
      case False
      then obtain e where "read_target_step E q head s = fail e" "s' = s" "u = Failed e"
        using assms ancestor head by (auto simp: defs read_target_step_def split: sum.splits option.splits)
      then show ?thesis by (intro exI [of _ "fail e"] conjI read alone_finish) simp_all
    next
      case True
      then obtain target where target: "get_commit E (app_store s) (rb_target_commit_id q) = Inr (Some target)" by blast
      let ?ids = "ancestry (app_dag s) (rb_head_commit_id q)"
      have walk: "alone E0 named (s, Begin E (WRollback q)) p"
        if "alone E0 named (s, CollectWarnings E q head target ?ids []) p" for p
      proof (rule read)
        have "alone E0 named (s, ReadAncestry E q head target) p"
          by (rule alone_step [OF _ that]) simp_all
        then show "alone E0 named (s, ReadTarget E q head) p"
          by (rule alone_step [rotated]) (use target in \<open>simp_all add: read_target_step_def\<close>)
      qed
      note warned = walk [OF alone_warnings]
      show ?thesis
      proof (cases "rollback_warnings E (app_store s) (rb_target_commit_id q) ?ids")
        case (Inl e)
        then show ?thesis using warned assms ancestor head target by (auto simp: defs)
      next
        case ws: (Inr ws)
        show ?thesis
        proof (cases "set_head E (cm_run_id head) (cm_thread_id head) (cm_agent_id head) (cm_channel head)
            (cm_commit_id target) (app_store s)")
          case (Inl e)
          have "alone E0 named (s, MoveHead E q head target ws) (s, fail e)"
            by (rule alone_finish [OF refl]) (use Inl in \<open>simp add: move_head_step_def\<close>)
          moreover have "s' = s \<and> u = Failed e" using assms ancestor head target ws Inl by (auto simp: defs)
          ultimately show ?thesis using warned ws by (auto intro: solo_trans)
        next
          case (Inr st)
          obtain st2 r where ev: "append_event E ''rollback'' (rollback_record E head target ws)
              (app_store (s\<lparr>app_store := st\<rparr>)) = (st2, r)" by fastforce
          obtain t where t: "alone E0 named (s\<lparr>app_store := st\<rparr>, RecordRollback E q head target ws) (s\<lparr>app_store := st2\<rparr>, t)"
            "t = (case r of Inl e \<Rightarrow> fail e | Inr _ \<Rightarrow> answer_with (RollbackReply
               \<lparr>rbr_moved = True, rbr_previous_head_commit_id = rb_head_commit_id q,
                rbr_new_head_commit_id = rb_target_commit_id q, rbr_warnings = ws\<rparr>))"
            using alone_record_rollback [OF ev] by auto
          have "s' = s\<lparr>app_store := st2\<rparr> \<and> comes_to s' t u"
            using assms ancestor head target ws Inr ev t(2)
            by (auto simp: defs rollback_record_def split: prod.splits sum.splits)
          then show ?thesis using warned ws alone_move_head [OF Inr t(1)] by (auto intro: solo_trans)
        qed
      qed
    qed
  qed
qed

text \<open>
  Claim C7. Running a request as one step is one of its interleavings: from any state whose queues
  respect their capacity, in any company of other requests, a request can arrive and run so that the
  state becomes what the sequential operation makes of it, and its task ends with the outcome of
  that operation; where the operation does not return, the task waits for room in a full queue.
\<close>

theorem sequential_is_interleaving:
  assumes "queues_ok (app_bus s)" "same_codec E E0" "lossy \<or> reliable E"
    and "\<forall>c. op_commit E op s = Some c \<longrightarrow> known E0 named c" "handle_op E op s = (s', u)"
  shows "\<exists>t. requests_steps E0 lossy named (s, ts) (s', ts @ [t]) \<and> comes_to s' t u"
proof -
  have "\<exists>t. alone E0 named (s, Begin E op) (s', t) \<and> comes_to s' t u"
  proof (cases op)
    case (WPublish q)
    then show ?thesis using assms alone_publish by (auto simp: op_commit_def)
  next
    case (WCheckpoint q)
    then show ?thesis using assms alone_checkpoint by (auto simp: op_commit_def)
  next
    case (WFork q)
    then show ?thesis using assms(5) alone_fork by simp
  next
    case (WRollback q)
    then show ?thesis using assms(5) alone_rollback by simp
  qed
  then obtain t where t: "alone E0 named (s, Begin E op) (s', t)" "comes_to s' t u" by blast
  have "requests_step E0 lossy named (s, ts) (s, ts @ [Begin E op])"
    using assms(2,3) by (intro pool_step.arrive arrives.intros)
  moreover have "requests_steps E0 lossy named (s, ts @ [Begin E op]) (s', ts @ [t])"
    using solo_in_pool [OF t(1), of "length ts" "ts @ [Begin E op]"] by simp
  ultimately show ?thesis using t(2) by (meson converse_rtranclp_into_rtranclp)
qed

end
