(* ===== verification/Example.thy ===== *)
theory Example
  imports Daemon
begin

text \<open>
  A small run of the daemon on which the properties of the whole are evaluated: one memo published
  to a new data directory, and the same with a subscriber whose queue is full.
\<close>

section \<open>A daemon that runs\<close>

text \<open>An open daemon, a note to publish and an environment whose codec reads the note's commit.\<close>

definition open_config :: config where
  "open_config = example_config\<lparr>cf_require_auth := False, cf_redaction_enabled := False,
     cf_loop_detection_enabled := False\<rparr>"

definition memo_payload :: payload where
  "memo_payload = \<lparr>pl_encoding = 1, pl_data = ''{}'', pl_struct_data = None, pl_size_bytes = 2,
     pl_content_hash = ''h'', pl_compressed = False, pl_artifact_ref = []\<rparr>"

definition memo_delta :: "bool \<Rightarrow> state_delta" where
  "memo_delta durable = \<lparr>sd_delta_id = ''delta_u'', sd_channel = ''topic:c'', sd_agent_id = ''a'', sd_run_id = ''r'',
     sd_thread_id = ''t'', sd_logical_clock = 0, sd_wall_time = Some zero_time,
     sd_payload = Some memo_payload, sd_durable = durable, sd_tags = [], sd_summary = [],
     sd_metadata = Some []\<rparr>"

definition memo :: "bool \<Rightarrow> publish_delta_request" where
  "memo durable = \<lparr>pd_delta = Some (memo_delta durable), pd_parent_commit_ids = [], pd_objective = []\<rparr>"

text \<open>A checkpoint of the same state.\<close>

definition memo_checkpoint :: checkpoint_request where
  "memo_checkpoint = \<lparr>cq_agent_id = ''a'', cq_run_id = ''r'', cq_thread_id = ''t'', cq_channel = ''topic:c'',
     cq_objective = [], cq_payload = Some memo_payload, cq_parent_commit_ids = [], cq_tags = [],
     cq_summary = [], cq_metadata = Some [], cq_tool_calls = [], cq_tool_results = [],
     cq_artifact_refs = [], cq_external_side_effects = []\<rparr>"

definition memo_commit :: commit where
  "memo_commit = from_delta example_env (memo_delta True) [] memo_payload
     \<lparr>rr_findings = [], rr_redacted = False\<rparr> (publish_extras [] [])"

definition memo_env :: env where
  "memo_env = example_env\<lparr>decode_commit := \<lambda>_. Inr memo_commit\<rparr>"

lemma memo_env_simps [simp]:
  "db_fault memo_env op = None" "fs_fault memo_env f = None" "json_print memo_env v = Inr ''{}''"
  "receiver memo_env i = Stalls" "decode_commit memo_env bs = Inr memo_commit"
  by (simp_all add: memo_env_def example_env_def)

lemma memo_normal [simp]: "normalize_delta E (memo_delta b) = memo_delta b"
  by (simp add: normalize_delta_def memo_delta_def)

lemma open_config_simps [simp]:
  "\<not> cf_require_auth open_config" "\<not> cf_redaction_enabled open_config"
  "\<not> cf_loop_detection_enabled open_config" "\<not> cf_persist_ephemeral open_config"
  "cf_max_inline_payload_bytes open_config = 65536"
  by (simp_all add: open_config_def example_config_def)

lemma memo_fields [simp]:
  "pd_delta (memo b) = Some (memo_delta b)" "pd_parent_commit_ids (memo b) = []" "pd_objective (memo b) = []"
  "sd_durable (memo_delta b) = b" "memo_delta b\<lparr>sd_payload := Some memo_payload\<rparr> = memo_delta b"
  by (simp_all add: memo_def memo_delta_def)

lemma memo_prepared:
  assumes "app_config s = open_config"
  shows "prepare_payload memo_env (sd_payload (memo_delta b)) s
    = (s, Done (memo_payload, \<lparr>rr_findings = [], rr_redacted = False\<rparr>, []))"
  using assms by (simp add: prepare_payload_def fill_payload_def memo_delta_def memo_payload_def Let_def)

lemma memo_sealed: "from_delta memo_env d ps p r x = from_delta example_env d ps p r x"
  by (simp add: from_delta_def seal_def memo_env_def blake3_hex_def)

lemma memo_codec [simp]: "codec_ok memo_env memo_commit"
  by (simp add: codec_ok_def)

lemma reliable_memo [simp]: "reliable memo_env"
  by (simp add: reliable_def)

text \<open>A daemon with no head for the note yet.\<close>

definition fresh_for_memo :: "app_state \<Rightarrow> bool" where
  "fresh_for_memo s \<longleftrightarrow> app_config s = open_config \<and> st_commits (app_store s) = []
     \<and> st_heads (app_store s) = [] \<and> app_dag s = dag_default"

lemma memo_built:
  assumes "fresh_for_memo s"
  shows "publish_commit memo_env (memo True) s = Some memo_commit"
proof -
  have "sd_payload (memo_delta True) = Some memo_payload" by (simp add: memo_delta_def)
  then have "memo_delta True\<lparr>sd_payload := Some memo_payload\<rparr> = memo_delta True"
    by (simp add: memo_delta_def)
  moreover have "get_head memo_env (app_store s) r t a c = Inr None" for r t a c
    using assms by (simp add: get_head_def fresh_for_memo_def)
  ultimately show ?thesis using memo_prepared [of s True] assms
    by (simp add: publish_commit_def memo_def Let_def resolve_parents_def fresh_for_memo_def
        ensure_channel_permission_def
        memo_sealed memo_commit_def)
qed

lemma memo_persists:
  assumes "fresh_for_memo s"
  obtains s' where "persist_commit memo_env memo_commit s = (s', Done ())" "app_config s' = open_config"
    "bus_subscriptions (app_bus s') = bus_subscriptions (app_bus s)"
    "bus_queues (app_bus s') = bus_queues (app_bus s)"
proof -
  have "\<exists>d. append dag_default memo_commit = Inr d"
    by (simp add: append_def dag_default_def memo_commit_def from_delta_def seal_def Let_def unsealed_def)
  then obtain d where d: "append (app_dag s) memo_commit = Inr d"
    using assms by (auto simp: fresh_for_memo_def)
  obtain st where st: "append_commit memo_env memo_commit (app_store s) = Inr st"
    using reliable_append [of memo_env memo_commit "app_store s"] by auto
  obtain st' where st': "set_head memo_env (cm_run_id memo_commit) (cm_thread_id memo_commit)
      (cm_agent_id memo_commit) (cm_channel memo_commit) (cm_commit_id memo_commit) st = Inr st'"
    by (simp add: set_head_def Let_def)
  show ?thesis using that d st st' assms
    by (simp add: persist_commit_def Let_def fresh_for_memo_def count_metric_def)
qed

lemma memo_resolved:
  assumes "fresh_for_memo s" shows "resolve_parents memo_env (memo_delta b) [] s = Inr []"
  using assms by (simp add: resolve_parents_def get_head_def fresh_for_memo_def)

lemma publish_memo:
  assumes "fresh_for_memo s"
  shows "publish_delta_inner memo_env (memo True) s =
    after (commit_and_broadcast memo_env (memo_delta True) memo_commit s) (\<lambda>_ s.
      (s, Done \<lparr>pr_delta_id = sd_delta_id (memo_delta True), pr_commit_id = cm_commit_id memo_commit,
        pr_accepted = True, pr_persisted = True, pr_warning = [],
        pr_redaction_report = Some \<lparr>rr_findings = [], rr_redacted = False\<rparr>\<rparr>))"
  using memo_prepared [of s True] memo_resolved [OF assms, of True] assms
  by (simp add: publish_delta_inner_def ensure_channel_permission_def fresh_for_memo_def Let_def
      memo_sealed memo_commit_def)

lemma inspect_off: "app_config s = open_config \<Longrightarrow> inspect_loop E c s = (s, Done ())"
  by (simp add: inspect_loop_def)

lemma memo_committed:
  assumes "fresh_for_memo s" "bus_subscriptions (app_bus s) = []"
  shows "\<exists>u. commit_and_broadcast memo_env (memo_delta True) memo_commit s = (u, Done ())"
proof -
  obtain t where t: "persist_commit memo_env memo_commit s = (t, Done ())" "app_config t = open_config"
    "bus_subscriptions (app_bus t) = bus_subscriptions (app_bus s)"
    using assms(1) by (rule memo_persists)
  have "snd (send_broadcast memo_env (memo_delta True) (cm_commit_id memo_commit) t) = Done ()"
    using t(3) assms(2) by (simp add: send_broadcast_def broadcast_def targets_of_def Let_def
      push_recent_def update_channel_def split_beta)
  then obtain u where u: "send_broadcast memo_env (memo_delta True) (cm_commit_id memo_commit) t = (u, Done ())"
    by (cases "send_broadcast memo_env (memo_delta True) (cm_commit_id memo_commit) t") simp
  then have "app_config u = open_config" using t(2) send_broadcast_simps(3) by (metis fst_conv)
  with u show ?thesis
    using t(1) by (simp add: commit_and_broadcast_def inspect_off)
qed

lemma memo_published:
  assumes "fresh_for_memo s" "bus_subscriptions (app_bus s) = []"
  shows "\<exists>s' r. publish_delta_inner memo_env (memo True) s = (s', Done r) \<and> pr_persisted r
     \<and> pr_commit_id r = cm_commit_id memo_commit"
  using memo_committed [OF assms] by (auto simp: publish_memo [OF assms(1)])

lemma checkpoint_is_memo:
  "normalize_delta memo_env (checkpoint_delta memo_env memo_checkpoint) = memo_delta True"
  "checkpoint_extras memo_checkpoint [] = publish_extras [] []"
  by (simp_all add: normalize_delta_def checkpoint_delta_def memo_checkpoint_def memo_delta_def new_id_def
      now_def memo_env_def example_env_def checkpoint_extras_def publish_extras_def)

lemma memo_checkpoint_built:
  assumes "fresh_for_memo s"
  shows "checkpoint_commit memo_env memo_checkpoint s = Some memo_commit"
  using memo_prepared [of s True] memo_resolved [OF assms, of True] assms checkpoint_is_memo
  by (simp add: checkpoint_commit_def ensure_channel_permission_def fresh_for_memo_def Let_def
      memo_sealed memo_commit_def memo_checkpoint_def)

lemma memo_checkpointed:
  assumes "fresh_for_memo s" "bus_subscriptions (app_bus s) = []"
  shows "\<exists>s' r. checkpoint_inner memo_env memo_checkpoint s = (s', Done r)"
  using memo_prepared [of s True] memo_resolved [OF assms(1), of True] assms(1) checkpoint_is_memo
    memo_committed [OF assms]
  by (auto simp: checkpoint_inner_def ensure_channel_permission_def fresh_for_memo_def Let_def
      memo_sealed memo_commit_def memo_checkpoint_def)

lemma memo_admissible: "st_commits st = [] \<Longrightarrow> admissible memo_env st memo_commit"
  by (simp add: admissible_def history_def)

lemma fresh_initial [simp]: "fresh_for_memo (initial_state open_config)"
  by (simp add: fresh_for_memo_def initial_state_def new_state_def open_store_def)

lemma memo_step:
  assumes "fresh_for_memo s"
  shows "app_step memo_env lossy s (fst (publish_delta_inner memo_env (memo True) s))"
  using app_step.serve [of memo_env memo_env lossy s "Publish (memo True)"] memo_built [OF assms] assms
  by (simp add: built_ok_def memo_admissible fresh_for_memo_def)

text \<open>The daemon with the memo in its ledger, and a daemon with a subscriber whose queue is full.\<close>

lemma initial_silent [simp]: "bus_subscriptions (app_bus (initial_state config)) = []"
  by (simp add: initial_state_def new_state_def new_bus_def)

lemma memo_daemon:
  obtains s r where "publish_delta_inner memo_env (memo True) (initial_state open_config) = (s, Done r)"
    "pr_persisted r" "pr_commit_id r = cm_commit_id memo_commit"
    "app_steps memo_env lossy (initial_state open_config) s"
    "daemon_steps memo_env lossy (initial_state open_config) s"
proof -
  obtain s r where p: "publish_delta_inner memo_env (memo True) (initial_state open_config) = (s, Done r)"
    "pr_persisted r" "pr_commit_id r = cm_commit_id memo_commit"
    using memo_published [OF fresh_initial initial_silent] by blast
  then have "app_step memo_env lossy (initial_state open_config) s"
    using memo_step [OF fresh_initial, of lossy] by simp
  then show ?thesis using that p daemon_step.request by blast
qed

lemma request_step:
  "built_commit memo_env q s = None \<Longrightarrow> app_step memo_env lossy s (handle memo_env q s)"
  using app_step.serve [of memo_env memo_env lossy s q] by (simp add: built_ok_def)

definition subscribed :: app_state where
  "subscribed = handle memo_env (Subscribe \<lparr>sr_subscriber_id = ''s'', sr_filter = None, sr_queue_capacity = 1\<rparr>)
     (initial_state open_config)"

definition full :: app_state where
  "full = fst (send_broadcast memo_env (memo_delta False) [] subscribed)"

lemma publish_ephemeral_memo:
  assumes "app_config s = open_config"
  shows "fst (publish_delta_inner memo_env (memo False) s) = fst (send_broadcast memo_env (memo_delta False) [] s)"
proof -
  have "fst (after r (\<lambda>_ s. (s, Done y))) = fst r" for r :: "app_state \<times> unit outcome" and y :: publish_delta_response
    by (cases r; cases "snd r") auto
  then show ?thesis using assms memo_prepared [OF assms, of False]
    by (simp add: publish_delta_inner_def ensure_channel_permission_def Let_def)
qed

lemma ephemeral_memo_built:
  assumes "app_config s = open_config"
  shows "publish_commit E (memo False) s = None"
proof -
  have "app_config (fst (prepare_payload E p s)) = open_config" for p
    using assms prepare_payload_ledger(2) by metis
  then show ?thesis
    by (auto simp: publish_commit_def Let_def split: sum.splits prod.splits outcome.splits)
      (metis fst_conv open_config_simps(4))
qed

lemma subscribed_config: "app_config subscribed = open_config"
  by (simp add: subscribed_def grpc_subscribe_def split_beta Let_def initial_state_def new_state_def)

lemma full_steps: "app_steps memo_env lossy (initial_state open_config) full"
proof -
  have "app_step memo_env lossy (initial_state open_config) subscribed"
    unfolding subscribed_def by (rule request_step) simp
  moreover have "app_step memo_env lossy subscribed full"
    using request_step [of "Publish (memo False)" subscribed lossy] subscribed_config
    by (simp add: ephemeral_memo_built publish_ephemeral_memo full_def)
  ultimately show ?thesis by (meson rtranclp.rtrancl_refl rtranclp.rtrancl_into_rtrancl)
qed

lemma full_fresh: "fresh_for_memo full"
  by (simp add: fresh_for_memo_def full_def subscribed_config) (simp add: subscribed_def grpc_subscribe_def
      split_beta Let_def initial_state_def new_state_def open_store_def)

text \<open>The queue of the subscriber holds one message, and has room for no other.\<close>

lemma full_blocks: "\<exists>s'. publish_delta_inner memo_env (memo True) full = (s', Blocked)"
proof -
  obtain t where t: "persist_commit memo_env memo_commit full = (t, Done ())" "app_config t = open_config"
    "bus_subscriptions (app_bus t) = bus_subscriptions (app_bus full)"
    "bus_queues (app_bus t) = bus_queues (app_bus full)"
    using full_fresh by (rule memo_persists)
  have "snd (send_broadcast memo_env (memo_delta True) (cm_commit_id memo_commit) t) = Blocked"
    by (simp add: send_broadcast_def broadcast_def targets_of_def Let_def t(3,4) queue_of_def
      push_recent_def update_channel_def split_beta full_def subscribed_def grpc_subscribe_def subscribe_def
      initial_state_def new_state_def new_bus_def fresh_queue_def clamp_def send_one_def try_send_def set_queue_def
      subscription_matches_def filter_matches_def channel_pattern_matches_def memo_delta_def)
  then obtain u where "send_broadcast memo_env (memo_delta True) (cm_commit_id memo_commit) t = (u, Blocked)"
    by (cases "send_broadcast memo_env (memo_delta True) (cm_commit_id memo_commit) t") simp
  then show ?thesis using t(1)
    by (simp add: publish_memo [OF full_fresh] commit_and_broadcast_def)
qed

section \<open>What the memo leaves behind\<close>

lemma memo_read:
  assumes "publish_delta_inner memo_env (memo True) (initial_state open_config) = (s, Done r)" "pr_persisted r"
  shows "persisted memo_env memo_commit s" "store_ok memo_env (app_store s)"
proof -
  obtain t d c where c: "same_ledger (initial_state open_config) t"
    "publish_commit memo_env (memo True) (initial_state open_config) = Some c"
    "commit_and_broadcast memo_env d c t = (s, Done ())"
    using assms by (rule publish_Done)
  have m: "c = memo_commit" using c(2) memo_built [OF fresh_initial] by simp
  have a: "admissible memo_env (app_store (initial_state open_config)) c"
    unfolding m by (rule memo_admissible) (simp add: initial_state_def new_state_def open_store_def)
  note w = commit_and_broadcast_read [OF rtranclp.rtrancl_refl same_codec_refl _ a c(1,3), of True]
  show "persisted memo_env memo_commit s" "store_ok memo_env (app_store s)"
    using w(1) w(2) [OF _ _ same_codec_refl] m by simp_all
qed

lemma memo_env_history:
  assumes "history memo_env st i = Some c" shows "c = memo_commit"
  using assms by (auto simp: history_def split: option.splits)

lemma memo_grows: "query_order_grows (history memo_env st)"
proof -
  have "cm_parent_commit_ids memo_commit = []" by (simp add: memo_commit_def)
  then show ?thesis by (auto simp: query_order_grows_def dest!: memo_env_history)
qed

lemma open_config_starts:
  "prepare memo_env False open_config = Inr ()" "validate_network_policy open_config = Inr ()"
  unfolding validate_network_policy_iff
  by (simp_all add: prepare_def open_config_def example_config_def split: option.splits)

lemma memo_restarts:
  assumes "daemon_exact memo_env s"
  obtains s' where "start memo_env False open_config (app_store s) = Inr s'"
  using start_resumes [OF assms same_codec_refl open_config_starts memo_env_simps(1) memo_env_simps(1)
    memo_grows] that by blast

lemma memo_built_ok:
  "fresh_for_memo s \<Longrightarrow> built_ok memo_env s (publish_commit memo_env (memo True) s)"
  by (simp add: memo_built built_ok_def memo_admissible fresh_for_memo_def)

end
