(* ===== verification/Races.thy ===== *)
theory Races
  imports Simulation Example
begin

text \<open>
  What interleaving can do that no sequence of whole requests does: executions of the daemon, none
  with a fault, on notes published to one channel by one agent; and the witnesses that rest on them.
\<close>

section \<open>Notes\<close>

definition jot :: "string \<Rightarrow> state_delta" where
  "jot text = (memo_delta True)\<lparr>sd_summary := text\<rparr>"

definition jot_request :: "string \<Rightarrow> publish_delta_request" where
  "jot_request text = \<lparr>pd_delta = Some (jot text), pd_parent_commit_ids = [], pd_objective = []\<rparr>"

definition jot_env :: env where
  "jot_env = example_env\<lparr>encode_commit := cm_summary\<rparr>"

definition jot_commit :: "string \<Rightarrow> string list \<Rightarrow> commit" where
  "jot_commit text parents = from_delta jot_env (jot text) parents memo_payload
     \<lparr>rr_findings = [], rr_redacted = False\<rparr> (publish_extras [] [])"

definition jot_id :: "string \<Rightarrow> string" where
  "jot_id text = ''c_'' @ take 32 (text @ pad)"

text \<open>The commits of the executions; \<open>y\<close> is on top of \<open>x\<close>, and \<open>z\<close> on top of \<open>y\<close>.\<close>

definition jots :: "(string \<times> commit) list" where
  "jots = [(''x'', jot_commit ''x'' []), (''w'', jot_commit ''w'' []),
     (''y'', jot_commit ''y'' [jot_id ''x'']), (''z'', jot_commit ''z'' [jot_id ''y''])]"

definition race_env :: env where
  "race_env = jot_env\<lparr>decode_commit := \<lambda>bs. case map_of jots bs of
     None \<Rightarrow> Inl (Anyhow ''decode'') | Some c \<Rightarrow> Inr c\<rparr>"

definition race_named :: "string \<Rightarrow> commit option" where
  "race_named = map_of (map (\<lambda>(text, c). (jot_id text, c)) jots)"

lemma race_env_simps [simp]:
  "db_fault race_env op = None" "fs_fault race_env f = None" "json_print race_env v = Inr ''{}''"
  "receiver race_env i = Stalls" "encode_commit race_env c = cm_summary c"
  "encode_commit jot_env c = cm_summary c"
  by (simp_all add: race_env_def jot_env_def example_env_def)

lemma reliable_race [simp]: "reliable race_env"
  by (simp add: reliable_def)

lemma jot_commit_simps [simp]:
  "cm_summary (jot_commit text ps) = text" "cm_parent_commit_ids (jot_commit text ps) = ps"
  "cm_commit_id (jot_commit text ps) = jot_id text"
  "cm_run_id (jot_commit text ps) = ''r''" "cm_thread_id (jot_commit text ps) = ''t''"
  "cm_agent_id (jot_commit text ps) = ''a''" "cm_channel (jot_commit text ps) = ''topic:c''"
  "cm_external_side_effects (jot_commit text ps) = []"
  by (simp_all add: jot_commit_def jot_def memo_delta_def publish_extras_def)
    (simp add: from_delta_def seal_def unsealed_def jot_env_def example_env_def blake3_hex_def jot_id_def Let_def min_def)

lemma race_sealed: "from_delta race_env d ps p r x = from_delta jot_env d ps p r x"
  by (simp add: from_delta_def seal_def race_env_def blake3_hex_def)

lemma jot_ids [simp]:
  "jot_id ''x'' \<noteq> jot_id ''w''" "jot_id ''x'' \<noteq> jot_id ''y''" "jot_id ''x'' \<noteq> jot_id ''z''"
  "jot_id ''w'' \<noteq> jot_id ''y''" "jot_id ''w'' \<noteq> jot_id ''z''" "jot_id ''y'' \<noteq> jot_id ''z''"
  "jot_id text \<noteq> []"
  by (simp_all add: jot_id_def pad_def)

lemma jot_known [simp]:
  "known race_env race_named (jot_commit ''x'' [])" "known race_env race_named (jot_commit ''w'' [])"
  "known race_env race_named (jot_commit ''y'' [jot_id ''x''])"
  "known race_env race_named (jot_commit ''z'' [jot_id ''y''])"
  by (simp_all add: known_def codec_ok_def race_named_def jots_def race_env_def jot_ids(1-6) [symmetric])

lemma jot_fields [simp]:
  "pd_delta (jot_request text) = Some (jot text)" "pd_parent_commit_ids (jot_request text) = []"
  "pd_objective (jot_request text) = []" "sd_durable (jot text)" "sd_agent_id (jot text) = ''a''"
  "sd_run_id (jot text) = ''r''" "sd_thread_id (jot text) = ''t''" "sd_channel (jot text) = ''topic:c''"
  "normalize_delta E (jot text) = jot text" "jot text\<lparr>sd_payload := Some memo_payload\<rparr> = jot text"
  "sd_payload (jot text) = Some memo_payload"
  by (simp_all add: jot_request_def jot_def memo_delta_def normalize_delta_def)

section \<open>A publish up to its commit\<close>

definition head_ids :: "app_state \<Rightarrow> string list" where
  "head_ids s = (case map_of (st_heads (app_store s)) (head_key ''r'' ''t'' ''a'' ''topic:c'') of
     None \<Rightarrow> [] | Some h \<Rightarrow> [hd_commit_id h])"

abbreviation jot_reply :: "string \<Rightarrow> reply" where
  "jot_reply text \<equiv> op_reply (WPublish (jot_request text)) (jot text) (jot_id text)
     \<lparr>rr_findings = [], rr_redacted = False\<rparr>"

definition jot_answer :: "string \<Rightarrow> publish_delta_response" where
  "jot_answer text =
     \<lparr>pr_delta_id = sd_delta_id (jot text), pr_commit_id = jot_id text, pr_accepted = True, pr_persisted = True,
      pr_warning = [], pr_redaction_report = Some \<lparr>rr_findings = [], rr_redacted = False\<rparr>\<rparr>"

lemma jot_reply_eq: "jot_reply text = PublishReply (jot_answer text)"
  by (simp add: op_reply_def jot_answer_def)

lemma jot_answer_simps [simp]: "pr_persisted (jot_answer text)" "pr_commit_id (jot_answer text) = jot_id text"
  by (simp_all add: jot_answer_def)

abbreviation persisting :: "string \<Rightarrow> string list \<Rightarrow> task" where
  "persisting text parents \<equiv> Persist CheckParents race_env (jot text) (jot_commit text parents) (jot_reply text)"

abbreviation race_steps :: "app_state \<times> task list \<Rightarrow> app_state \<times> task list \<Rightarrow> bool" where
  "race_steps \<equiv> requests_steps race_env False race_named"

lemma race_trans: "race_steps p q \<Longrightarrow> race_steps q r \<Longrightarrow> race_steps p r"
  by (rule rtranclp_trans)

lemma jot_prepared:
  assumes "app_config s = open_config"
  shows "prepare_payload race_env (Some memo_payload) s
    = (s, Done (memo_payload, \<lparr>rr_findings = [], rr_redacted = False\<rparr>, []))"
  using assms by (simp add: prepare_payload_def fill_payload_def memo_payload_def Let_def)

lemma jot_begins:
  assumes "app_config s = open_config" "known race_env race_named (jot_commit text (head_ids s))"
  shows "alone race_env race_named (s, Begin race_env (WPublish (jot_request text)))
    (s, persisting text (head_ids s))"
proof -
  let ?op = "WPublish (jot_request text)"
  have "resolve_parents race_env (jot text) [] s = Inr (head_ids s)"
    by (simp add: resolve_parents_def get_head_def head_ids_def split: option.splits)
  then have "resolve_step race_env ?op (jot text) memo_payload \<lparr>rr_findings = [], rr_redacted = False\<rparr> [] s
      = persisting text (head_ids s)"
    by (simp add: resolve_step_def op_parents_def op_extras_def race_sealed jot_commit_def [symmetric] Let_def)
  then have "alone race_env race_named
      (s, Resolve race_env ?op (jot text) memo_payload \<lparr>rr_findings = [], rr_redacted = False\<rparr> [])
      (s, persisting text (head_ids s))"
    by (intro alone_step [OF _ solo.stop]) (use assms(2) in auto)
  then have "alone race_env race_named (s, Prepare race_env ?op (jot text)) (s, persisting text (head_ids s))"
    by (rule alone_step [rotated]) (simp_all add: prepare_step_def jot_prepared assms(1) Let_def)
  then show ?thesis
    by (rule alone_step [rotated])
      (simp_all add: begin_op_def begin_publish_def ensure_channel_permission_def assms(1))
qed

text \<open>The arrival of the request, and its run up to the commit, while the others stay where they are.\<close>

lemma jot_arrives:
  assumes "app_config s = open_config" "known race_env race_named (jot_commit text (head_ids s))"
  shows "race_steps (s, ts) (s, ts @ [persisting text (head_ids s)])"
proof -
  let ?b = "Begin race_env (WPublish (jot_request text))"
  have "requests_step race_env False race_named (s, ts) (s, ts @ [?b])"
    by (intro pool_step.arrive arrives.intros) simp_all
  moreover have "race_steps (s, ts @ [?b]) (s, ts @ [persisting text (head_ids s)])"
    using solo_in_pool [OF jot_begins [OF assms], of "length ts" "ts @ [?b]"] by simp
  ultimately show ?thesis by (rule converse_rtranclp_into_rtranclp)
qed

section \<open>Finishing a publish\<close>

text \<open>States in which a publish runs to its end: nobody subscribes, loops are not looked for.\<close>

definition calm :: "app_state \<Rightarrow> bool" where
  "calm s \<longleftrightarrow> app_config s = open_config \<and> bus_subscriptions (app_bus s) = [] \<and> queues_ok (app_bus s)
     \<and> requests_ok race_env race_named s"

lemma calm_initial: "calm (initial_state open_config)"
  by (simp add: calm_def requests_ok_initial)
    (simp add: initial_state_def new_state_def new_bus_def queues_ok_def queue_of_def dead_queue_def queue_ok_def)

lemma alone_kept:
  assumes "alone E0 named (s, t) (s', t')" "requests_ok E0 named s" "task_ok E0 lossy named s t"
  shows "requests_ok E0 named s' \<and> only_grows E0 s s'"
proof -
  have "requests_steps E0 lossy named (s, [t]) (s', [t'])"
    using solo_in_pool [OF assms(1), of 0 "[t]"] by simp
  moreover have "requests.pool_ok E0 named lossy (s, [t])" using assms(2,3) by (simp add: requests.pool_ok_def)
  ultimately show ?thesis using requests.pool_steps_ok by (fastforce simp: requests.pool_ok_def)
qed

lemma jot_persists:
  assumes "requests_ok race_env race_named s" "set ps \<subseteq> known_ids s" "jot_id text \<notin> known_ids s"
  obtains s' where "persist_commit race_env (jot_commit text ps) s = (s', Done ())"
    "dg_parents (app_dag s') = dg_parents (app_dag s) @ [(jot_id text, ps)]" "app_config s' = app_config s"
    "bus_subscriptions (app_bus s') = bus_subscriptions (app_bus s)" "bus_queues (app_bus s') = bus_queues (app_bus s)"
proof -
  let ?c = "jot_commit text ps"
  have "dag_ok (app_dag s)" using assms(1) by (simp add: requests_ok_def ledger_ok_def ledger_of_def)
  note fresh = append_fresh [OF this, of ?c]
  have new: "cm_commit_id ?c \<notin> set (keys (dg_parents (app_dag s)))"
    using assms(3) unfolding known_ids_def by simp
  have "is_ok (append (app_dag s) ?c)"
    using fresh(1) [OF new] assms(2) unfolding known_ids_def by simp
  then obtain d where d1: "append (app_dag s) ?c = Inr d" by (rule is_okE)
  have d: "append (app_dag s) ?c = Inr d" "dg_parents d = dg_parents (app_dag s) @ [(jot_id text, ps)]"
    using d1 fresh(2) [OF new d1] by (simp_all add: parent_row_def)
  obtain st where st: "append_commit race_env ?c (app_store s) = Inr st" using reliable_append [OF reliable_race] by blast
  obtain st' where st': "set_head race_env ''r'' ''t'' ''a'' ''topic:c'' (jot_id text) st = Inr st'"
    by (simp add: set_head_def Let_def)
  show ?thesis using that d st st' by (simp add: persist_commit_def Let_def count_metric_def)
qed

lemma jot_commits:
  assumes "calm s" "set ps \<subseteq> known_ids s" "jot_id text \<notin> known_ids s"
  obtains s' where "commit_and_broadcast race_env (jot text) (jot_commit text ps) s = (s', Done ())"
    "dg_parents (app_dag s') = dg_parents (app_dag s) @ [(jot_id text, ps)]"
    "app_config s' = open_config" "bus_subscriptions (app_bus s') = []" "queues_ok (app_bus s')"
proof -
  have "requests_ok race_env race_named s" using assms(1) by (simp add: calm_def)
  then obtain s1 where s1: "persist_commit race_env (jot_commit text ps) s = (s1, Done ())"
    "dg_parents (app_dag s1) = dg_parents (app_dag s) @ [(jot_id text, ps)]" "app_config s1 = app_config s"
    "bus_subscriptions (app_bus s1) = bus_subscriptions (app_bus s)" "bus_queues (app_bus s1) = bus_queues (app_bus s)"
    using assms(2,3) by (rule jot_persists)
  have calm: "app_config s1 = open_config" "bus_subscriptions (app_bus s1) = []" "queues_ok (app_bus s1)"
    using assms(1) s1 queues_ok_cong [OF s1(5)] by (simp_all add: calm_def)
  obtain s2 u where s2: "send_broadcast race_env (jot text) (jot_id text) s1 = (s2, u)"
    by (cases "send_broadcast race_env (jot text) (jot_id text) s1")
  have "u = Done ()" "bus_subscriptions (app_bus s2) = []"
    using s2 calm(2) by (auto simp: send_broadcast_def broadcast_def targets_of_def Let_def push_recent_def update_channel_def)
  moreover have "app_dag s2 = app_dag s1" "app_config s2 = open_config"
    using send_broadcast_simps(1,3) [of race_env "jot text" "jot_id text" s1] s2 calm by simp_all
  moreover have "queues_ok (app_bus s2)" using s2 calm(3) by (rule queues_ok_broadcast)
  ultimately show ?thesis
    using that [of s2] s1 s2 by (simp add: commit_and_broadcast_def inspect_off)
qed

lemma jot_finishes:
  assumes "calm s" "known race_env race_named (jot_commit text ps)" "set ps \<subseteq> known_ids s"
    "jot_id text \<notin> known_ids s"
  obtains s' where "alone race_env race_named (s, persisting text ps) (s', answer_with (jot_reply text))"
    "calm s'" "head_ids s' = [jot_id text]" "history race_env (app_store s') (jot_id text) = Some (jot_commit text ps)"
    "dg_parents (app_dag s') = dg_parents (app_dag s) @ [(jot_id text, ps)]"
    "known_ids s' = insert (jot_id text) (known_ids s)" "only_grows race_env s s'"
proof -
  obtain s' where s': "commit_and_broadcast race_env (jot text) (jot_commit text ps) s = (s', Done ())"
    "dg_parents (app_dag s') = dg_parents (app_dag s) @ [(jot_id text, ps)]"
    "app_config s' = open_config" "bus_subscriptions (app_bus s') = []" "queues_ok (app_bus s')"
    using jot_commits [OF assms(1,3,4)] by metis
  have q: "queues_ok (app_bus s)" using assms(1) by (simp add: calm_def)
  have run: "alone race_env race_named (s, persisting text ps) (s', answer_with (jot_reply text))"
    using alone_commit [OF s'(1) q assms(2), of "jot_reply text"] by (auto simp: answered_def)
  have ok: "requests_ok race_env race_named s" using assms(1) by (simp add: calm_def)
  have kept: "requests_ok race_env race_named s' \<and> only_grows race_env s s'"
    using alone_kept [OF run ok, of False] assms(2) by (simp add: trusted_def)
  have "store_ok race_env (app_store s)" using ok by (simp add: requests_ok_def ledger_ok_def ledger_of_def)
  then have p: "persisted race_env (jot_commit text ps) s'"
    using s'(1) known_admissible [OF ok assms(2)] by (intro commit_and_broadcast_persisted [where r = "Done ()"]) simp_all
  show ?thesis
  proof (rule that [OF run])
    show "calm s'" using kept s' by (simp add: calm_def)
    show "head_ids s' = [jot_id text]" using p by (auto simp: persisted_def head_ids_def split: option.splits)
    show "history race_env (app_store s') (jot_id text) = Some (jot_commit text ps)" using p by (simp add: persisted_def)
    show "known_ids s' = insert (jot_id text) (known_ids s)" by (auto simp: known_ids_def s'(2))
  qed (use kept s' in simp_all)
qed

lemma solo_at:
  assumes "alone race_env race_named (s, t) (s', t')"
  shows "race_steps (s, us @ t # vs) (s', us @ t' # vs)"
  using solo_in_pool [OF assms, of "length us" "us @ t # vs"] by simp

lemma initial_empty [simp]:
  "head_ids (initial_state config) = []" "known_ids (initial_state config) = {}"
  "dg_parents (app_dag (initial_state config)) = []" "app_config (initial_state config) = config"
  by (simp_all add: head_ids_def known_ids_def initial_state_def new_state_def open_store_def dag_default_def)

lemma head_idsD:
  "head_ids s = [i] \<Longrightarrow> get_head race_env (app_store s) ''r'' ''t'' ''a'' ''topic:c'' = Inr (Some i)"
  by (auto simp: head_ids_def get_head_def split: option.splits)

lemma calm_config: "calm s \<Longrightarrow> app_config s = open_config"
  by (simp add: calm_def)

section \<open>Two publishes at the same time\<close>

text \<open>
  Claim C11. One after the other, publishes form a chain: a publish that names no parents has the
  head of its run, thread, agent and channel as its only parent, so that the old head is an ancestor
  of the new one and no published state falls off the history of the head.
\<close>

theorem publish_extends_head:
  assumes "publish_delta_inner E q s = (s', Done r)" "pr_persisted r"
    and "pd_delta q = Some d" "pd_parent_commit_ids q = []"
    and "get_head E (app_store s) (sd_run_id d) (sd_thread_id d) (sd_agent_id d) (sd_channel d) = Inr (Some h)"
  shows "map_of (dg_parents (app_dag s')) (pr_commit_id r) = Some [h] \<and> is_ancestor (app_dag s') h (pr_commit_id r)"
proof -
  obtain t e c where t: "same_ledger s t" "publish_commit E q s = Some c"
    "commit_and_broadcast E e c t = (s', Done ())" "pr_commit_id r = cm_commit_id c"
    using assms(1,2) by (rule publish_Done)
  obtain u v where u: "prepare_payload E (sd_payload (normalize_delta E d)) s = (u, v)" by fastforce
  have head: "get_head E (app_store u) = get_head E (app_store s)"
    using prepare_payload_ledger(1) [of s E "sd_payload (normalize_delta E d)"] u
    by (intro get_head_cong) (simp add: same_ledger_def)
  have parents: "cm_parent_commit_ids c = [h]"
    using t(2) assms(3-5) u head
    by (auto simp: publish_commit_def Let_def resolve_parents_def split: sum.splits outcome.splits if_splits)
  obtain u where u: "persist_commit E c t = (u, Done ())"
    using t(3) by (auto simp: commit_and_broadcast_def after_Done)
  have "app_dag s' = app_dag u"
    using t(3) u inspect_loop_ledger [of _ E c] send_broadcast_store
    by (auto simp: commit_and_broadcast_def after_Done same_ledger_def) (metis fst_conv)
  moreover have "map_of (dg_parents (app_dag u)) (cm_commit_id c) = Some [h]"
    using u parents by (auto simp: persist_commit_def Let_def append_parents split: sum.splits)
  ultimately have "map_of (dg_parents (app_dag s')) (pr_commit_id r) = Some [h]" using t(4) by simp
  moreover from this have "(pr_commit_id r, h) \<in> edges (dg_parents (app_dag s'))" by (auto simp: edges_def)
  ultimately show ?thesis by (auto simp: is_ancestor_rtrancl)
qed

lemma two_jots:
  obtains s where "race_steps (initial_state open_config, [])
      (s, [answer_with (jot_reply ''x''), answer_with (jot_reply ''w'')])"
    "jot_id ''x'' \<in> stored_ids race_env s" "head_ids s = [jot_id ''w'']"
    "dg_parents (app_dag s) = [(jot_id ''x'', []), (jot_id ''w'', [])]"
proof -
  let ?s0 = "initial_state open_config" and ?x = "persisting ''x'' []" and ?w = "persisting ''w'' []"
  have a: "race_steps (?s0, []) (?s0, [?x])" "race_steps (?s0, [?x]) (?s0, [?x, ?w])"
    using jot_arrives [of ?s0 "''x''" "[]"] jot_arrives [of ?s0 "''w''" "[?x]"] by simp_all
  obtain s1 where s1: "alone race_env race_named (?s0, ?x) (s1, answer_with (jot_reply ''x''))"
    "calm s1" "history race_env (app_store s1) (jot_id ''x'') = Some (jot_commit ''x'' [])"
    "dg_parents (app_dag s1) = [(jot_id ''x'', [])]" "known_ids s1 = {jot_id ''x''}"
    using jot_finishes [OF calm_initial, of "''x''" "[]"] by auto
  obtain s2 where s2: "alone race_env race_named (s1, ?w) (s2, answer_with (jot_reply ''w''))"
    "head_ids s2 = [jot_id ''w'']" "only_grows race_env s1 s2"
    "dg_parents (app_dag s2) = dg_parents (app_dag s1) @ [(jot_id ''w'', [])]"
    by (rule jot_finishes [OF s1(2), of "''w''" "[]"]) (simp_all add: s1(5) jot_ids(1) [symmetric])
  have r1: "race_steps (?s0, [?x, ?w]) (s1, [answer_with (jot_reply ''x''), ?w])"
    using solo_at [OF s1(1), of "[]" "[?w]"] by simp
  have r2: "race_steps (s1, [answer_with (jot_reply ''x''), ?w])
      (s2, [answer_with (jot_reply ''x''), answer_with (jot_reply ''w'')])"
    using solo_at [OF s2(1), of "[answer_with (jot_reply ''x'')]" "[]"] by simp
  have run: "race_steps (?s0, []) (s2, [answer_with (jot_reply ''x''), answer_with (jot_reply ''w'')])"
    by (rule race_trans [OF a(1) race_trans [OF a(2) race_trans [OF r1 r2]]])
  have "jot_id ''x'' \<in> stored_ids race_env s2"
    using s1(3) stored_grows [OF s2(3)] by (auto simp: stored_ids_def)
  then show ?thesis using that [OF run] s2(2,4) s1(4) by simp
qed

text \<open>
  Claim C12. At the same time they need not: two publishes of one agent to one channel, without any
  fault, are both answered as persisted and both stored, but both were built on the head from before
  either of them, and the one that moves the head last wins: the other is not an ancestor of the
  head.
\<close>

theorem concurrent_publish_forks_history:
  "\<exists>s rx rw. race_steps (initial_state open_config, [])
       (s, [answer_with (PublishReply rx), answer_with (PublishReply rw)])
     \<and> pr_persisted rx \<and> pr_commit_id rx = jot_id ''x'' \<and> jot_id ''x'' \<in> stored_ids race_env s
     \<and> pr_persisted rw \<and> pr_commit_id rw = jot_id ''w''
     \<and> get_head race_env (app_store s) ''r'' ''t'' ''a'' ''topic:c'' = Inr (Some (jot_id ''w''))
     \<and> \<not> is_ancestor (app_dag s) (jot_id ''x'') (jot_id ''w'')"
proof -
  obtain s where s: "race_steps (initial_state open_config, [])
      (s, [answer_with (jot_reply ''x''), answer_with (jot_reply ''w'')])"
    "jot_id ''x'' \<in> stored_ids race_env s" "head_ids s = [jot_id ''w'']"
    "dg_parents (app_dag s) = [(jot_id ''x'', []), (jot_id ''w'', [])]"
    by (rule two_jots)
  have "edges (dg_parents (app_dag s)) = {}" by (auto simp: s(4) edges_def split: if_splits)
  then have "\<not> is_ancestor (app_dag s) (jot_id ''x'') (jot_id ''w'')"
    by (simp add: is_ancestor_rtrancl jot_ids(1) [symmetric])
  then show ?thesis using s(1,2) head_idsD [OF s(3)] jot_answer_simps unfolding jot_reply_eq by blast
qed

section \<open>A rollback while a publish is under way\<close>

definition jot_back :: rollback_request where
  "jot_back = \<lparr>rb_head_commit_id = jot_id ''y'', rb_target_commit_id = jot_id ''x'', rb_force = False\<rparr>"

lemma jot_rolls_back:
  assumes "calm s" "dg_parents (app_dag s) = [(jot_id ''x'', []), (jot_id ''y'', [jot_id ''x''])]"
    and "history race_env (app_store s) (jot_id ''x'') = Some (jot_commit ''x'' [])"
    and "history race_env (app_store s) (jot_id ''y'') = Some (jot_commit ''y'' [jot_id ''x''])"
  obtains s' r where "alone race_env race_named (s, Begin race_env (WRollback jot_back)) (s', answer_with (RollbackReply r))"
    "rbr_moved r" "rbr_new_head_commit_id r = jot_id ''x''" "calm s'" "head_ids s' = [jot_id ''x'']"
    "app_dag s' = app_dag s"
proof -
  have ok: "store_ok race_env (app_store s)"
    using assms(1) by (simp add: calm_def requests_ok_def ledger_ok_def ledger_of_def)
  have older: "is_ancestor (app_dag s) (jot_id ''x'') (jot_id ''y'')"
    "ancestry (app_dag s) (jot_id ''y'') = [jot_id ''x'', jot_id ''y'']"
    using jot_ids(2) assms(2)
    by (simp_all add: is_ancestor_def reachable_locked_def ancestry_def collect_ancestry_def jot_ids(2) [symmetric])
  have rows: "get_commit race_env (app_store s) i = Inr (history race_env (app_store s) i)" for i
    using ok by (simp add: get_commit_ok)
  have run: "\<exists>st r. rollback race_env (app_dag s) jot_back (app_store s) = (st, Inr r)
      \<and> rbr_moved r \<and> rbr_new_head_commit_id r = jot_id ''x''
      \<and> map_option hd_commit_id (map_of (st_heads st) (head_key ''r'' ''t'' ''a'' ''topic:c'')) = Some (jot_id ''x'')"
    using older rows assms(3,4)
    by (simp add: rollback_def jot_back_def set_head_def append_event_defs Let_def update_conv map_add_def
        split: option.splits)
  then obtain st r where st: "rollback race_env (app_dag s) jot_back (app_store s) = (st, Inr r)"
    "rbr_moved r" "rbr_new_head_commit_id r = jot_id ''x''"
    "map_option hd_commit_id (map_of (st_heads st) (head_key ''r'' ''t'' ''a'' ''topic:c'')) = Some (jot_id ''x'')"
    by blast
  let ?s = "s\<lparr>app_store := st\<rparr>"
  have "handle_op race_env (WRollback jot_back) s = (?s, Done (RollbackReply r))"
    by (simp add: handle_op_def rollback_inner_def st(1))
  then obtain t where t: "alone race_env race_named (s, Begin race_env (WRollback jot_back)) (?s, t)"
    "comes_to ?s t (Done (RollbackReply r))" using alone_rollback by blast
  show ?thesis
  proof (rule that [of ?s r])
    show "alone race_env race_named (s, Begin race_env (WRollback jot_back)) (?s, answer_with (RollbackReply r))"
      using t by simp
    show "calm ?s" using assms(1) alone_kept [OF t(1), of False] by (simp add: calm_def trusted_def)
    show "head_ids ?s = [jot_id ''x'']" using st(4) by (auto simp: head_ids_def)
  qed (use st(2,3) in simp_all)
qed

lemma x_then_y:
  obtains s where "race_steps (initial_state open_config, [])
      (s, [answer_with (jot_reply ''x''), answer_with (jot_reply ''y'')])"
    "calm s" "head_ids s = [jot_id ''y'']"
    "dg_parents (app_dag s) = [(jot_id ''x'', []), (jot_id ''y'', [jot_id ''x''])]"
    "history race_env (app_store s) (jot_id ''x'') = Some (jot_commit ''x'' [])"
    "history race_env (app_store s) (jot_id ''y'') = Some (jot_commit ''y'' [jot_id ''x''])"
proof -
  let ?s0 = "initial_state open_config"
  let ?x = "persisting ''x'' []" and ?y = "persisting ''y'' [jot_id ''x'']"
  let ?rx = "answer_with (jot_reply ''x'')" and ?ry = "answer_with (jot_reply ''y'')"
  obtain s1 where s1: "alone race_env race_named (?s0, ?x) (s1, ?rx)" "calm s1" "head_ids s1 = [jot_id ''x'']"
    "history race_env (app_store s1) (jot_id ''x'') = Some (jot_commit ''x'' [])"
    "dg_parents (app_dag s1) = [(jot_id ''x'', [])]" "known_ids s1 = {jot_id ''x''}"
    by (rule jot_finishes [OF calm_initial, of "''x''" "[]"]) auto
  obtain s2 where s2: "alone race_env race_named (s1, ?y) (s2, ?ry)" "calm s2" "head_ids s2 = [jot_id ''y'']"
    "history race_env (app_store s2) (jot_id ''y'') = Some (jot_commit ''y'' [jot_id ''x''])"
    "dg_parents (app_dag s2) = dg_parents (app_dag s1) @ [(jot_id ''y'', [jot_id ''x''])]" "only_grows race_env s1 s2"
    by (rule jot_finishes [OF s1(2), of "''y''" "[jot_id ''x'']"]) (simp_all add: s1(6) jot_ids(2) [symmetric])
  have x: "history race_env (app_store s2) (jot_id ''x'') = Some (jot_commit ''x'' [])"
    using s1(4) s2(6) by (metis domI map_le_def only_grows_def)
  have r1: "race_steps (?s0, []) (?s0, [?x])" using jot_arrives [of ?s0 "''x''" "[]"] by simp
  have r2: "race_steps (?s0, [?x]) (s1, [?rx])" using solo_at [OF s1(1), of "[]" "[]"] by simp
  have r3: "race_steps (s1, [?rx]) (s1, [?rx, ?y])"
    using jot_arrives [OF calm_config [OF s1(2)], of "''y''" "[?rx]"] by (simp add: s1(3))
  have r4: "race_steps (s1, [?rx, ?y]) (s2, [?rx, ?ry])" using solo_at [OF s2(1), of "[?rx]" "[]"] by simp
  have "dg_parents (app_dag s2) = [(jot_id ''x'', []), (jot_id ''y'', [jot_id ''x''])]" by (simp add: s2(5) s1(5))
  from race_trans [OF r1 race_trans [OF r2 race_trans [OF r3 r4]]] s2(2,3) this x s2(4) show ?thesis by (rule that)
qed

text \<open>
  Claim C13. A rollback does not stop a publish that was under way: without any fault, the head has
  moved from \<open>y\<close> back to \<open>x\<close> and the caller has the answer that says so; then a publish that had
  already read \<open>y\<close> as the head finishes, and the head is its commit, on top of the commit that the
  rollback had taken back.
\<close>

theorem rollback_undone_by_publish:
  "\<exists>s t rx ry rz rb. race_steps (initial_state open_config, [])
       (s, [answer_with (PublishReply rx), answer_with (PublishReply ry), persisting ''z'' [jot_id ''y''],
            answer_with (RollbackReply rb)])
     \<and> rbr_moved rb \<and> rbr_new_head_commit_id rb = jot_id ''x''
     \<and> get_head race_env (app_store s) ''r'' ''t'' ''a'' ''topic:c'' = Inr (Some (jot_id ''x''))
     \<and> race_steps (s, [answer_with (PublishReply rx), answer_with (PublishReply ry), persisting ''z'' [jot_id ''y''],
            answer_with (RollbackReply rb)])
         (t, [answer_with (PublishReply rx), answer_with (PublishReply ry), answer_with (PublishReply rz),
            answer_with (RollbackReply rb)])
     \<and> pr_persisted rz \<and> pr_commit_id rz = jot_id ''z''
     \<and> get_head race_env (app_store t) ''r'' ''t'' ''a'' ''topic:c'' = Inr (Some (jot_id ''z''))
     \<and> is_ancestor (app_dag t) (jot_id ''y'') (jot_id ''z'')"
proof -
  let ?undo = "Begin race_env (WRollback jot_back)" and ?z = "persisting ''z'' [jot_id ''y'']"
  let ?rx = "answer_with (jot_reply ''x'')" and ?ry = "answer_with (jot_reply ''y'')"
    and ?rz = "answer_with (jot_reply ''z'')"
  obtain s2 where s2: "race_steps (initial_state open_config, []) (s2, [?rx, ?ry])"
    "calm s2" "head_ids s2 = [jot_id ''y'']"
    "dg_parents (app_dag s2) = [(jot_id ''x'', []), (jot_id ''y'', [jot_id ''x''])]"
    "history race_env (app_store s2) (jot_id ''x'') = Some (jot_commit ''x'' [])"
    "history race_env (app_store s2) (jot_id ''y'') = Some (jot_commit ''y'' [jot_id ''x''])"
    by (rule x_then_y)
  obtain s3 r where s3: "alone race_env race_named (s2, ?undo) (s3, answer_with (RollbackReply r))"
    "rbr_moved r" "rbr_new_head_commit_id r = jot_id ''x''" "calm s3" "head_ids s3 = [jot_id ''x'']"
    "app_dag s3 = app_dag s2"
    using s2(2,4-6) by (rule jot_rolls_back)
  obtain s4 where s4: "alone race_env race_named (s3, ?z) (s4, ?rz)" "head_ids s4 = [jot_id ''z'']"
    "dg_parents (app_dag s4) = dg_parents (app_dag s3) @ [(jot_id ''z'', [jot_id ''y''])]"
    by (rule jot_finishes [OF s3(4), of "''z''" "[jot_id ''y'']"])
      (simp_all add: known_ids_def s3(6) s2(4) jot_ids(3,6) [symmetric])
  have r1: "race_steps (s2, [?rx, ?ry]) (s2, [?rx, ?ry, ?z])"
    using jot_arrives [OF calm_config [OF s2(2)], of "''z''" "[?rx, ?ry]"] by (simp add: s2(3))
  have "requests_step race_env False race_named (s2, [?rx, ?ry, ?z]) (s2, [?rx, ?ry, ?z] @ [?undo])"
    by (intro pool_step.arrive arrives.intros) simp_all
  then have r2: "race_steps (s2, [?rx, ?ry, ?z]) (s2, [?rx, ?ry, ?z, ?undo])" by simp
  have r3: "race_steps (s2, [?rx, ?ry, ?z, ?undo]) (s3, [?rx, ?ry, ?z, answer_with (RollbackReply r)])"
    using solo_at [OF s3(1), of "[?rx, ?ry, ?z]" "[]"] by simp
  note run = race_trans [OF s2(1) race_trans [OF r1 race_trans [OF r2 r3]]]
  have last: "race_steps (s3, [?rx, ?ry, ?z, answer_with (RollbackReply r)]) (s4, [?rx, ?ry, ?rz, answer_with (RollbackReply r)])"
    using solo_at [OF s4(1), of "[?rx, ?ry]" "[answer_with (RollbackReply r)]"] by simp
  have "(jot_id ''z'', jot_id ''y'') \<in> edges (dg_parents (app_dag s4))"
    by (simp add: s4(3) s3(6) s2(4) edges_def jot_ids [symmetric])
  then have "is_ancestor (app_dag s4) (jot_id ''y'') (jot_id ''z'')" by (auto simp: is_ancestor_rtrancl)
  then show ?thesis
    using run last s3(2,3) head_idsD [OF s3(5)] head_idsD [OF s4(2)] jot_answer_simps unfolding jot_reply_eq by blast
qed

section \<open>Witnesses\<close>

lemma jot_published:
  assumes "calm s" "set (head_ids s) \<subseteq> known_ids s" "jot_id text \<notin> known_ids s"
  obtains s' where "publish_delta_inner race_env (jot_request text) s = (s', Done (jot_answer text))"
    "publish_commit race_env (jot_request text) s = Some (jot_commit text (head_ids s))"
proof -
  obtain s' where s': "commit_and_broadcast race_env (jot text) (jot_commit text (head_ids s)) s = (s', Done ())"
    using assms by (rule jot_commits)
  have "resolve_parents race_env (jot text) [] s = Inr (head_ids s)"
    by (simp add: resolve_parents_def get_head_def head_ids_def split: option.splits)
  note steps = jot_prepared [OF calm_config [OF assms(1)]] this calm_config [OF assms(1)]
  show ?thesis
    by (rule that [of s'])
      (simp_all add: publish_delta_inner_def publish_commit_def steps ensure_channel_permission_def Let_def race_sealed
        jot_commit_def [symmetric] s' jot_answer_def)
qed

theorem interleaved_requests_ok_witness:
  "\<exists>s. race_steps (initial_state open_config, [])
       (s, [answer_with (jot_reply ''x''), answer_with (jot_reply ''w'')])
     \<and> ledger_ok race_env (ledger_of s) \<and> jot_id ''w'' \<in> stored_ids race_env s
     \<and> known_ids s = stored_ids race_env s"
proof -
  obtain s where s: "race_steps (initial_state open_config, [])
      (s, [answer_with (jot_reply ''x''), answer_with (jot_reply ''w'')])" by (rule two_jots)
  have "\<forall>r i. Finished (Done r) \<in> set [answer_with (jot_reply ''x''), answer_with (jot_reply ''w'')]
      \<and> reply_commit r = Some i \<longrightarrow> i \<in> stored_ids race_env s"
    using interleaved_requests_ok [OF s] by blast
  then have "jot_id ''w'' \<in> stored_ids race_env s" by (auto simp: jot_reply_eq dest: spec [of _ "jot_reply ''w''"])
  then show ?thesis using interleaved_requests_ok [OF s] s by auto
qed

theorem publish_extends_head_witness:
  "\<exists>s s'. head_ids s = [jot_id ''x'']
     \<and> publish_delta_inner race_env (jot_request ''y'') s = (s', Done (jot_answer ''y''))
     \<and> map_of (dg_parents (app_dag s')) (jot_id ''y'') = Some [jot_id ''x'']"
proof -
  obtain s where s: "calm s" "head_ids s = [jot_id ''x'']" "known_ids s = {jot_id ''x''}"
    by (rule jot_finishes [OF calm_initial, of "''x''" "[]"]) auto
  obtain s' where s': "publish_delta_inner race_env (jot_request ''y'') s = (s', Done (jot_answer ''y''))"
    by (rule jot_published [OF s(1), of "''y''"]) (simp_all add: s jot_ids(2) [symmetric])
  have "map_of (dg_parents (app_dag s')) (pr_commit_id (jot_answer ''y'')) = Some [jot_id ''x'']"
    using publish_extends_head [OF s', of "jot ''y''" "jot_id ''x''"] head_idsD [OF s(2)] by simp
  then show ?thesis using s' s(2) by auto
qed

theorem sequential_is_interleaving_witness:
  "\<exists>s'. handle_op race_env (WPublish (jot_request ''x'')) (initial_state open_config)
       = (s', Done (PublishReply (jot_answer ''x'')))
     \<and> race_steps (initial_state open_config, []) (s', [answer_with (PublishReply (jot_answer ''x''))])"
proof -
  let ?s0 = "initial_state open_config"
  obtain s' where s': "publish_delta_inner race_env (jot_request ''x'') ?s0 = (s', Done (jot_answer ''x''))"
    "publish_commit race_env (jot_request ''x'') ?s0 = Some (jot_commit ''x'' [])"
    by (rule jot_published [OF calm_initial, of "''x''"]) simp_all
  have h: "handle_op race_env (WPublish (jot_request ''x'')) ?s0 = (s', Done (PublishReply (jot_answer ''x'')))"
    by (simp add: handle_op_def s'(1))
  have "queues_ok (app_bus ?s0)" using calm_initial by (simp add: calm_def)
  then have "race_steps (?s0, []) (s', [answer_with (PublishReply (jot_answer ''x''))])"
    using sequential_is_interleaving [of ?s0 race_env race_env False _ race_named, OF _ _ _ _ h, of "[]"] s'(2)
    by (simp add: op_commit_def)
  then show ?thesis using h by auto
qed

definition empty_request :: publish_delta_request where
  "empty_request = \<lparr>pd_delta = None, pd_parent_commit_ids = [], pd_objective = []\<rparr>"

definition refused_run :: "nat \<Rightarrow> app_state \<times> task list" where
  "refused_run n = (initial_state open_config,
     if n = 0 then [Begin race_env (WPublish empty_request)]
     else [fail (Anyhow ''PublishDeltaRequest.delta is required'')])"

lemma nothing_happens: "other_act (initial_state config) (initial_state config)"
proof -
  let ?h = "\<lparr>hb_agent_id = [], hb_run_id = [], hb_at = None\<rparr>"
  have "handle race_env (Stream (Some (CHeartbeat ?h))) (initial_state config) = initial_state config"
    by (simp add: stream_event_fst heartbeat_def initial_state_def new_state_def new_bus_def)
  then show ?thesis by (metis other_act.heartbeat)
qed

lemma refused_run_steps: "requests_step race_env False race_named (refused_run n) (refused_run (Suc n))"
proof (cases n)
  case 0
  have "task_act race_env race_named (initial_state open_config) (Begin race_env (WPublish empty_request))
      (initial_state open_config) (fail (Anyhow ''PublishDeltaRequest.delta is required''))"
    by (intro task_act.advance) (simp_all add: begin_op_def begin_publish_def empty_request_def)
  then show ?thesis
    using pool_step.act [of 0 "[Begin race_env (WPublish empty_request)]"] 0 by (fastforce simp: refused_run_def)
next
  case (Suc m)
  then show ?thesis by (simp add: refused_run_def pool_step.env nothing_happens)
qed

theorem requests_end_witness:
  "requests_step race_env False race_named (refused_run 0) (refused_run 1)
   \<and> (\<exists>N. snd (refused_run N) ! 0 = fail (Anyhow ''PublishDeltaRequest.delta is required''))"
proof -
  have "\<exists>N t. (\<forall>n\<ge>N. snd (refused_run n) ! 0 = t)
     \<and> (ended t \<or> (\<exists>E delta c q targets k. t = AwaitRoom E delta c q targets k
          \<and> (\<forall>n. \<exists>m\<ge>n. try_send (queue_of (app_bus (fst (refused_run m))) q) = SendFull)))"
  proof (rule requests_end)
    show "\<forall>n. requests_step race_env False race_named (refused_run n) (refused_run (Suc n))"
      using refused_run_steps by blast
    show "\<forall>n. (\<forall>m\<ge>n. advance (snd (refused_run m) ! 0) (fst (refused_run m)) \<noteq> None) \<longrightarrow>
      (\<exists>m\<ge>n. snd (refused_run (Suc m)) ! 0 \<noteq> snd (refused_run m) ! 0)"
    proof (intro allI impI)
      fix n assume "\<forall>m\<ge>n. advance (snd (refused_run m) ! 0) (fst (refused_run m)) \<noteq> None"
      then have "advance (snd (refused_run (Suc n)) ! 0) (fst (refused_run (Suc n))) \<noteq> None" by simp
      then show "\<exists>m\<ge>n. snd (refused_run (Suc m)) ! 0 \<noteq> snd (refused_run m) ! 0" by (simp add: refused_run_def)
    qed
  qed (simp add: refused_run_def)
  then obtain N t where "\<forall>n\<ge>N. snd (refused_run n) ! 0 = t"
    "ended t \<or> (\<exists>E delta c q targets k. t = AwaitRoom E delta c q targets k)" by blast
  then have "snd (refused_run N) ! 0 = t" "ended t \<or> (\<exists>E delta c q targets k. t = AwaitRoom E delta c q targets k)"
    by simp_all
  then have "snd (refused_run N) ! 0 = fail (Anyhow ''PublishDeltaRequest.delta is required'')"
    by (auto simp: refused_run_def split: if_splits)
  then show ?thesis using refused_run_steps [of 0] by auto
qed

end
