(* ===== verification/Delivery.thy ===== *)
theory Delivery
  imports Simulation
begin

text \<open>
  What interleaved requests do to the subscribers: memory stays bounded whatever the order of the
  steps, and no durable delta is lost on the way to a subscriber that stays.
\<close>

section \<open>Bounds\<close>

definition queue_bounded :: "queue \<Rightarrow> bool" where
  "queue_bounded x \<longleftrightarrow> qu_capacity x \<le> 8192 \<and> length (qu_items x) \<le> qu_capacity x"

definition bus_bounded :: "bus \<Rightarrow> bool" where
  "bus_bounded b \<longleftrightarrow> bus_ok b \<and> length (bus_recent_deltas b) \<le> 256 \<and> (\<forall>q. queue_bounded (queue_of b q))"

definition app_bounded :: "config \<Rightarrow> app_state \<Rightarrow> bool" where
  "app_bounded config s \<longleftrightarrow> app_ok config s \<and> bus_bounded (app_bus s)"

lemma bus_bounded_cong:
  "bus_queues b' = bus_queues b \<Longrightarrow> bus_ok b' = bus_ok b \<Longrightarrow> bus_recent_deltas b' = bus_recent_deltas b \<Longrightarrow>
   bus_bounded b' = bus_bounded b"
  by (simp add: bus_bounded_def queue_of_def)

lemma app_bounded_bus:
  "app_bounded config s \<Longrightarrow> bus_bounded b \<Longrightarrow> app_bounded config (s\<lparr>app_bus := b\<rparr>)"
  by (simp add: app_bounded_def app_ok_def bus_bounded_def)

lemma app_boundedD [dest]: "app_bounded config s \<Longrightarrow> bus_bounded (app_bus s)"
  by (simp add: app_bounded_def)

lemma app_bounded_updates [simp]:
  "app_bounded config (s\<lparr>app_store := st\<rparr>) = app_bounded config s"
  "app_bounded config (s\<lparr>app_dag := d\<rparr>) = app_bounded config s"
  by (simp_all add: app_bounded_def)

lemma app_bounded_metric [simp]: "app_bounded config (count_metric m s) = app_bounded config s"
proof -
  have "bus_bounded (app_bus (count_metric m s)) = bus_bounded (app_bus s)"
    by (intro bus_bounded_cong) (simp_all add: count_metric_def)
  then show ?thesis by (simp add: app_bounded_def)
qed

lemma bus_bounded_set_queue:
  assumes "bus_bounded b" "queue_bounded x" shows "bus_bounded (set_queue q x b)"
proof -
  have "bus_ok (set_queue q x b)" using assms(1)
    by (auto simp: bus_bounded_def bus_ok_def list_all_iff set_queue_def set_keys_update simp del: set_map)
  moreover have "bus_recent_deltas (set_queue q x b) = bus_recent_deltas b" by (simp add: set_queue_def)
  ultimately show ?thesis using assms by (simp add: bus_bounded_def queue_of_set_queue)
qed

lemma bus_bounded_push:
  assumes "bus_bounded b" "try_send (queue_of b q) = SendOk" shows "bus_bounded (push_item q m b)"
proof -
  have "queue_bounded (queue_of b q)" using assms(1) by (simp add: bus_bounded_def)
  then have "queue_bounded ((queue_of b q)\<lparr>qu_items := qu_items (queue_of b q) @ [m]\<rparr>)"
    using assms(2) by (auto simp: queue_bounded_def try_send_def split: if_splits)
  then show ?thesis using assms(1) by (simp add: push_item_def Let_def bus_bounded_set_queue)
qed

lemma bus_bounded_drop:
  assumes "bus_bounded b" "try_send (queue_of b q) = SendFull" shows "bus_bounded (record_drop j b)"
proof -
  have "send_one E m False j q b = Some (record_drop j b)" for E m using assms(2) by (simp add: send_one_def)
  then have "bus_ok (record_drop j b)" using send_one_ok assms(1) by (metis bus_bounded_def)
  moreover have "bus_queues (record_drop j b) = bus_queues b" "bus_recent_deltas (record_drop j b) = bus_recent_deltas b"
    by (simp_all add: record_drop_def Let_def split: option.splits)
  ultimately show ?thesis using assms(1) by (simp add: bus_bounded_def queue_of_def)
qed

lemma bus_bounded_delete:
  assumes "bus_bounded b"
  shows "bus_bounded (b\<lparr>bus_subscriptions := AList.delete j (bus_subscriptions b)\<rparr>)"
  using assms by (simp add: bus_bounded_def bus_ok_def delete_distinct list_all_delete queue_of_def del: set_map)

lemma bus_bounded_cast:
  "bus_bounded b \<Longrightarrow> bus_bounded (fst (cast_step st E delta i k b))"
  by (cases st) (auto simp: bus_bounded_def intro: push_bounded_length)

lemma bus_bounded_send:
  assumes "bus_bounded b" shows "bus_bounded (fst (send_step E delta i targets k b))"
proof (cases targets)
  case (Cons t ts)
  obtain j q where t: "t = (j, q)" by (cases t)
  show ?thesis
    using assms Cons t bus_bounded_push [OF assms] bus_bounded_drop [OF assms] bus_bounded_delete [OF assms]
    by (cases "try_send (queue_of b q)") simp_all
qed (use assms in simp)

lemma bus_bounded_count: "bus_bounded (fst (count_step E durable k b)) = bus_bounded b"
  by (simp add: count_step_def) (rule bus_bounded_cong, simp_all)

lemma app_bounded_on_bus:
  "app_bounded config s \<Longrightarrow> (\<And>b. bus_bounded b \<Longrightarrow> bus_bounded (fst (f b))) \<Longrightarrow>
   app_bounded config (fst (on_bus f s))"
  by (auto simp: on_bus_def split_beta Let_def intro: app_bounded_bus)

lemma app_bounded_prepare:
  assumes "app_bounded config s" shows "app_bounded config (fst (prepare_payload E p s))"
  using assms by (auto simp: prepare_payload_def Let_def split_beta split: sum.splits)

lemma app_bounded_inspect:
  assumes "app_bounded config s" shows "app_bounded config (fst (inspect_step E c r s))"
proof -
  obtain d found where i: "inspect E c (app_detector s) = (d, found)" by (cases "inspect E c (app_detector s)")
  have "app_bounded config (s\<lparr>app_detector := d\<rparr>)"
    using assms app_ok_detector [of config s E c d] i by (simp add: app_bounded_def)
  then show ?thesis using assms i by (auto simp: inspect_step_def Let_def split: option.splits)
qed

lemma advance_bounded: "advance t s = Some (s', t') \<Longrightarrow> app_bounded config s \<Longrightarrow> app_bounded config s'"
proof (cases t)
  case (Persist st E delta c r)
  assume "advance t s = Some (s', t')" "app_bounded config s"
  then show ?thesis using Persist by (cases st) (auto split: sum.splits)
next
  case (Prepare E op delta)
  assume "advance t s = Some (s', t')" "app_bounded config s"
  then show ?thesis using Prepare app_bounded_prepare [of config s E "sd_payload delta"]
    by (auto simp: prepare_step_def Let_def split: prod.splits outcome.splits)
next
  case (Cast st E delta i k)
  assume "advance t s = Some (s', t')" "app_bounded config s"
  then show ?thesis using Cast app_bounded_on_bus [of config s "cast_step st E delta i k"] bus_bounded_cast by simp
next
  case (Send E delta i targets k)
  assume "advance t s = Some (s', t')" "app_bounded config s"
  then show ?thesis using Send app_bounded_on_bus [of config s "send_step E delta i targets k"] bus_bounded_send by simp
next
  case (AwaitRoom E delta i q targets k)
  assume "advance t s = Some (s', t')" "app_bounded config s"
  then show ?thesis using AwaitRoom
    by (auto simp: await_step_def app_bounded_bus bus_bounded_push app_boundedD split: try_send_result.splits)
next
  case (CountDelta E durable k)
  assume "advance t s = Some (s', t')" "app_bounded config s"
  then show ?thesis using CountDelta app_bounded_on_bus [of config s "count_step E durable k"] bus_bounded_count by simp
next
  case (InspectLoop E c r)
  assume "advance t s = Some (s', t')" "app_bounded config s"
  then show ?thesis using InspectLoop app_bounded_inspect [of config s E c r] by simp
qed (auto simp: store_warning_step_def move_fork_step_def record_fork_step_def move_head_step_def
    record_rollback_step_def log_rollback_step_def split: option.splits sum.splits prod.splits)

lemma subscribe_bounded:
  assumes "bus_bounded b" shows "bus_bounded (fst (subscribe i flt n b))"
proof -
  have "bus_ok (fst (subscribe i flt n b))" using subscribe_ok assms by (simp add: bus_bounded_def)
  moreover have "queue_of (fst (subscribe i flt n b)) q =
      (if q = fresh_queue b then \<lparr>qu_capacity = clamp 1 8192 n, qu_items = [], qu_closed = False\<rparr> else queue_of b q)" for q
    by (simp add: subscribe_def Let_def queue_of_def set_queue_def update_conv)
  moreover have "bus_recent_deltas (fst (subscribe i flt n b)) = bus_recent_deltas b"
    by (simp add: subscribe_def Let_def set_queue_def)
  ultimately show ?thesis using assms by (auto simp: bus_bounded_def queue_bounded_def clamp_def)
qed

lemma other_act_bounded: "other_act s s' \<Longrightarrow> app_bounded config s \<Longrightarrow> app_bounded config s'"
proof (induction rule: other_act.induct)
  case (register s E q)
  have "bus_bounded (app_bus (handle E (RegisterAgent q) s)) = bus_bounded (app_bus s)"
    by (simp add: register_agent_inner_def bus_register_agent_def Let_def)
      (rule bus_bounded_cong, simp_all add: bus_ok_def)
  then show ?case using register app_ok_register [of config s E q] by (simp add: app_bounded_def)
next
  case (subscribe s E q)
  then show ?case using app_ok_subscribe [of config s q] subscribe_bounded [of "app_bus s"]
    by (simp add: app_bounded_def grpc_subscribe_def split_beta Let_def)
next
  case (heartbeat s E h)
  have "bus_bounded (Bus.heartbeat E (hb_agent_id h) (app_bus s)) = bus_bounded (app_bus s)"
    by (rule bus_bounded_cong) (auto simp: heartbeat_def bus_ok_def split: option.splits)
  then show ?case using heartbeat app_bounded_bus by (simp add: stream_event_fst app_boundedD)
next
  case (receive s q)
  then have b: "bus_bounded (app_bus s)" by blast
  then have "queue_bounded (queue_of (app_bus s) q)" by (simp add: bus_bounded_def)
  then have "queue_bounded ((queue_of (app_bus s) q)\<lparr>qu_items := tl (qu_items (queue_of (app_bus s) q))\<rparr>)"
    by (auto simp: queue_bounded_def)
  then have "bus_bounded (take_message q (app_bus s))"
    using b by (simp add: take_message_def Let_def bus_bounded_set_queue)
  then show ?case using receive by (intro app_bounded_bus)
next
  case (hang_up s q)
  then have b: "bus_bounded (app_bus s)" by blast
  then have "queue_bounded (queue_of (app_bus s) q)" by (simp add: bus_bounded_def)
  then have "queue_bounded ((queue_of (app_bus s) q)\<lparr>qu_closed := True\<rparr>)" by (simp add: queue_bounded_def)
  then have "bus_bounded (drop_receiver q (app_bus s))"
    using b by (simp add: drop_receiver_def Let_def bus_bounded_set_queue)
  then show ?case using hang_up by (intro app_bounded_bus)
qed

interpretation bounded: interleaving "task_act E0 named" other_act "arrives E0 lossy"
    "app_bounded config" "\<lambda>_ _. True" "\<lambda>_ _. True" for E0 named lossy config
  by unfold_locales (auto elim!: task_act.cases intro: advance_bounded other_act_bounded)

lemma app_bounded_initial: "app_bounded config (initial_state config)"
  using app_ok_initial [of config]
  by (simp add: app_bounded_def bus_bounded_def app_ok_def)
    (simp add: initial_state_def new_state_def new_bus_def queue_of_def dead_queue_def queue_bounded_def)

text \<open>
  Claim C10. Whatever the interleaving, the daemon keeps at most 256 recent deltas, no queue holds more
  messages than its capacity, which is at most 8192, no two subscriptions share a queue or lack
  one, no detection window is longer than 12, and the configuration is the one it was started with.
\<close>

theorem interleaved_memory_bounded:
  assumes "requests_steps E0 lossy named (initial_state config, []) (s, ts)"
  shows "app_ok config s \<and> (\<forall>q. length (qu_items (queue_of (app_bus s) q)) \<le> qu_capacity (queue_of (app_bus s) q)
     \<and> qu_capacity (queue_of (app_bus s) q) \<le> 8192)"
  using bounded.pool_steps_ok [OF assms, of config] app_bounded_initial [of config]
  by (simp add: bounded.pool_ok_def app_bounded_def bus_bounded_def queue_bounded_def)

section \<open>Delivery\<close>

text \<open>The durable messages that a task still has to hand over, each with its queue.\<close>

fun owed :: "task \<Rightarrow> (queue_id \<times> broadcast_delta) set" where
  "owed (Send E delta c targets k) =
     (if sd_durable delta then (\<lambda>(_, q). (q, message_of delta c)) ` set targets else {})"
| "owed (AwaitRoom E delta c q targets k) =
     (if sd_durable delta
      then insert (q, message_of delta c) ((\<lambda>(_, q). (q, message_of delta c)) ` set targets) else {})"
| "owed _ = {}"

text \<open>The message is put at the end of the queue, or the receiver has left.\<close>

definition handed :: "queue_id \<Rightarrow> broadcast_delta \<Rightarrow> app_state \<Rightarrow> app_state \<Rightarrow> bool" where
  "handed q m s s' \<longleftrightarrow> queue_of (app_bus s') q
       = (queue_of (app_bus s) q)\<lparr>qu_items := qu_items (queue_of (app_bus s) q) @ [m]\<rparr>
     \<or> qu_closed (queue_of (app_bus s) q)"

lemma try_send_iff:
  "try_send x = SendClosed \<longleftrightarrow> qu_closed x"
  by (simp add: try_send_def)

lemma push_item_handed: "handed q m s (s\<lparr>app_bus := push_item q m (app_bus s)\<rparr>)"
  by (simp add: handed_def push_item_def Let_def queue_of_set_queue)

lemma advance_owed:
  assumes "advance t s = Some (s', t')" "(q, m) \<in> owed t"
  shows "(q, m) \<in> owed t' \<or> handed q m s s'"
proof (cases t)
  case (Send E delta c targets k)
  then obtain j q' ts where ts: "targets = (j, q') # ts" using assms(2) by (cases targets) (auto split: if_splits)
  show ?thesis
    using assms Send ts push_item_handed [of q' "message_of delta c" s]
    by (cases "try_send (queue_of (app_bus s) q')")
      (auto simp: on_bus_def handed_def try_send_iff split: if_splits)
next
  case (AwaitRoom E delta c q' targets k)
  then show ?thesis using assms push_item_handed [of q' "message_of delta c" s]
    by (auto simp: await_step_def handed_def try_send_iff split: if_splits try_send_result.splits)
qed (use assms(2) in simp_all)

abbreviation task_of :: "app_state \<times> task list \<Rightarrow> nat \<Rightarrow> task" where
  "task_of p i \<equiv> snd p ! i"

lemma step_owed:
  assumes "requests_step E0 lossy named p p'" "i < length (snd p)"
  shows "i < length (snd p')"
    and "(q, m) \<in> owed (task_of p i) \<Longrightarrow>
      (q, m) \<in> owed (task_of p' i) \<or> task_of p' i = Dropped \<or> handed q m (fst p) (fst p')"
    and "task_of p i = Dropped \<Longrightarrow> task_of p' i = Dropped"
proof -
  show "i < length (snd p')" using pool_step_task [OF assms] by simp
  show "(q, m) \<in> owed (task_of p' i) \<or> task_of p' i = Dropped \<or> handed q m (fst p) (fst p')"
    if "(q, m) \<in> owed (task_of p i)"
    using assms(1)
  proof cases
    case (act j ts s s' t')
    show ?thesis
    proof (cases "i = j")
      case True
      have "(q, m) \<in> owed t' \<or> handed q m s s'" if "advance (ts ! j) s = Some (s', t')"
        using advance_owed [OF that] \<open>(q, m) \<in> owed (task_of p i)\<close> act True by simp
      from act(4) this show ?thesis by cases (use act True in auto)
    qed (use act that in simp)
  qed (use that assms(2) in \<open>auto simp: nth_append\<close>)
  show "task_of p' i = Dropped" if "task_of p i = Dropped"
    using assms(1)
  proof cases
    case (act j ts s s' t')
    then show ?thesis using that by (cases "i = j") (auto elim: task_act.cases)
  qed (use that assms(2) in \<open>auto simp: nth_append\<close>)
qed

lemma steps_owed:
  assumes "requests_steps E0 lossy named p p'" "i < length (snd p)" "(q, m) \<in> owed (task_of p i)"
  shows "i < length (snd p') \<and> ((q, m) \<in> owed (task_of p' i) \<or> task_of p' i = Dropped
    \<or> (\<exists>u v. requests_steps E0 lossy named p u \<and> requests_step E0 lossy named u v
         \<and> requests_steps E0 lossy named v p' \<and> handed q m (fst u) (fst v)))"
  using assms(1)
proof (induction rule: rtranclp_induct)
  case (step y z)
  note z = step_owed [OF step(2)]
  from step show ?case using z(1) [of i] z(2) [of i q m] z(3) [of i]
    by (meson rtranclp.rtrancl_into_rtrancl rtranclp.rtrancl_refl)
qed (use assms in simp)

text \<open>
  Claim C9. No interleaving loses a durable delta: when a broadcast has collected its targets and the
  request comes to its end without being dropped, then for every subscription that matched there was
  a step in between at which the delta was put at the end of its queue, or at which its receiver had
  left.
\<close>

theorem interleaved_delivery:
  assumes "requests_steps E0 lossy named p p'" "i < length (snd p)"
    and "task_of p i = Send E delta c (targets_of delta (app_bus (fst p))) k" "sd_durable delta"
    and "task_of p' i = Finished r"
    and "map_of (bus_subscriptions (app_bus (fst p))) j = Some sub" "subscription_matches sub delta"
  shows "\<exists>u v. requests_steps E0 lossy named p u \<and> requests_step E0 lossy named u v
    \<and> requests_steps E0 lossy named v p' \<and> handed (sub_sender sub) (message_of delta c) (fst u) (fst v)"
proof -
  have "(sub_subscriber_id sub, sub_sender sub) \<in> set (targets_of delta (app_bus (fst p)))"
    using map_of_SomeD [OF assms(6)] assms(7) by (force simp: targets_of_def)
  then have "(sub_sender sub, message_of delta c) \<in> owed (task_of p i)"
    unfolding assms(3) using assms(4) by force
  from steps_owed [OF assms(1,2) this] show ?thesis unfolding assms(5) by simp
qed

end
