(* ===== verification/Crash.thy ===== *)
theory Crash
  imports Concurrent
begin

text \<open>
  The life of a data directory: requests in steps, and the process stopped at any point between two
  steps, losing every task and all memory, and started again on what the database holds.
\<close>

inductive life_step ::
    "env \<Rightarrow> bool \<Rightarrow> (string \<Rightarrow> commit option) \<Rightarrow> app_state \<times> task list \<Rightarrow> app_state \<times> task list \<Rightarrow> bool"
  for E0 lossy named where
  run: "requests_step E0 lossy named p p' \<Longrightarrow> life_step E0 lossy named p p'"
| crash: "same_codec E E0 \<Longrightarrow> start E rocksdb config (app_store (fst p)) = Inr s' \<Longrightarrow>
    life_step E0 lossy named p (s', [])"

abbreviation life_steps ::
    "env \<Rightarrow> bool \<Rightarrow> (string \<Rightarrow> commit option) \<Rightarrow> app_state \<times> task list \<Rightarrow> app_state \<times> task list \<Rightarrow> bool" where
  "life_steps E0 lossy named \<equiv> (life_step E0 lossy named)\<^sup>*\<^sup>*"

lemma start_requests_ok:
  assumes "requests_ok E0 named s" "same_codec E E0" "start E rocksdb config (app_store s) = Inr s'"
  shows "requests_ok E0 named s' \<and> history E0 (app_store s') = history E0 (app_store s)"
proof -
  obtain st d where st: "reopen E config (app_store s) = Inr st" "rebuild_index E st = Inr d"
    "s' = new_state config (new_bus new_metrics) st d"
    using assms(3) by (auto simp: start_def result_simps)
  note keeps = reopen_keeps [OF st(1)]
  have h: "history E0 st = history E0 (app_store s)" using keeps by (intro history_cong) simp
  have l: "ledger_ok E0 (ledger_of s)" using assms(1) by (simp add: requests_ok_def)
  then have store: "store_ok E0 st" using keeps h by (simp add: ledger_ok_def ledger_of_def store_ok_def)
  then have "store_ok E st" by (simp add: codec_cong(3) [OF assms(2)])
  note index = rebuild_index_sound [OF st(2) this, unfolded codec_cong(2) [OF assms(2)]]
  have "ledger_ok E0 (ledger_of s')"
    using l store index(1,3) keeps h by (simp add: ledger_ok_def ledger_of_def st(3) new_state_def)
  moreover have "index_named named d"
    unfolding index_named_def
  proof (intro allI impI)
    fix i ps assume ps: "map_of (dg_parents d) i = Some ps"
    then have "i \<in> dom (history E0 st)" using index(2) map_of_Some_in_keys by metis
    then obtain c where c: "history E0 st i = Some c" by blast
    with index(3) ps have "cm_parent_commit_ids c = ps" by fastforce
    moreover have "named i = Some c"
      using assms(1) c h by (auto simp: requests_ok_def map_le_def dom_def)
    ultimately show "\<exists>c. named i = Some c \<and> cm_parent_commit_ids c = ps" by blast
  qed
  ultimately show ?thesis using assms(1) h by (simp add: requests_ok_def st(3) new_state_def)
qed

lemma life_step_kept:
  assumes "life_step E0 lossy named p p'" "requests.pool_ok E0 named lossy p"
  shows "requests.pool_ok E0 named lossy p' \<and> history E0 (app_store (fst p)) \<subseteq>\<^sub>m history E0 (app_store (fst p'))"
  using assms(1)
proof cases
  case run
  then show ?thesis using requests.pool_step_ok [OF _ assms(2)] by (auto simp: only_grows_def)
next
  case (crash E rocksdb config s')
  then show ?thesis using start_requests_ok [of E0 named "fst p"] assms(2) by (auto simp: requests.pool_ok_def)
qed

interpretation survival: preserved "life_step E0 lossy named" "requests.pool_ok E0 named lossy"
  for E0 lossy named
  by unfold_locales (use life_step_kept in blast)

lemma life_grows:
  assumes "life_steps E0 lossy named p p'" "requests.pool_ok E0 named lossy p"
  shows "history E0 (app_store (fst p)) \<subseteq>\<^sub>m history E0 (app_store (fst p'))"
  using assms(1)
proof (induction rule: rtranclp_induct)
  case (step y z)
  have "requests.pool_ok E0 named lossy y" using survival.steps_inv [OF step(1) assms(2)] .
  then show ?case using step(3) life_step_kept [OF step(2)] map_le_trans by blast
qed simp

text \<open>
  Claim C5. What was answered survives a crash. Whatever requests were under way, in whatever
  interleaving, and wherever the process was stopped, as often as it may be: a commit whose id some
  request has answered is in the database, and in every later state of the data directory the same
  commit is read under that id; and index and store agree after every restart.
\<close>

theorem answered_commits_survive:
  assumes "life_steps E0 lossy named (initial_state config, []) (s, ts)"
    and "Finished (Done r) \<in> set ts" "reply_commit r = Some i"
    and "life_steps E0 lossy named (s, ts) (s', ts')"
  shows "\<exists>c. history E0 (app_store s) i = Some c \<and> history E0 (app_store s') i = Some c
     \<and> map_of (dg_parents (app_dag s')) i = Some (cm_parent_commit_ids c) \<and> ledger_ok E0 (ledger_of s')"
proof -
  have "requests.pool_ok E0 named lossy (initial_state config, [])"
    using requests_ok_initial by (simp add: requests.pool_ok_def)
  then have ok: "requests.pool_ok E0 named lossy (s, ts)" using survival.steps_inv [OF assms(1)] by blast
  then have ok': "requests.pool_ok E0 named lossy (s', ts')" using survival.steps_inv [OF assms(4)] by blast
  have "\<forall>t\<in>set ts. task_ok E0 lossy named s t" using ok by (simp add: requests.pool_ok_def)
  with assms(2) have "task_ok E0 lossy named s (Finished (Done r))" by blast
  then obtain c where c: "history E0 (app_store s) i = Some c"
    using assms(3) by (auto simp: reply_ok_def stored_ids_def)
  moreover from c have "history E0 (app_store s') i = Some c"
    using life_grows [OF assms(4) ok] by (auto simp: map_le_def dom_def)
  moreover have "ledger_ok E0 (ledger_of s')" using ok' by (simp add: requests.pool_ok_def requests_ok_def)
  ultimately show ?thesis by (auto simp: ledger_ok_def ledger_of_def)
qed

end
