(* ===== verification/Orders.thy ===== *)
theory Orders
  imports Races Delivery Crash
begin

text \<open>Two subscribers and two publishes at the same time, on the notes of the previous theory.\<close>

definition watch :: "string \<Rightarrow> subscribe_request" where
  "watch i = \<lparr>sr_subscriber_id = i, sr_filter = None, sr_queue_capacity = 0\<rparr>"

definition watched_state :: app_state where
  "watched_state = handle race_env (Subscribe (watch ''q''))
     (handle race_env (Subscribe (watch ''p'')) (initial_state open_config))"

definition everything :: "string \<Rightarrow> queue_id \<Rightarrow> string \<times> subscription" where
  "everything i q = (i, \<lparr>sub_subscriber_id = i,
     sub_filter = \<lparr>sf_channel_patterns = [''*''], sf_durable_only = False, sf_tags = []\<rparr>,
     sub_sender = q, sub_dropped_count = 0\<rparr>)"

text \<open>The two subscribers have read nothing; \<open>xs\<close> and \<open>ys\<close> are in their queues.\<close>

definition watched :: "broadcast_delta list \<Rightarrow> broadcast_delta list \<Rightarrow> app_state \<Rightarrow> bool" where
  "watched xs ys s \<longleftrightarrow> app_config s = open_config \<and> requests_ok race_env race_named s
     \<and> queue_of (app_bus s) 1 = \<lparr>qu_capacity = 1024, qu_items = xs, qu_closed = False\<rparr>
     \<and> queue_of (app_bus s) 2 = \<lparr>qu_capacity = 1024, qu_items = ys, qu_closed = False\<rparr>
     \<and> bus_subscriptions (app_bus s) = [everything ''p'' 1, everything ''q'' 2]"

lemma watched_start:
  "watched [] [] watched_state" "head_ids watched_state = []" "known_ids watched_state = {}"
  "race_steps (initial_state open_config, []) (watched_state, [])"
proof -
  have "race_steps (initial_state open_config, []) (handle race_env (Subscribe (watch ''p'')) (initial_state open_config), [])"
    by (intro r_into_rtranclp pool_step.env other_act.subscribe)
  moreover have "race_steps (handle race_env (Subscribe (watch ''p'')) (initial_state open_config), []) (watched_state, [])"
    unfolding watched_state_def by (intro r_into_rtranclp pool_step.env other_act.subscribe)
  ultimately show run: "race_steps (initial_state open_config, []) (watched_state, [])" by (rule race_trans)
  have "app_store watched_state = app_store (initial_state open_config)"
    "app_dag watched_state = app_dag (initial_state open_config)"
    by (simp_all add: watched_state_def grpc_subscribe_def split_beta Let_def)
  then show "head_ids watched_state = []" "known_ids watched_state = {}"
    using initial_empty [of open_config] unfolding head_ids_def known_ids_def by simp_all
  show "watched [] [] watched_state"
    using requests_reach(1) [OF run]
    by (simp add: watched_def everything_def)
      (simp add: watched_state_def grpc_subscribe_def split_beta Let_def initial_state_def new_state_def new_bus_def
        subscribe_def fresh_queue_def set_queue_def queue_of_def default_subscription_queue_def clamp_def watch_def)
qed

section \<open>A publish up to its sends\<close>

abbreviation cast_jot :: "string \<Rightarrow> after_cast" where
  "cast_jot text \<equiv> ThenInspect (jot_commit text []) (jot_reply text)"

abbreviation jot_message :: "string \<Rightarrow> broadcast_delta" where
  "jot_message text \<equiv> message_of (jot text) (jot_id text)"

lemma watched_targets:
  "watched xs ys s \<Longrightarrow> targets_of (jot text) (app_bus s) = [(''p'', 1), (''q'', 2)]"
  by (simp add: watched_def targets_of_def everything_def subscription_matches_def filter_matches_def
      channel_pattern_matches_def)

lemma watched_sends:
  assumes "watched xs ys s" "known race_env race_named (jot_commit text [])" "jot_id text \<notin> known_ids s"
  obtains s' where "alone race_env race_named (s, persisting text [])
      (s', Send race_env (jot text) (jot_id text) [(''p'', 1), (''q'', 2)] (cast_jot text))"
    "watched xs ys s'" "known_ids s' = insert (jot_id text) (known_ids s)"
proof -
  have ok: "requests_ok race_env race_named s" using assms(1) by (simp add: watched_def)
  obtain s1 where s1: "persist_commit race_env (jot_commit text []) s = (s1, Done ())"
    "dg_parents (app_dag s1) = dg_parents (app_dag s) @ [(jot_id text, [])]" "app_config s1 = app_config s"
    "bus_subscriptions (app_bus s1) = bus_subscriptions (app_bus s)" "bus_queues (app_bus s1) = bus_queues (app_bus s)"
    by (rule jot_persists [OF ok _ assms(3), of "[]"]) simp_all
  let ?t = "Cast UpdateChannel race_env (jot text) (jot_id text) (cast_jot text)"
  have run: "alone race_env race_named (s, persisting text []) (s1, ?t)"
    using alone_persist [OF s1(1) assms(2), of "jot text" "jot_reply text"] by simp
  have ok1: "requests_ok race_env race_named s1"
    using alone_kept [OF run ok, of False] assms(2) by (simp add: trusted_def)
  let ?b = "push_recent (jot text) (jot_id text) (update_channel (jot text) (app_bus s1))"
  let ?s = "s1\<lparr>app_bus := ?b\<rparr>"
  have "queue_of (app_bus s1) q = queue_of (app_bus s) q" for q by (simp add: queue_of_def s1(5))
  then have w: "watched xs ys ?s" using assms(1) s1(3,4) ok1 by (simp add: watched_def)
  then have targets: "targets_of (jot text) (app_bus s1) = [(''p'', 1), (''q'', 2)]"
    using watched_targets [of xs ys ?s "text"] by simp
  have "alone race_env race_named (s1, ?t)
      (?s, Send race_env (jot text) (jot_id text) [(''p'', 1), (''q'', 2)] (cast_jot text))"
    by (rule alone_step, simp add: on_bus_def, rule alone_step, simp add: on_bus_def, rule alone_step [OF _ solo.stop])
      (simp_all add: on_bus_def targets)
  moreover have "known_ids ?s = insert (jot_id text) (known_ids s)" by (auto simp: known_ids_def s1(2))
  ultimately show ?thesis using that w run by (blast intro: solo_trans)
qed

section \<open>Single sends\<close>

lemma watched_push:
  assumes "watched xs ys s"
  shows "watched (xs @ [m]) ys (s\<lparr>app_bus := push_item 1 m (app_bus s)\<rparr>)"
    "watched xs (ys @ [m]) (s\<lparr>app_bus := push_item 2 m (app_bus s)\<rparr>)"
proof -
  have "bus_subscriptions (push_item q m b) = bus_subscriptions b" for q b
    by (simp add: push_item_def Let_def set_queue_def)
  then show "watched (xs @ [m]) ys (s\<lparr>app_bus := push_item 1 m (app_bus s)\<rparr>)"
    "watched xs (ys @ [m]) (s\<lparr>app_bus := push_item 2 m (app_bus s)\<rparr>)"
    using assms by (simp_all add: watched_def push_item_def Let_def queue_of_set_queue)
qed

lemma alone_push:
  assumes "try_send (queue_of (app_bus s) q) = SendOk"
  shows "alone race_env race_named (s, Send E d c ((j, q) # targets) k)
    (s\<lparr>app_bus := push_item q (message_of d c) (app_bus s)\<rparr>, Send E d c targets k)"
  by (rule alone_step [OF _ solo.stop]) (simp_all add: on_bus_def assms)

lemma watched_first:
  assumes "watched xs ys s" "length xs < 1024"
  obtains s' where "alone race_env race_named (s, Send E d c ((j, 1) # targets) k) (s', Send E d c targets k)"
    "watched (xs @ [message_of d c]) ys s'" "known_ids s' = known_ids s"
proof -
  have "try_send (queue_of (app_bus s) 1) = SendOk" using assms by (simp add: watched_def try_send_def)
  then show ?thesis using that [OF alone_push watched_push(1) [OF assms(1)]] by simp
qed

lemma watched_second:
  assumes "watched xs ys s" "length ys < 1024"
  obtains s' where "alone race_env race_named (s, Send E d c ((j, 2) # targets) k) (s', Send E d c targets k)"
    "watched xs (ys @ [message_of d c]) s'" "known_ids s' = known_ids s"
proof -
  have "try_send (queue_of (app_bus s) 2) = SendOk" using assms by (simp add: watched_def try_send_def)
  then show ?thesis using that [OF alone_push watched_push(2) [OF assms(1)]] by simp
qed

lemma watched_ends:
  assumes "watched xs ys s"
  obtains s' where "alone race_env race_named (s, Send race_env (jot text) (jot_id text) [] (cast_jot text))
      (s', answer_with (jot_reply text))" "watched xs ys s'"
proof -
  let ?s = "s\<lparr>app_bus := (app_bus s)\<lparr>bus_metrics := count_delta True (bus_metrics (app_bus s))\<rparr>\<rparr>"
  have w: "watched xs ys ?s" using assms by (simp add: watched_def)
  then have "\<not> cf_loop_detection_enabled (app_config ?s)" by (simp add: watched_def open_config_def)
  then have "alone race_env race_named (s, Send race_env (jot text) (jot_id text) [] (cast_jot text))
      (?s, answer_with (jot_reply text))"
    by (rule_tac alone_step, simp add: on_bus_def, rule_tac alone_step, simp add: on_bus_def count_step_def,
        rule_tac alone_step [OF _ solo.stop]) (simp_all add: inspect_step_def)
  then show ?thesis using that w by blast
qed

abbreviation sending :: "string \<Rightarrow> (string \<times> queue_id) list \<Rightarrow> task" where
  "sending text targets \<equiv> Send race_env (jot text) (jot_id text) targets (cast_jot text)"

text \<open>Both are stored; \<open>x\<close> has been sent to the first subscriber only, \<open>w\<close> to nobody.\<close>

lemma both_sending:
  obtains s where "race_steps (initial_state open_config, [])
      (s, [sending ''x'' [(''q'', 2)], sending ''w'' [(''p'', 1), (''q'', 2)]])"
    "watched ([] @ [jot_message ''x'']) [] s"
proof -
  let ?x = "persisting ''x'' []" and ?w = "persisting ''w'' []"
  have config: "app_config watched_state = open_config" using watched_start(1) by (simp add: watched_def)
  have r1: "race_steps (watched_state, []) (watched_state, [?x])"
    "race_steps (watched_state, [?x]) (watched_state, [?x, ?w])"
    using jot_arrives [OF config, of "''x''" "[]"] jot_arrives [OF config, of "''w''" "[?x]"] watched_start(2)
    by simp_all
  obtain a where a: "alone race_env race_named (watched_state, ?x) (a, sending ''x'' [(''p'', 1), (''q'', 2)])"
    "watched [] [] a" "known_ids a = {jot_id ''x''}"
    by (rule watched_sends [OF watched_start(1), of "''x''"]) (simp_all add: watched_start(3))
  obtain b where b: "alone race_env race_named (a, sending ''x'' [(''p'', 1), (''q'', 2)]) (b, sending ''x'' [(''q'', 2)])"
    "watched ([] @ [jot_message ''x'']) [] b" "known_ids b = known_ids a"
    by (rule watched_first [OF a(2)]) simp_all
  obtain c where c: "alone race_env race_named (b, ?w) (c, sending ''w'' [(''p'', 1), (''q'', 2)])"
    "watched ([] @ [jot_message ''x'']) [] c"
    by (rule watched_sends [OF b(2), of "''w''"]) (simp_all add: b(3) a(3) jot_ids(1) [symmetric])
  have r2: "race_steps (watched_state, [?x, ?w]) (b, [sending ''x'' [(''q'', 2)], ?w])"
    using solo_at [OF solo_trans [OF a(1) b(1)], of "[]" "[?w]"] by simp
  have r3: "race_steps (b, [sending ''x'' [(''q'', 2)], ?w]) (c, [sending ''x'' [(''q'', 2)], sending ''w'' [(''p'', 1), (''q'', 2)]])"
    using solo_at [OF c(1), of "[sending ''x'' [(''q'', 2)]]" "[]"] by simp
  show ?thesis
    by (rule that [OF race_trans [OF watched_start(4) race_trans [OF r1(1) race_trans [OF r1(2)
        race_trans [OF r2 r3]]]] c(2)])
qed

text \<open>
  Claim C14. Subscribers do not agree on the order of deltas: two durable publishes to one channel, at
  the same time and without any fault, can reach one subscriber in one order and another subscriber,
  with the same filter, in the other.
\<close>

theorem subscribers_disagree:
  "\<exists>s rx rw. race_steps (initial_state open_config, [])
       (s, [answer_with (PublishReply rx), answer_with (PublishReply rw)])
     \<and> bus_subscriptions (app_bus s) = [everything ''p'' 1, everything ''q'' 2]
     \<and> qu_items (queue_of (app_bus s) 1) = [jot_message ''x'', jot_message ''w'']
     \<and> qu_items (queue_of (app_bus s) 2) = [jot_message ''w'', jot_message ''x'']"
proof -
  let ?rx = "answer_with (jot_reply ''x'')" and ?rw = "answer_with (jot_reply ''w'')"
  let ?mx = "jot_message ''x''" and ?mw = "jot_message ''w''"
  obtain c where c: "race_steps (initial_state open_config, [])
      (c, [sending ''x'' [(''q'', 2)], sending ''w'' [(''p'', 1), (''q'', 2)]])" "watched ([] @ [?mx]) [] c"
    by (rule both_sending)
  obtain d where d: "alone race_env race_named (c, sending ''w'' [(''p'', 1), (''q'', 2)]) (d, sending ''w'' [(''q'', 2)])"
    "watched (([] @ [?mx]) @ [?mw]) [] d"
    by (rule watched_first [OF c(2)]) simp_all
  obtain e where e: "alone race_env race_named (d, sending ''w'' [(''q'', 2)]) (e, sending ''w'' [])"
    "watched (([] @ [?mx]) @ [?mw]) ([] @ [?mw]) e"
    by (rule watched_second [OF d(2)]) simp_all
  obtain f where f: "alone race_env race_named (e, sending ''w'' []) (f, ?rw)"
    "watched (([] @ [?mx]) @ [?mw]) ([] @ [?mw]) f"
    using e(2) by (rule watched_ends)
  obtain g where g: "alone race_env race_named (f, sending ''x'' [(''q'', 2)]) (g, sending ''x'' [])"
    "watched (([] @ [?mx]) @ [?mw]) (([] @ [?mw]) @ [?mx]) g"
    by (rule watched_second [OF f(2)]) simp_all
  obtain h where h: "alone race_env race_named (g, sending ''x'' []) (h, ?rx)"
    "watched (([] @ [?mx]) @ [?mw]) (([] @ [?mw]) @ [?mx]) h"
    using g(2) by (rule watched_ends)
  have r1: "race_steps (c, [sending ''x'' [(''q'', 2)], sending ''w'' [(''p'', 1), (''q'', 2)]])
      (f, [sending ''x'' [(''q'', 2)], ?rw])"
    using solo_at [OF solo_trans [OF d(1) solo_trans [OF e(1) f(1)]], of "[sending ''x'' [(''q'', 2)]]" "[]"] by simp
  have r2: "race_steps (f, [sending ''x'' [(''q'', 2)], ?rw]) (h, [?rx, ?rw])"
    using solo_at [OF solo_trans [OF g(1) h(1)], of "[]" "[?rw]"] by simp
  have "bus_subscriptions (app_bus h) = [everything ''p'' 1, everything ''q'' 2]"
    "qu_items (queue_of (app_bus h) 1) = [?mx, ?mw]" "qu_items (queue_of (app_bus h) 2) = [?mw, ?mx]"
    using h(2) by (simp_all add: watched_def)
  then show ?thesis using race_trans [OF c(1) race_trans [OF r1 r2]] unfolding jot_reply_eq by blast
qed

section \<open>Witnesses\<close>

theorem interleaved_memory_bounded_witness:
  "race_steps (initial_state open_config, []) (watched_state, [])
   \<and> app_ok open_config watched_state \<and> bus_subscriptions (app_bus watched_state) \<noteq> []"
  using interleaved_memory_bounded [OF watched_start(4)] watched_start(1,4) by (simp add: watched_def)

theorem interleaved_delivery_witness:
  "\<exists>p p' u v. requests_step race_env False race_named u v \<and> requests_steps race_env False race_named p u
     \<and> requests_steps race_env False race_named v p'
     \<and> snd p' = [answer_with (jot_reply ''x'')] \<and> handed 1 (jot_message ''x'') (fst u) (fst v)"
proof -
  let ?s = "sending ''x''"
  obtain a where a: "watched [] [] a"
    by (rule watched_sends [OF watched_start(1), of "''x''"]) (simp_all add: watched_start(3))
  obtain b where b: "alone race_env race_named (a, ?s [(''p'', 1), (''q'', 2)]) (b, ?s [(''q'', 2)])"
    "watched ([] @ [jot_message ''x'']) [] b"
    by (rule watched_first [OF a]) simp_all
  obtain c where c: "alone race_env race_named (b, ?s [(''q'', 2)]) (c, ?s [])"
    "watched ([] @ [jot_message ''x'']) ([] @ [jot_message ''x'']) c"
    by (rule watched_second [OF b(2)]) simp_all
  obtain d where d: "alone race_env race_named (c, ?s []) (d, answer_with (jot_reply ''x''))"
    using c(2) by (rule watched_ends)
  have run: "race_steps (a, [?s [(''p'', 1), (''q'', 2)]]) (d, [answer_with (jot_reply ''x'')])"
    using solo_at [OF solo_trans [OF b(1) solo_trans [OF c(1) d]], of "[]" "[]"] by simp
  have "map_of (bus_subscriptions (app_bus a)) ''p'' = Some (snd (everything ''p'' 1))"
    using a by (simp add: watched_def everything_def)
  moreover have "subscription_matches (snd (everything ''p'' 1)) (jot ''x'')"
    by (simp add: everything_def subscription_matches_def filter_matches_def channel_pattern_matches_def)
  ultimately have "\<exists>u v. race_steps (a, [?s [(''p'', 1), (''q'', 2)]]) u
      \<and> requests_step race_env False race_named u v \<and> race_steps v (d, [answer_with (jot_reply ''x'')])
      \<and> handed (sub_sender (snd (everything ''p'' 1))) (jot_message ''x'') (fst u) (fst v)"
    by (intro interleaved_delivery [OF run, of 0]) (simp_all add: watched_targets [OF a])
  then show ?thesis by (fastforce simp: everything_def)
qed

lemma two_jots_restart:
  obtains s s' where "race_steps (initial_state open_config, [])
      (s, [answer_with (jot_reply ''x''), answer_with (jot_reply ''w'')])"
    "start race_env False open_config (app_store s) = Inr s'"
proof -
  obtain s where s: "race_steps (initial_state open_config, [])
      (s, [answer_with (jot_reply ''x''), answer_with (jot_reply ''w'')])"
    "jot_id ''x'' \<in> stored_ids race_env s" "head_ids s = [jot_id ''w'']"
    "dg_parents (app_dag s) = [(jot_id ''x'', []), (jot_id ''w'', [])]"
    by (rule two_jots)
  have l: "ledger_ok race_env (ledger_of s)" using requests_reach(1) [OF s(1)] by (simp add: requests_ok_def)
  obtain h where "map_of (st_heads (app_store s)) (head_key ''r'' ''t'' ''a'' ''topic:c'') = Some h" "hd_commit_id h = jot_id ''w''"
    using s(3) by (auto simp: head_ids_def split: option.splits)
  then have "jot_id ''w'' \<in> stored_ids race_env s" using l by (fastforce simp: ledger_ok_def ledger_of_def stored_ids_def)
  moreover have rows: "cm_parent_commit_ids c = []" "i \<in> {jot_id ''x'', jot_id ''w''}"
    if "history race_env (app_store s) i = Some c" for i c
  proof -
    have "map_of (dg_parents (app_dag s)) i = Some (cm_parent_commit_ids c)"
      using l that by (simp add: ledger_ok_def ledger_of_def)
    then show "cm_parent_commit_ids c = []" "i \<in> {jot_id ''x'', jot_id ''w''}" by (auto simp: s(4) split: if_splits)
  qed
  ultimately have "ledger_complete race_env (ledger_of s)"
    using s(2) by (auto simp: ledger_complete_def ledger_of_def s(4) stored_ids_def)
  moreover have "app_ok open_config s"
    using bounded.pool_steps_ok [OF s(1), of open_config] app_bounded_initial [of open_config]
    by (simp add: bounded.pool_ok_def app_bounded_def)
  ultimately have exact: "daemon_exact race_env s" using l by (simp add: daemon_exact_def daemon_ok_def app_ok_def)
  have grows: "query_order_grows (history race_env (app_store s))" using rows(1) by (fastforce simp: query_order_grows_def)
  have "prepare race_env False open_config = Inr ()"
    by (simp add: prepare_def open_config_def example_config_def guard_fault_def split: option.splits)
  then obtain s' where "start race_env False open_config (app_store s) = Inr s'"
    using start_resumes [OF exact same_codec_refl _ open_config_starts(2) race_env_simps(1) race_env_simps(1) grows] by blast
  with s(1) that show ?thesis by blast
qed

theorem answered_commits_survive_witness:
  "\<exists>(s :: app_state) s'. life_steps race_env False race_named (initial_state open_config, []) (s', [])
     \<and> start race_env False open_config (app_store s) = Inr s'
     \<and> history race_env (app_store s') (jot_id ''w'') \<noteq> None"
proof -
  obtain s s' where s: "race_steps (initial_state open_config, [])
      (s, [answer_with (jot_reply ''x''), answer_with (jot_reply ''w'')])"
    "start race_env False open_config (app_store s) = Inr s'"
    by (rule two_jots_restart)
  let ?ts = "[answer_with (jot_reply ''x''), answer_with (jot_reply ''w'')]"
  have before: "life_steps race_env False race_named (initial_state open_config, []) (s, ?ts)"
    using s(1) by (rule rtranclp_mono [THEN predicate2D, rotated]) (auto intro: life_step.run)
  have crash: "life_step race_env False race_named (s, ?ts) (s', [])"
    using s(2) by (intro life_step.crash) simp_all
  then have later: "life_steps race_env False race_named (s, ?ts) (s', [])" by (rule r_into_rtranclp)
  have "reply_commit (jot_reply ''w'') = Some (jot_id ''w'')" by (simp add: jot_reply_eq)
  then have "history race_env (app_store s') (jot_id ''w'') \<noteq> None"
    using answered_commits_survive [OF before _ _ later, of "jot_reply ''w''"] by fastforce
  with s(2) rtranclp_trans [OF before later] show ?thesis by auto
qed

end
