(* ===== verification/Outage.thy ===== *)
theory Outage
  imports Races
begin

text \<open>
  What a daemon does not survive. After a checkpoint on top of a commit with a positive clock it
  cannot start again, and after a write that failed in \<open>persist_commit\<close> a child of the lost commit
  can neither be replayed nor loaded. Both are stated of the operations of \<open>AppState\<close> and of
  \<open>start\<close>, in any state that a daemon reaches.
\<close>

section \<open>Databases that the index cannot be rebuilt from\<close>

text \<open>A commit whose parent is not stored, or that the query of \<open>rebuild_index\<close> lists before it.\<close>

lemma rebuild_fails:
  assumes "store_ok E st" "history E st i = Some c" "p \<in> set (cm_parent_commit_ids c)"
    and "\<And>d. history E st p = Some d \<Longrightarrow> commit_order c < commit_order d"
  shows "rebuild_index E st \<noteq> Inr dag"
proof
  assume "rebuild_index E st = Inr dag"
  then obtain cs where cs: "list_all_commits E st = Inr cs" and d: "from_commits cs = Inr dag"
    by (auto simp: rebuild_index_def result_simps)
  have "db_fault E DbListCommits = None"
    using cs by (auto simp: list_all_commits_def list_commits_def guard_fault_def result_simps split: option.splits)
  with assms(1) obtain cs' where cs': "list_all_commits E st = Inr cs'" "sorted (map commit_order cs')"
      "distinct (map cm_commit_id cs')" "\<forall>c. c \<in> set cs' \<longleftrightarrow> history E st (cm_commit_id c) = Some c"
    by (rule list_all_sorted)
  then have "loadable {} cs'" using from_commits_rows [OF cs'(3)] d cs by auto
  moreover have "c \<in> set cs'" using cs'(4) assms(2) history_id [OF assms(1,2)] by simp
  then obtain n where n: "n < length cs'" "cs' ! n = c" by (auto simp: in_set_conv_nth)
  ultimately have "p \<in> cm_commit_id ` set (take n cs')" using assms(3) by (auto simp: loadable_iff)
  then obtain m where m: "m < n" "cm_commit_id (cs' ! m) = p" by (auto simp: in_set_conv_nth)
  then have "history E st p = Some (cs' ! m)" using cs'(4) n(1) by (metis nth_mem order.strict_trans)
  then have "commit_order c < commit_order (cs' ! m)" by (rule assms(4))
  moreover have "commit_order (cs' ! m) \<le> commit_order c"
    using sorted_nth_mono [OF cs'(2), of m n] m n by simp
  ultimately show False by simp
qed

lemma start_refused:
  assumes "store_ok E0 db" "same_codec E E0" "history E0 db i = Some c" "p \<in> set (cm_parent_commit_ids c)"
    and "\<And>d. history E0 db p = Some d \<Longrightarrow> commit_order c < commit_order d"
  shows "start E rocksdb config db \<noteq> Inr s"
proof
  assume s: "start E rocksdb config db = Inr s"
  have "store_ok E0 (app_store s)"
    using assms(1) start_state(4,5) [OF s] by (simp add: store_ok_def)
  then have ok: "store_ok E (app_store s)" by (simp add: codec_cong(3) [OF assms(2)])
  have h: "history E (app_store s) = history E0 db"
    using start_history [OF s, of E0] by (simp add: codec_cong(2) [OF assms(2)])
  have "rebuild_index E (app_store s) \<noteq> Inr (app_dag s)"
    using rebuild_fails [OF ok, of i c p] h assms(3-5) by simp
  then show False using start_state(6) [OF s] by contradiction
qed

section \<open>Checkpoints and restarts\<close>

lemma checkpoint_shape:
  assumes "checkpoint_commit E q s = Some c"
  shows "cm_logical_clock c = 0"
    "cm_parent_commit_ids c = cq_parent_commit_ids q \<and> cq_parent_commit_ids q \<noteq> []
     \<or> cq_parent_commit_ids q = [] \<and> (\<exists>head. get_head E (app_store s) (cq_run_id q) (cq_thread_id q) (cq_agent_id q)
         (cq_channel q) = Inr head \<and> cm_parent_commit_ids c = (case head of None \<Rightarrow> [] | Some i \<Rightarrow> [i]))"
proof -
  let ?d = "normalize_delta E (checkpoint_delta E q)"
  obtain t p report refs parents where t: "prepare_payload E (sd_payload ?d) s = (t, Done (p, report, refs))"
    "resolve_parents E (?d\<lparr>sd_payload := Some p\<rparr>) (cq_parent_commit_ids q) t = Inr parents"
    and c: "c = from_delta E (?d\<lparr>sd_payload := Some p\<rparr>) parents p report
        (checkpoint_extras q (refs @ cq_artifact_refs q))"
    using assms by (auto simp: checkpoint_commit_def Let_def split: sum.splits prod.splits outcome.splits)
  let ?k = "checkpoint_delta E q"
  have keep: "sd_logical_clock ?d = 0" "sd_run_id ?k = cq_run_id q" "sd_thread_id ?k = cq_thread_id q"
    "sd_agent_id ?k = cq_agent_id q" "sd_channel ?k = cq_channel q"
    by (simp_all add: normalize_delta_def checkpoint_delta_def Let_def)
  have "get_head E (app_store t) = get_head E (app_store s)"
    using prepare_payload_ledger(1) [of s E "sd_payload ?d"] t(1) by (intro get_head_cong) (simp add: same_ledger_def)
  then show "cm_logical_clock c = 0"
    "cm_parent_commit_ids c = cq_parent_commit_ids q \<and> cq_parent_commit_ids q \<noteq> []
     \<or> cq_parent_commit_ids q = [] \<and> (\<exists>head. get_head E (app_store s) (cq_run_id q) (cq_thread_id q) (cq_agent_id q)
         (cq_channel q) = Inr head \<and> cm_parent_commit_ids c = (case head of None \<Rightarrow> [] | Some i \<Rightarrow> [i]))"
    using t(2) by (auto simp: c keep resolve_parents_def result_simps split: if_splits)
qed

text \<open>
  Claim C19. A checkpoint on top of a commit with a positive clock ends the restarts of the daemon,
  without any fault: once \<open>checkpoint_inner\<close> has answered and one of the parents of the checkpoint,
  named by the request or taken from the head, is a stored commit whose clock is positive (as
  \<open>i64\<close>), \<open>start\<close> succeeds on no database that the daemon leaves later, under any configuration.
  The checkpoint has clock 0, and the start-up query lists it before its parent.
\<close>

theorem restart_fails_after_checkpoint:
  assumes "daemon_steps E0 lossy (initial_state config) s" "same_codec E E0" "lossy \<or> reliable E"
    and "built_ok E0 s (checkpoint_commit E q s)" "checkpoint_inner E q s = (s', Done r)"
    and "cq_parent_commit_ids q = [] \<and> get_head E (app_store s) (cq_run_id q) (cq_thread_id q) (cq_agent_id q)
        (cq_channel q) = Inr (Some h) \<or> h \<in> set (cq_parent_commit_ids q)"
    and "get_commit_inner E h s = Inr d" "0 < sint (cm_logical_clock d)"
    and "daemon_steps E0 lossy s' v" "same_codec E' E0"
  shows "start E' rocksdb config' (app_store v) \<noteq> Inr u"
proof -
  note ok = reached [OF assms(1,2)]
  obtain t e c where c: "same_ledger s t" "checkpoint_commit E q s = Some c"
    "commit_and_broadcast E e c t = (s', Done ())" "cr_commit_id r = cm_commit_id c"
    using assms(5) by (rule checkpoint_Done)
  have "admissible E0 (app_store s) c" using assms(4) c(2) by (simp add: built_ok_def)
  note w = commit_and_broadcast_read [OF assms(1-3) this c(1,3)]
  have "app_step E0 lossy s s'"
    using app_step.serve [of E E0 lossy s "Checkpoint q"] assms(2-5) by simp
  then have steps: "daemon_steps E0 lossy s v" "daemon_steps E0 lossy (initial_state config) v"
    using assms(1,9) by (auto dest: daemon_step.request intro: converse_rtranclp_into_rtranclp)
  have ok': "daemon_ok E0 s'" "store_ok E0 (app_store v)"
    using life.steps_inv [OF \<open>daemon_steps E0 lossy (initial_state config) s\<close>] ok(1)
      app_step_daemon_ok [OF \<open>app_step E0 lossy s s'\<close>] reached(2) [OF steps(2) same_codec_refl] by simp_all
  have "history E0 (app_store s) h = Some d" using assms(7) ok(2,3) by (simp add: get_commit_inner_Inr)
  then have "history E0 (app_store v) h = Some d" using life.steps_keep [OF steps(1) ok(1)] by blast
  moreover have "history E0 (app_store v) (cm_commit_id c) = Some c"
    using life.steps_keep [OF assms(9) ok'(1)] w(1) by (simp add: persisted_def)
  moreover have "cm_logical_clock c = 0 \<and> h \<in> set (cm_parent_commit_ids c)"
    using checkpoint_shape [OF c(2)] assms(6) by auto
  moreover from this have "commit_order c < commit_order d" using assms(8) by (simp add: commit_order_def less_prod_def)
  ultimately show ?thesis using start_refused [OF ok'(2) assms(10), of _ c h] by auto
qed

section \<open>Lost writes\<close>

text \<open>A publish that builds a commit hands it on, and nothing before that touches the ledger.\<close>

lemma publish_runs:
  assumes "publish_commit E q s = Some c"
  obtains t d f where "same_ledger s t" "app_config t = app_config s"
    "publish_delta_inner E q s = after (commit_and_broadcast E d c t) (\<lambda>_ s. (s, Done f))"
proof -
  obtain d where d: "pd_delta q = Some d" using assms by (auto simp: publish_commit_def split: option.splits)
  let ?d = "normalize_delta E d"
  obtain t p report refs where t: "prepare_payload E (sd_payload ?d) s = (t, Done (p, report, refs))"
    using assms d by (auto simp: publish_commit_def Let_def split: sum.splits prod.splits outcome.splits)
  have "same_ledger s t" "app_config t = app_config s"
    using prepare_payload_ledger(1) [of s E "sd_payload ?d"] prepare_payload_ledger(2) [of E "sd_payload ?d" s] t
    by simp_all
  moreover have "\<exists>e f. publish_delta_inner E q s = after (commit_and_broadcast E e c t) (\<lambda>_ s. (s, Done f))"
    using assms d t by (auto simp: publish_commit_def publish_delta_inner_def Let_def split: sum.splits if_splits)
  ultimately show ?thesis using that by blast
qed

lemma after_ledger:
  assumes "\<And>x t. same_ledger t (fst (f x t))"
  shows "same_ledger (fst r) (fst (after r f))"
  using assms by (cases "(r, f)" rule: after.cases) auto

lemma commit_and_broadcast_ledger:
  "same_ledger (fst (persist_commit E c s)) (fst (commit_and_broadcast E d c s))"
proof -
  have "same_ledger t (fst (after (send_broadcast E d (cm_commit_id c) t) (\<lambda>_ s. inspect_loop E c s)))" for t
  proof -
    have "same_ledger t (fst (send_broadcast E d (cm_commit_id c) t))" by (simp add: same_ledger_def)
    moreover have "same_ledger (fst (send_broadcast E d (cm_commit_id c) t))
        (fst (after (send_broadcast E d (cm_commit_id c) t) (\<lambda>_ s. inspect_loop E c s)))"
      by (rule after_ledger) (rule inspect_loop_ledger)
    ultimately show ?thesis by (simp add: same_ledger_def)
  qed
  then show ?thesis unfolding commit_and_broadcast_def by (rule after_ledger)
qed

text \<open>What is left of a publish: the ledger that \<open>persist_commit\<close> leaves.\<close>

lemma publish_ledger:
  assumes "publish_commit E q s = Some c"
  obtains t where "same_ledger s t" "same_ledger (fst (persist_commit E c t)) (fst (publish_delta_inner E q s))"
proof -
  obtain t d f where t: "same_ledger s t"
    "publish_delta_inner E q s = after (commit_and_broadcast E d c t) (\<lambda>_ s. (s, Done f))"
    using assms by (rule publish_runs)
  have "same_ledger (fst (commit_and_broadcast E d c t)) (fst (publish_delta_inner E q s))"
    unfolding t(2) by (rule after_ledger) simp
  with commit_and_broadcast_ledger [of E c t d] show ?thesis
    using that [OF t(1)] by (simp add: same_ledger_def)
qed

text \<open>The write that fails: the index has the commit, the store has not, and the request fails.\<close>

lemma publish_lost:
  assumes "publish_commit E q s = Some c" "append (app_dag s) c = Inr dag" "db_fault E DbAppendCommit = Some e"
    and "publish_delta_inner E q s = (t, r)"
  shows "\<exists>x. r = Failed x" "app_dag t = dag" "st_commits (app_store t) = st_commits (app_store s)"
    "app_config t = app_config s"
proof -
  obtain t0 d f where t0: "same_ledger s t0" "app_config t0 = app_config s"
    "publish_delta_inner E q s = after (commit_and_broadcast E d c t0) (\<lambda>_ s. (s, Done f))"
    using assms(1) by (rule publish_runs)
  obtain x where "append_commit E c (app_store t0) = Inl x"
    using assms(3) by (cases "json_print E (JArr (map JStr (cm_tags c)))") (simp_all add: append_commit_def guard_fault_def)
  then have "persist_commit E c t0 = (t0\<lparr>app_dag := dag\<rparr>, Failed x)"
    using assms(2) t0(1) by (simp add: persist_commit_def same_ledger_def)
  then have "(t, r) = (t0\<lparr>app_dag := dag\<rparr>, Failed x)"
    using t0(3) assms(4) by (simp add: commit_and_broadcast_def)
  then show "\<exists>x. r = Failed x" "app_dag t = dag" "st_commits (app_store t) = st_commits (app_store s)"
    "app_config t = app_config s" using t0(1,2) by (simp_all add: same_ledger_def)
qed

text \<open>A commit that the index takes and that is written stays, whatever the rest of the publish does.\<close>

lemma publish_stores:
  assumes "publish_commit E q s = Some c" "is_ok (append (app_dag s) c)" "reliable E" "same_codec E E0"
    and "daemon_ok E0 s" "admissible E0 (app_store s) c"
  shows "history E0 (app_store (fst (publish_delta_inner E q s))) = (history E0 (app_store s))(cm_commit_id c \<mapsto> c)"
proof -
  obtain t where t: "same_ledger s t"
    "same_ledger (fst (persist_commit E c t)) (fst (publish_delta_inner E q s))"
    using assms(1) by (rule publish_ledger)
  obtain dag where "append (app_dag t) c = Inr dag" using assms(2) t(1) by (auto simp: same_ledger_def elim: is_okE)
  moreover obtain st where st: "append_commit E c (app_store t) = Inr st" using reliable_append [OF assms(3)] by blast
  ultimately have "st_commits (app_store (fst (persist_commit E c t))) = st_commits st"
    using set_head_commits by (auto simp: persist_commit_def Let_def split: sum.splits)
  then have "history E0 (app_store (fst (publish_delta_inner E q s))) = history E0 st"
    using t(2) by (intro history_cong) (simp add: same_ledger_def)
  moreover have "store_ok E0 (app_store t)" "admissible E0 (app_store t) c"
    using assms(5,6) admissible_same_ledger [OF t(1)] ledger_ok_same_ledger [OF t(1), of E0]
    by (simp_all add: daemon_ok_def ledger_ok_def ledger_of_def)
  moreover have "history E0 (app_store t) = history E0 (app_store s)"
    using t(1) by (intro history_cong) (simp add: same_ledger_def)
  ultimately show ?thesis using persist_history(2) [OF _ assms(4) _ st] by simp
qed

text \<open>A stored commit whose only parent is not stored cannot be replayed.\<close>

lemma replay_misses_parent:
  assumes "store_ok E (app_store s)" "\<And>i. db_fault E (DbGetCommit i) = None" "replay_mode_allowed q"
    and "history E (app_store s) (rq_commit_id q) = Some c" "cm_parent_commit_ids c = [p]"
    and "history E (app_store s) p = None"
  shows "replay_inner E q s = Some (Inl (Anyhow (''commit '' @ p @ '' not found'')))"
proof -
  have get: "get_commit E (app_store s) i = Inr (history E (app_store s) i)" for i
    using assms(1,2) by (simp add: get_commit_ok)
  obtain n where "length (st_commits (app_store s)) = Suc n"
    using assms(4) by (cases "st_commits (app_store s)") (simp_all add: history_def)
  moreover have "\<not> (unwrap_or ModeStateOnly (replay_mode_of (rq_mode q)) = ModeReexecuteTools
      \<and> \<not> rq_confirm_reexecute_tools q)"
    using assms(3) by (cases "replay_mode_of (rq_mode q)") (auto simp: replay_mode_allowed_def)
  ultimately show ?thesis using assms(4-6)
    by (simp add: replay_inner_def replay_def ancestry_commits_def get)
qed

text \<open>
  Claim C20. A lost write leaves a phantom in the index. When the database fails while
  \<open>persist_commit\<close> writes a commit that the index has taken, the publish fails, but the index knows
  the id, which is not stored. A later publish that names this id as its parent is then taken and
  stored, under an id of its own. In every state the daemon reaches after that, through any requests,
  further faults and restarts, as long as the lost commit has not been stored after all, replaying the
  child fails because its parent is missing, and \<open>start\<close> succeeds on no such database.
\<close>

theorem lost_write_breaks_replay:
  assumes "daemon_steps E0 True (initial_state config) s"
    and "same_codec E E0" "publish_commit E q s = Some c" "is_ok (append (app_dag s) c)"
    and "admissible E0 (app_store s) c" "history E0 (app_store s) (cm_commit_id c) = None"
    and "db_fault E DbAppendCommit = Some e" "publish_delta_inner E q s = (t, r)"
    and "same_codec E' E0" "reliable E'" "publish_commit E' q' t = Some c'" "admissible E0 (app_store t) c'"
    and "cm_parent_commit_ids c' = [cm_commit_id c]" "cm_commit_id c' \<notin> insert [] (known_ids t)"
    and "publish_delta_inner E' q' t = (u, r')"
  shows "(\<exists>x. r = Failed x) \<and> cm_commit_id c \<in> known_ids t
     \<and> history E0 (app_store t) (cm_commit_id c) = None
     \<and> history E0 (app_store u) (cm_commit_id c') = Some c'
     \<and> (\<forall>v. daemon_steps E0 True u v \<and> history E0 (app_store v) (cm_commit_id c) = None \<longrightarrow>
          (\<forall>F p. same_codec F E0 \<and> (\<forall>i. db_fault F (DbGetCommit i) = None) \<and> rq_commit_id p = cm_commit_id c'
             \<and> replay_mode_allowed p
             \<longrightarrow> replay_inner F p v = Some (Inl (Anyhow (''commit '' @ cm_commit_id c @ '' not found''))))
          \<and> (\<forall>F rocksdb config' w. same_codec F E0 \<longrightarrow> start F rocksdb config' (app_store v) \<noteq> Inr w))"
proof -
  obtain dag where dag: "append (app_dag s) c = Inr dag" using assms(4) by (rule is_okE)
  note lost = publish_lost [OF assms(3) dag assms(7,8)]
  have t: "cm_commit_id c \<in> known_ids t" "history E0 (app_store t) = history E0 (app_store s)"
    using append_parents(2) [OF dag] lost(2) history_cong [OF lost(3)] by (simp_all add: known_ids_def)
  have st: "app_step E0 True s t" "app_step E0 True t u"
    using app_step.serve [of E E0 True s "Publish q"] app_step.serve [of E' E0 True t "Publish q'"]
      assms(2,3,5,8,9,11,12,15) by (simp_all add: built_ok_def)
  have steps: "daemon_steps E0 True (initial_state config) t" "daemon_steps E0 True (initial_state config) u"
    using assms(1) st by (meson daemon_step.request rtranclp.rtrancl_into_rtrancl)+
  have ok: "daemon_ok E0 t" "daemon_ok E0 u"
    using reached(1) [OF _ same_codec_refl] steps by blast+
  then have "dag_ok (app_dag t)" by (simp add: daemon_ok_def ledger_ok_def ledger_of_def)
  then have "is_ok (append (app_dag t) c')"
    using append_fresh(1) [of "app_dag t" c'] assms(13,14) t(1) by (simp add: known_ids_def)
  then have child: "history E0 (app_store u) (cm_commit_id c') = Some c'"
    using publish_stores [OF assms(11) _ assms(10,9) ok(1) assms(12)] assms(15) by simp
  have "replay_inner F p v = Some (Inl (Anyhow (''commit '' @ cm_commit_id c @ '' not found'')))"
    if "daemon_steps E0 True u v" "history E0 (app_store v) (cm_commit_id c) = None" "same_codec F E0"
      "\<forall>i. db_fault F (DbGetCommit i) = None" "rq_commit_id p = cm_commit_id c'" "replay_mode_allowed p" for v F p
    using replay_misses_parent [of F v p c' "cm_commit_id c"] reached(2,3) [OF rtranclp_trans [OF steps(2) that(1)] that(3)]
      life.steps_keep [OF that(1) ok(2) child] that assms(13) by simp
  moreover have "start F rocksdb config' (app_store v) \<noteq> Inr w"
    if "daemon_steps E0 True u v" "history E0 (app_store v) (cm_commit_id c) = None" "same_codec F E0" for v F rocksdb config' w
    using start_refused [OF reached(2) [OF rtranclp_trans [OF steps(2) that(1)] same_codec_refl] that(3)
        life.steps_keep [OF that(1) ok(2) child], of "cm_commit_id c"] that(2) assms(13) by simp
  ultimately show ?thesis using lost(1) t assms(6) child by auto
qed

section \<open>The daemon that does not come back\<close>

text \<open>A publish with clock 5 from the empty ledger, and a checkpoint on top of it.\<close>

definition late :: state_delta where
  "late = (jot ''x'')\<lparr>sd_logical_clock := 5\<rparr>"

definition late_request :: publish_delta_request where
  "late_request = (jot_request ''x'')\<lparr>pd_delta := Some late\<rparr>"

definition late_commit :: commit where
  "late_commit = from_delta jot_env late [] memo_payload \<lparr>rr_findings = [], rr_redacted = False\<rparr> (publish_extras [] [])"

definition check_request :: checkpoint_request where
  "check_request = memo_checkpoint\<lparr>cq_summary := ''y''\<rparr>"

definition late_env :: env where
  "late_env = jot_env\<lparr>decode_commit := \<lambda>bs. Inr (if bs = ''x'' then late_commit else jot_commit ''y'' [jot_id ''x''])\<rparr>"

lemma late_simps [simp]:
  "db_fault late_env op = None" "json_print late_env v = Inr ''{}''"
  "from_delta late_env d ps p r x = from_delta jot_env d ps p r x"
  "cm_commit_id late_commit = jot_id ''x''" "cm_parent_commit_ids late_commit = []"
  "cm_logical_clock late_commit = 5" "cm_summary late_commit = ''x''"
  "cm_run_id late_commit = ''r''" "cm_thread_id late_commit = ''t''"
  "cm_agent_id late_commit = ''a''" "cm_channel late_commit = ''topic:c''"
  "normalize_delta E late = late" "late\<lparr>sd_payload := Some memo_payload\<rparr> = late"
  "sd_payload late = Some memo_payload" "sd_durable late" "sd_agent_id late = ''a''"
  "sd_run_id late = ''r''" "sd_thread_id late = ''t''" "sd_channel late = ''topic:c''"
  "pd_delta late_request = Some late" "pd_parent_commit_ids late_request = []" "pd_objective late_request = []"
  by (simp_all add: late_env_def jot_env_def example_env_def late_request_def late_commit_def late_def jot_def
      memo_delta_def normalize_delta_def from_delta_def seal_def blake3_hex_def unsealed_def jot_id_def Let_def min_def)

lemma late_codec: "codec_ok late_env late_commit" "codec_ok late_env (jot_commit ''y'' [jot_id ''x''])"
  by (simp_all add: codec_ok_def) (simp_all add: late_env_def)

lemma late_reliable [simp]: "reliable late_env"
  by (simp add: reliable_def)

text \<open>States in which a commit that the index takes is persisted and announced to nobody.\<close>

lemma quiet_commit:
  assumes "reliable E" "db_fault E DbSetHead = None" "app_config s = open_config"
    and "bus_subscriptions (app_bus s) = []" "append (app_dag s) c = Inr dag"
  obtains s' where "commit_and_broadcast E d c s = (s', Done ())" "app_dag s' = dag" "app_config s' = open_config"
    "bus_subscriptions (app_bus s') = []"
proof -
  obtain st where st: "append_commit E c (app_store s) = Inr st" using reliable_append [OF assms(1)] by blast
  obtain st' where st': "set_head E (cm_run_id c) (cm_thread_id c) (cm_agent_id c) (cm_channel c) (cm_commit_id c) st = Inr st'"
    using assms(2) by (simp add: set_head_def Let_def guard_fault_def)
  obtain s1 where s1: "persist_commit E c s = (s1, Done ())" "app_dag s1 = dag" "app_config s1 = open_config"
    "bus_subscriptions (app_bus s1) = []"
    using assms(3-5) st st' by (simp add: persist_commit_def Let_def count_metric_def)
  obtain s2 u where s2: "send_broadcast E d (cm_commit_id c) s1 = (s2, u)"
    by (cases "send_broadcast E d (cm_commit_id c) s1")
  have "u = Done ()" "bus_subscriptions (app_bus s2) = []"
    using s2 s1(4) by (auto simp: send_broadcast_def broadcast_def targets_of_def Let_def push_recent_def update_channel_def)
  moreover have "app_dag s2 = dag" "app_config s2 = open_config"
    using send_broadcast_simps(1,3) [of E d "cm_commit_id c" s1] s2 s1 by simp_all
  ultimately show ?thesis using that [of s2] s1(1) s2 by (simp add: commit_and_broadcast_def inspect_off)
qed

lemma late_published:
  obtains s r where "publish_delta_inner late_env late_request (initial_state open_config) = (s, Done r)" "pr_persisted r"
    "publish_commit late_env late_request (initial_state open_config) = Some late_commit"
    "dg_parents (app_dag s) = [(jot_id ''x'', [])]" "app_config s = open_config" "bus_subscriptions (app_bus s) = []"
proof -
  let ?s = "initial_state open_config"
  have new: "dg_parents (app_dag ?s) = []" "dag_ok (app_dag ?s)" "st_heads (app_store ?s) = []"
    by (simp_all add: initial_state_def new_state_def open_store_def) (simp add: dag_default_def)
  obtain dag where dag: "append (app_dag ?s) late_commit = Inr dag"
    using append_fresh(1) [OF new(2), of late_commit] new(1) by (auto elim: is_okE)
  then have rows: "dg_parents dag = [(jot_id ''x'', [])]"
    using append_fresh(2) [OF new(2), of late_commit] new(1) by (simp add: parent_row_def)
  obtain s where s: "commit_and_broadcast late_env late late_commit ?s = (s, Done ())" "app_dag s = dag"
    "app_config s = open_config" "bus_subscriptions (app_bus s) = []"
    by (rule quiet_commit [OF late_reliable _ _ _ dag]) simp_all
  have "prepare_payload late_env (Some memo_payload) ?s = (?s, Done (memo_payload, \<lparr>rr_findings = [], rr_redacted = False\<rparr>, []))"
    by (simp add: prepare_payload_def fill_payload_def memo_payload_def Let_def)
  moreover have "resolve_parents late_env late [] ?s = Inr []"
    by (simp add: resolve_parents_def get_head_def new(3) guard_fault_def)
  ultimately show ?thesis
    using s rows by (intro that [of s]) (auto simp: publish_delta_inner_def publish_commit_def ensure_channel_permission_def
        Let_def late_commit_def [symmetric])
qed

lemma check_is_jot:
  "normalize_delta late_env (checkpoint_delta late_env check_request) = jot ''y''"
  "checkpoint_extras check_request [] = publish_extras [] []" "cq_parent_commit_ids check_request = []"
  "cq_agent_id check_request = ''a''" "cq_run_id check_request = ''r''" "cq_thread_id check_request = ''t''"
  "cq_channel check_request = ''topic:c''" "cq_artifact_refs check_request = []"
  by (simp_all add: normalize_delta_def checkpoint_delta_def check_request_def memo_checkpoint_def jot_def memo_delta_def
      new_id_def now_def late_env_def jot_env_def example_env_def checkpoint_extras_def publish_extras_def)

lemma late_checkpointed:
  assumes "dg_parents (app_dag s) = [(jot_id ''x'', [])]" "dag_ok (app_dag s)" "app_config s = open_config"
    "bus_subscriptions (app_bus s) = []"
    and "get_head late_env (app_store s) ''r'' ''t'' ''a'' ''topic:c'' = Inr (Some (jot_id ''x''))"
  shows "checkpoint_commit late_env check_request s = Some (jot_commit ''y'' [jot_id ''x''])"
    "\<exists>s' r. checkpoint_inner late_env check_request s = (s', Done r)"
proof -
  let ?c = "jot_commit ''y'' [jot_id ''x'']"
  obtain dag where dag: "append (app_dag s) ?c = Inr dag"
    using append_fresh(1) [OF assms(2), of ?c] assms(1) by (auto simp: jot_ids(2) [symmetric] elim: is_okE)
  obtain s' where s': "commit_and_broadcast late_env (jot ''y'') ?c s = (s', Done ())"
    by (rule quiet_commit [OF late_reliable _ assms(3,4) dag]) simp_all
  have "prepare_payload late_env (Some memo_payload) s = (s, Done (memo_payload, \<lparr>rr_findings = [], rr_redacted = False\<rparr>, []))"
    using assms(3) by (simp add: prepare_payload_def fill_payload_def memo_payload_def Let_def)
  moreover have "resolve_parents late_env (jot ''y'') [] s = Inr [jot_id ''x'']"
    using assms(5) by (simp add: resolve_parents_def)
  ultimately show "checkpoint_commit late_env check_request s = Some ?c"
    "\<exists>s' r. checkpoint_inner late_env check_request s = (s', Done r)"
    using s' assms(3)
    by (simp_all add: checkpoint_commit_def checkpoint_inner_def check_is_jot ensure_channel_permission_def Let_def
        jot_commit_def [symmetric])
qed

theorem restart_fails_after_checkpoint_witness:
  "\<exists>s r s' r'. publish_delta_inner late_env late_request (initial_state open_config) = (s, Done r)
     \<and> checkpoint_inner late_env check_request s = (s', Done r')
     \<and> (\<forall>rocksdb config u. start late_env rocksdb config (app_store s') \<noteq> Inr u)"
proof -
  let ?s0 = "initial_state open_config" and ?y = "jot_commit ''y'' [jot_id ''x'']"
  obtain s r where s: "publish_delta_inner late_env late_request ?s0 = (s, Done r)" "pr_persisted r"
    "publish_commit late_env late_request ?s0 = Some late_commit"
    "dg_parents (app_dag s) = [(jot_id ''x'', [])]" "app_config s = open_config" "bus_subscriptions (app_bus s) = []"
    by (rule late_published)
  have h0: "history late_env (app_store ?s0) = Map.empty"
    by (auto simp: history_def initial_state_def new_state_def open_store_def)
  obtain t d where t: "same_ledger ?s0 t" "commit_and_broadcast late_env d late_commit t = (s, Done ())"
    using publish_Done [OF s(1,2)] s(3) by (metis option.inject)
  have adm: "admissible late_env (app_store ?s0) late_commit" by (simp add: admissible_def late_codec h0)
  have p: "persisted late_env late_commit s" "store_ok late_env (app_store s)"
    using commit_and_broadcast_read [OF rtranclp.rtrancl_refl same_codec_refl _ adm t, of False] same_codec_refl by simp_all
  have "app_step late_env False ?s0 s"
    using app_step.serve [of late_env late_env False ?s0 "Publish late_request"] s(1,3) adm by (simp add: built_ok_def)
  then have run: "daemon_steps late_env False ?s0 s" using daemon_step.request by blast
  have ok: "dag_ok (app_dag s)"
    using reached(1) [OF run same_codec_refl] by (simp add: daemon_ok_def ledger_ok_def ledger_of_def)
  have head: "get_head late_env (app_store s) ''r'' ''t'' ''a'' ''topic:c'' = Inr (Some (jot_id ''x''))"
    and x: "get_commit_inner late_env (jot_id ''x'') s = Inr late_commit"
    using persisted_read [OF p(1) same_codec_refl p(2)] by simp_all
  have c: "checkpoint_commit late_env check_request s = Some ?y"
    using s(4) ok s(5,6) head by (rule late_checkpointed)
  obtain s' r' where s': "checkpoint_inner late_env check_request s = (s', Done r')"
    using late_checkpointed(2) [OF s(4) ok s(5,6) head] by blast
  have "set (keys (dg_parents (app_dag s))) = dom (history late_env (app_store s))"
    using exact_life.steps_inv [OF run daemon_exact_initial] by (simp add: daemon_exact_def ledger_complete_def ledger_of_def)
  then have "dom (history late_env (app_store s)) = {jot_id ''x''}" using s(4) by simp
  then have "history late_env (app_store s) (jot_id ''y'') = None" by (metis domIff jot_ids(2) singletonD)
  then have "built_ok late_env s (checkpoint_commit late_env check_request s)"
    by (simp add: c built_ok_def admissible_def late_codec)
  from restart_fails_after_checkpoint [OF run same_codec_refl _ this s' _ x _ rtranclp.rtrancl_refl same_codec_refl] head
  have "\<forall>rocksdb config u. start late_env rocksdb config (app_store s') \<noteq> Inr u" by (simp add: check_is_jot)
  with s(1) s' show ?thesis by blast
qed

section \<open>The note that was lost\<close>

text \<open>The database fails when \<open>x\<close> is written, and works again when \<open>y\<close> is published on top of it.\<close>

definition full_disk_env :: env where
  "full_disk_env = race_env\<lparr>db_fault := \<lambda>op. if op = DbAppendCommit then Some (Anyhow ''disk full'') else None\<rparr>"

definition child_request :: publish_delta_request where
  "child_request = (jot_request ''y'')\<lparr>pd_parent_commit_ids := [jot_id ''x'']\<rparr>"

lemma full_disk_simps [simp]:
  "db_fault full_disk_env DbAppendCommit = Some (Anyhow ''disk full'')" "db_fault full_disk_env DbGetHead = None"
  "from_delta full_disk_env d ps p r x = from_delta jot_env d ps p r x" "same_codec full_disk_env race_env"
  by (simp_all add: full_disk_env_def race_env_def from_delta_def seal_def blake3_hex_def same_codec_def)

lemma x_is_built: "publish_commit full_disk_env (jot_request ''x'') (initial_state open_config) = Some (jot_commit ''x'' [])"
proof -
  let ?s = "initial_state open_config"
  have "prepare_payload full_disk_env (Some memo_payload) ?s
      = (?s, Done (memo_payload, \<lparr>rr_findings = [], rr_redacted = False\<rparr>, []))"
    by (simp add: prepare_payload_def fill_payload_def memo_payload_def Let_def)
  moreover have "resolve_parents full_disk_env (jot ''x'') [] ?s = Inr []"
    by (simp add: resolve_parents_def get_head_def guard_fault_def initial_state_def new_state_def open_store_def)
  ultimately show ?thesis
    by (simp add: publish_commit_def ensure_channel_permission_def Let_def jot_commit_def [symmetric])
qed

lemma y_is_built:
  assumes "app_config s = open_config"
  shows "publish_commit race_env child_request s = Some (jot_commit ''y'' [jot_id ''x''])"
  using assms by (simp add: publish_commit_def child_request_def ensure_channel_permission_def Let_def jot_prepared
      resolve_parents_def race_sealed jot_commit_def [symmetric])

theorem lost_write_breaks_replay_witness:
  "\<exists>t e u r. publish_delta_inner full_disk_env (jot_request ''x'') (initial_state open_config) = (t, Failed e)
     \<and> publish_delta_inner race_env child_request t = (u, r)
     \<and> replay_inner race_env \<lparr>rq_commit_id = jot_id ''y'', rq_mode = 1, rq_confirm_reexecute_tools = False\<rparr> u
         = Some (Inl (Anyhow (''commit '' @ jot_id ''x'' @ '' not found'')))
     \<and> (\<forall>rocksdb config w. start race_env rocksdb config (app_store u) \<noteq> Inr w)"
proof -
  let ?s = "initial_state open_config" and ?x = "jot_commit ''x'' []" and ?y = "jot_commit ''y'' [jot_id ''x'']"
  obtain t r where t: "publish_delta_inner full_disk_env (jot_request ''x'') ?s = (t, r)"
    by (cases "publish_delta_inner full_disk_env (jot_request ''x'') ?s")
  obtain u r' where u: "publish_delta_inner race_env child_request t = (u, r')"
    by (cases "publish_delta_inner race_env child_request t")
  have h0: "history race_env (app_store ?s) = Map.empty"
    by (auto simp: history_def initial_state_def new_state_def open_store_def)
  have x: "is_ok (append (app_dag ?s) ?x)"
    using append_fresh(1) [of "app_dag ?s" ?x] by (simp add: initial_state_def new_state_def) (simp add: dag_default_def)
  then obtain dag where dag: "append (app_dag ?s) ?x = Inr dag" by (rule is_okE)
  note lost = publish_lost [OF x_is_built dag full_disk_simps(1) t]
  have t': "known_ids t = {jot_id ''x''}" "history race_env (app_store t) = Map.empty"
    using append_parents(2) [OF dag] lost(2) history_cong [OF lost(3), of race_env] h0 initial_empty(2) [of open_config]
    by (simp_all add: known_ids_def)
  have codec: "codec_ok race_env ?x" "codec_ok race_env ?y" using jot_known(1,3) by (simp_all add: known_def)
  have y: "publish_commit race_env child_request t = Some ?y" using lost(4) by (intro y_is_built) simp
  have adm: "admissible race_env (app_store ?s) ?x" "admissible race_env (app_store t) ?y"
    by (simp_all add: admissible_def codec h0 t'(2))
  have fresh: "cm_commit_id ?y \<notin> insert [] (known_ids t)" by (simp add: t'(1) jot_ids(2) [symmetric])
  note all = lost_write_breaks_replay [OF rtranclp.rtrancl_refl full_disk_simps(4) x_is_built x adm(1) _
      full_disk_simps(1) t same_codec_refl reliable_race y adm(2) _ fresh u]
  have "app_step race_env True ?s t"
    using app_step.serve [of full_disk_env race_env True ?s "Publish (jot_request ''x'')"] x_is_built adm(1) t
    by (simp add: built_ok_def)
  then have ok: "daemon_ok race_env t"
    using reached(1) [OF r_into_rtranclp same_codec_refl] daemon_step.request by blast
  then have "is_ok (append (app_dag t) ?y)"
    using append_fresh(1) [of "app_dag t" ?y] t'(1) fresh by (simp add: known_ids_def daemon_ok_def ledger_ok_def ledger_of_def)
  then have "history race_env (app_store u) (jot_id ''x'') = None"
    using publish_stores [OF y _ reliable_race same_codec_refl ok adm(2)] t'(2) u by simp
  then have "replay_inner race_env \<lparr>rq_commit_id = jot_id ''y'', rq_mode = 1, rq_confirm_reexecute_tools = False\<rparr> u
         = Some (Inl (Anyhow (''commit '' @ jot_id ''x'' @ '' not found'')))
     \<and> (\<forall>rocksdb config w. start race_env rocksdb config (app_store u) \<noteq> Inr w)"
    using all by (simp add: h0 replay_mode_allowed_def replay_mode_of_def)
  then show ?thesis using t u lost(1) by blast
qed

end
