(* ===== verification/Startup.thy ===== *)
theory Startup
  imports Daemon
begin

text \<open>
  \<open>run_from_env\<close> and \<open>run\<close> of daemon/src/lib.rs as a whole: the configuration, the shared state, the
  three listeners, and what the process ends with. The operating system is the argument \<open>bind\<close>.
\<close>

section \<open>Listeners\<close>

text \<open>\<open>TcpListener::bind\<close>, with the listeners that the process already holds.\<close>

type_synonym sockets = "socket_addr list \<Rightarrow> socket_addr \<Rightarrow> unit result"

definition bind_listeners :: "sockets \<Rightarrow> config \<Rightarrow> socket_addr list result" where
  "bind_listeners bind config =
     and_then (bind [] (cf_grpc_addr config)) (\<lambda>_.
     and_then (bind [cf_grpc_addr config] (cf_http_addr config)) (\<lambda>_.
     and_then (bind [cf_grpc_addr config, cf_http_addr config] (cf_metrics_addr config)) (\<lambda>_.
       Inr [cf_grpc_addr config, cf_http_addr config, cf_metrics_addr config])))"

section \<open>run\<close>

text \<open>Up to the \<open>select!\<close>: the listeners that the three servers serve, and the state they share.\<close>

definition run ::
    "env \<Rightarrow> bool \<Rightarrow> config \<Rightarrow> sqlite_store \<Rightarrow> sockets \<Rightarrow> (socket_addr list \<times> app_state) result" where
  "run E rocksdb config database bind =
     and_then (start E rocksdb config database) (\<lambda>state.
     and_then (bind_listeners bind config) (\<lambda>listeners.
       Inr (listeners, state)))"

definition run_from_env ::
    "env \<Rightarrow> bool \<Rightarrow> bool \<Rightarrow> lookup \<Rightarrow> lookup \<Rightarrow> lookup \<Rightarrow> sqlite_store \<Rightarrow> sockets
       \<Rightarrow> (socket_addr list \<times> app_state) result" where
  "run_from_env E windows rocksdb var_os var file database bind =
     and_then (from_env windows var_os var file) (\<lambda>config. run E rocksdb config database bind)"

text \<open>
  The \<open>select!\<close>: a signal ends the process well; a server that stops ends it with the result of its
  task, which is an error if it panicked.
\<close>

datatype wakeup = ShutdownSignal | ServerStopped "unit result" | ServerPanicked anyhow

fun select :: "wakeup \<Rightarrow> unit result" where
  "select ShutdownSignal = Inr ()"
| "select (ServerStopped r) = r"
| "select (ServerPanicked e) = Inl e"

text \<open>A whole run of the process, as \<open>main\<close> returns it.\<close>

definition process :: "(socket_addr list \<times> app_state) result \<Rightarrow> wakeup \<Rightarrow> unit result" where
  "process r w = and_then r (\<lambda>_. select w)"

section \<open>What a serving daemon is\<close>

lemma run_Inr_iff:
  "run E rocksdb config database bind = Inr (listeners, s) \<longleftrightarrow>
     start E rocksdb config database = Inr s \<and> bind_listeners bind config = Inr listeners"
  by (auto simp: run_def result_simps)

lemma bind_listeners_Inr:
  "bind_listeners bind config = Inr listeners \<Longrightarrow>
     listeners = [cf_grpc_addr config, cf_http_addr config, cf_metrics_addr config]"
  by (auto simp: bind_listeners_def result_simps)

lemma start_policy:
  "start E rocksdb config database = Inr s \<Longrightarrow> validate_network_policy config = Inr () \<and> app_config s = config"
  by (auto simp: start_def new_state_def result_simps)

text \<open>The first start of a daemon, on an empty database, gives the state from which the other theories reason.\<close>

lemma first_start:
  assumes "start E rocksdb config (open_store config) = Inr s"
  shows "s = initial_state config"
proof -
  have st: "reopen E config (open_store config) = Inr st \<Longrightarrow> st = open_store config" for st
    by (auto simp: reopen_def open_store_def result_simps)
  have "list_all_commits E (open_store config) = Inr cs \<Longrightarrow> cs = []" for cs
    by (auto simp: list_all_commits_def list_commits_def open_store_def result_simps)
  then have "rebuild_index E (open_store config) = Inr d \<Longrightarrow> d = dag_default" for d
    by (auto simp: rebuild_index_def from_commits_def result_simps)
  with st show ?thesis using assms by (auto simp: start_def initial_state_def result_simps)
qed

text \<open>The state that \<open>start\<close> gives on any database.\<close>

lemma start_parts:
  assumes "start E rocksdb config database = Inr s"
  shows "reopen E config database = Inr (app_store s)" "rebuild_index E (app_store s) = Inr (app_dag s)"
    "s = new_state config (new_bus new_metrics) (app_store s) (app_dag s)"
  using assms by (auto simp: start_def new_state_def result_simps)

lemma tokenless_refuses:
  "cf_require_auth config \<Longrightarrow> cf_auth_token config = None \<Longrightarrow> validate_http header config \<noteq> Inr ()"
  by (auto simp: validate_http_def split: option.splits)

text \<open>
  Claim C34. What a daemon that has come up listens on: exactly the three TCP addresses of its settings,
  each a loopback address unless remote binding is switched on, whatever the environment and nexus.toml
  hold, and whatever the bind mode. With the bind mode \<open>tcp\<close> it has a token if it requires one; with any
  other, the default \<open>uds\<close> included, it may require one and have none, and then it refuses every header.
  Its state is the configuration it has read, the store that the database gives, with the same commits
  and heads, the index rebuilt from that store, and for the rest (bus, detector, grants) what a new
  process starts with; on the database of an empty data directory that is the initial state.
\<close>

theorem serving_daemon_is_local:
  assumes "run_from_env E windows rocksdb var_os var file database bind = Inr (listeners, s)"
  shows "from_env windows var_os var file = Inr (app_config s)
     \<and> listeners = [cf_grpc_addr (app_config s), cf_http_addr (app_config s), cf_metrics_addr (app_config s)]
     \<and> (\<not> env_bool var file ''NEXUS_ALLOW_REMOTE'' False \<longrightarrow> (\<forall>a\<in>set listeners. is_loopback (sa_ip a)))
     \<and> (cf_require_auth (app_config s) \<longrightarrow> cf_auth_token (app_config s) \<noteq> None
          \<or> cf_bind_mode (app_config s) \<noteq> ''tcp'' \<and> (\<forall>header. validate_http header (app_config s) \<noteq> Inr ()))
     \<and> reopen E (app_config s) database = Inr (app_store s)
     \<and> st_commits (app_store s) = st_commits database \<and> st_heads (app_store s) = st_heads database
     \<and> rebuild_index E (app_store s) = Inr (app_dag s)
     \<and> s = new_state (app_config s) (new_bus new_metrics) (app_store s) (app_dag s)
     \<and> (database = open_store (app_config s) \<longrightarrow> s = initial_state (app_config s))"
proof -
  obtain config where config: "from_env windows var_os var file = Inr config"
    "start E rocksdb config database = Inr s" "bind_listeners bind config = Inr listeners"
    using assms by (auto simp: run_from_env_def run_Inr_iff result_simps)
  note policy = start_policy [OF config(2)]
  have "(\<not> cf_allow_remote config \<longrightarrow> (\<forall>a\<in>set listeners. is_loopback (sa_ip a)))
      \<and> (cf_bind_mode config = ''tcp'' \<and> cf_require_auth config \<longrightarrow> cf_auth_token config \<noteq> None)"
    using policy bind_listeners_Inr [OF config(3)] by (auto simp: validate_network_policy_iff)
  moreover have "database = open_store config \<longrightarrow> s = initial_state config" using config(2) first_start by blast
  moreover have same: "app_config s = config" using policy by simp
  ultimately show ?thesis
    unfolding same using config(1) bind_listeners_Inr [OF config(3)] from_env_ok(4) [OF config(1)]
      start_parts [OF config(2)] reopen_keeps [OF start_parts(1) [OF config(2)]] tokenless_refuses [of config]
    by blast
qed

theorem serving_daemon_is_local_witness:
  "\<exists>config listeners. run_from_env example_env False False home_only home_only no_file (open_store config) (\<lambda>_ _. Inr ())
       = Inr (listeners, initial_state config)
     \<and> (\<forall>a\<in>set listeners. is_loopback (sa_ip a))"
proof -
  obtain config where c: "from_env False home_only home_only no_file = Inr config"
    "validate_network_policy config = Inr ()" "cf_store config = ''sqlite''"
    using default_config by blast
  have "list_all_commits example_env (open_store config) = Inr []"
    by (simp add: list_all_commits_def list_commits_def open_store_def guard_fault_def example_env_def)
  then have "start example_env False config (open_store config) =
      Inr (new_state config (new_bus new_metrics) (open_store config) dag_default)"
    using c by (simp add: start_def prepare_def reopen_def rebuild_index_def from_commits_def guard_fault_def
        example_env_def open_store_def with_context_def split: option.splits)
  then obtain ls s where r: "run_from_env example_env False False home_only home_only no_file (open_store config) (\<lambda>_ _. Inr ())
      = Inr (ls, s)"
    using c(1) by (simp add: run_from_env_def run_def bind_listeners_def)
  note local = serving_daemon_is_local [OF r]
  have "\<not> env_bool home_only no_file ''NEXUS_ALLOW_REMOTE'' False"
    by (simp add: env_bool_def setting_def no_file_def home_only_def)
  then have safe: "\<forall>a\<in>set ls. is_loopback (sa_ip a)" using local by blast
  have config: "app_config s = config" using local c(1) by simp
  then have "s = initial_state config" using local by blast
  with r safe show ?thesis by blast
qed

end
