(* ===== verification/Routes.thy ===== *)
theory Routes
  imports Http
begin

text \<open>
  The front of the HTTP API: the routes of \<open>serve\<close> in \<open>daemon/src/http/api.rs\<close> and the bodies as
  \<open>serde\<close> reads them into the structs of that file. A field of type \<open>Option\<close> may be absent or null,
  a field with \<open>#[serde(default)]\<close> may be absent, any other must be there, and fields that the
  struct does not have are ignored. The router of axum takes a path apart at its slashes and
  percent-decodes a parameter; percent-decoding is an argument. \<open>None\<close> is a request that axum
  answers itself, before any handler runs.
\<close>

section \<open>Fields\<close>

fun as_bool :: "json \<Rightarrow> bool option" where
  "as_bool (JBool b) = Some b"
| "as_bool _ = None"

fun as_u64 :: "json \<Rightarrow> u64 option" where
  "as_u64 (JNum (PosInt n)) = Some n"
| "as_u64 _ = None"

text \<open>Every item must be read.\<close>

fun read_all :: "('a \<Rightarrow> 'b option) \<Rightarrow> 'a list \<Rightarrow> 'b list option" where
  "read_all f [] = Some []"
| "read_all f (x # xs) =
     (case f x of None \<Rightarrow> None | Some y \<Rightarrow> map_option ((#) y) (read_all f xs))"

fun as_list :: "(json \<Rightarrow> 'a option) \<Rightarrow> json \<Rightarrow> 'a list option" where
  "as_list f (JArr vs) = read_all f vs"
| "as_list f _ = None"

fun as_string_map :: "json \<Rightarrow> (string, string) table option" where
  "as_string_map (JObj m) = read_all (\<lambda>(k, v). map_option (Pair k) (as_str v)) m"
| "as_string_map _ = None"

definition required :: "(json \<Rightarrow> 'a option) \<Rightarrow> json_map \<Rightarrow> string \<Rightarrow> 'a option" where
  "required f m key = Option.bind (map_of m key) f"

definition optional :: "(json \<Rightarrow> 'a option) \<Rightarrow> json_map \<Rightarrow> string \<Rightarrow> 'a option option" where
  "optional f m key =
     (case map_of m key of
        None \<Rightarrow> Some None
      | Some JNull \<Rightarrow> Some None
      | Some v \<Rightarrow> map_option Some (f v))"

definition or_default :: "'a \<Rightarrow> (json \<Rightarrow> 'a option) \<Rightarrow> json_map \<Rightarrow> string \<Rightarrow> 'a option" where
  "or_default d f m key = (case map_of m key of None \<Rightarrow> Some d | Some v \<Rightarrow> f v)"

section \<open>Structs\<close>

text \<open>
  A struct is read from an object, or from an array with its fields in order, of which only those
  with a default may be missing at the end.
\<close>

definition struct_fields :: "string list \<Rightarrow> string list \<Rightarrow> json \<Rightarrow> json_map option" where
  "struct_fields names with_default v =
     (case v of
        JObj m \<Rightarrow> Some m
      | JArr vs \<Rightarrow> if length vs \<le> length names \<and> set (drop (length vs) names) \<subseteq> set with_default
                  then Some (zip names vs) else None
      | _ \<Rightarrow> None)"

definition read_register_agent_body :: "json \<Rightarrow> register_agent_body option" where
  "read_register_agent_body v =
     Option.bind (struct_fields
       [''agent_id'', ''run_id'', ''thread_id'', ''framework'', ''language'', ''capabilities'',
        ''metadata'']
       [''capabilities'', ''metadata''] v) (\<lambda>m.
     Option.bind (required as_str m ''agent_id'') (\<lambda>agent_id.
     Option.bind (required as_str m ''run_id'') (\<lambda>run_id.
     Option.bind (optional as_str m ''thread_id'') (\<lambda>thread_id.
     Option.bind (optional as_str m ''framework'') (\<lambda>framework.
     Option.bind (optional as_str m ''language'') (\<lambda>language.
     Option.bind (or_default [] (as_list as_str) m ''capabilities'') (\<lambda>capabilities.
     Option.bind (or_default [] as_string_map m ''metadata'') (\<lambda>metadata.
       Some \<lparr>rb_agent_id = agent_id, rb_run_id = run_id, rb_thread_id = thread_id,
         rb_framework = framework, rb_language = language, rb_capabilities = capabilities,
         rb_metadata = metadata\<rparr>))))))))"

definition read_publish_delta_body :: "json \<Rightarrow> publish_delta_body option" where
  "read_publish_delta_body v =
     Option.bind (struct_fields
       [''channel'', ''agent_id'', ''run_id'', ''thread_id'', ''delta'', ''durable'', ''tags'',
        ''summary'', ''objective'', ''logical_clock'', ''parent_commit_ids'',
        ''metadata'']
       [''durable'', ''tags'', ''parent_commit_ids'', ''metadata''] v) (\<lambda>m.
     Option.bind (required as_str m ''channel'') (\<lambda>channel.
     Option.bind (required as_str m ''agent_id'') (\<lambda>agent_id.
     Option.bind (required as_str m ''run_id'') (\<lambda>run_id.
     Option.bind (optional as_str m ''thread_id'') (\<lambda>thread_id.
     Option.bind (required Some m ''delta'') (\<lambda>delta.
     Option.bind (or_default False as_bool m ''durable'') (\<lambda>durable.
     Option.bind (or_default [] (as_list as_str) m ''tags'') (\<lambda>tags.
     Option.bind (optional as_str m ''summary'') (\<lambda>summary.
     Option.bind (optional as_str m ''objective'') (\<lambda>objective.
     Option.bind (optional as_u64 m ''logical_clock'') (\<lambda>logical_clock.
     Option.bind (or_default [] (as_list as_str) m ''parent_commit_ids'') (\<lambda>parent_commit_ids.
     Option.bind (or_default [] as_string_map m ''metadata'') (\<lambda>metadata.
       Some \<lparr>pb_channel = channel, pb_agent_id = agent_id, pb_run_id = run_id, pb_thread_id = thread_id,
         pb_delta = delta, pb_durable = durable, pb_tags = tags, pb_summary = summary,
         pb_objective = objective, pb_logical_clock = logical_clock,
         pb_parent_commit_ids = parent_commit_ids, pb_metadata = metadata\<rparr>)))))))))))))"

definition read_side_effect_body :: "json \<Rightarrow> side_effect_body option" where
  "read_side_effect_body v =
     Option.bind (struct_fields
       [''side_effect_id'', ''kind'', ''description'', ''target'', ''payload_summary'',
        ''reversible'', ''compensating_action_available'']
       [] v) (\<lambda>m.
     Option.bind (optional as_str m ''side_effect_id'') (\<lambda>side_effect_id.
     Option.bind (required as_str m ''kind'') (\<lambda>kind.
     Option.bind (optional as_str m ''description'') (\<lambda>description.
     Option.bind (optional as_str m ''target'') (\<lambda>target.
     Option.bind (optional as_str m ''payload_summary'') (\<lambda>payload_summary.
     Option.bind (optional as_bool m ''reversible'') (\<lambda>reversible.
     Option.bind (optional as_bool m ''compensating_action_available'') (\<lambda>available.
       Some \<lparr>eb_side_effect_id = side_effect_id, eb_kind = kind, eb_description = description,
         eb_target = target, eb_payload_summary = payload_summary, eb_reversible = reversible,
         eb_compensating_action_available = available\<rparr>))))))))"

definition read_checkpoint_body :: "json \<Rightarrow> checkpoint_body option" where
  "read_checkpoint_body v =
     Option.bind (struct_fields
       [''agent_id'', ''run_id'', ''thread_id'', ''channel'', ''state'', ''summary'',
        ''objective'', ''tags'', ''parent_commit_ids'', ''metadata'',
        ''external_side_effects'']
       [''tags'', ''parent_commit_ids'', ''metadata''] v) (\<lambda>m.
     Option.bind (required as_str m ''agent_id'') (\<lambda>agent_id.
     Option.bind (required as_str m ''run_id'') (\<lambda>run_id.
     Option.bind (optional as_str m ''thread_id'') (\<lambda>thread_id.
     Option.bind (required as_str m ''channel'') (\<lambda>channel.
     Option.bind (required Some m ''state'') (\<lambda>state.
     Option.bind (optional as_str m ''summary'') (\<lambda>summary.
     Option.bind (optional as_str m ''objective'') (\<lambda>objective.
     Option.bind (or_default [] (as_list as_str) m ''tags'') (\<lambda>tags.
     Option.bind (or_default [] (as_list as_str) m ''parent_commit_ids'') (\<lambda>parent_commit_ids.
     Option.bind (or_default [] as_string_map m ''metadata'') (\<lambda>metadata.
     Option.bind (optional (as_list read_side_effect_body) m
                    ''external_side_effects'') (\<lambda>effects.
       Some \<lparr>cb_agent_id = agent_id, cb_run_id = run_id, cb_thread_id = thread_id, cb_channel = channel,
         cb_state = state, cb_summary = summary, cb_objective = objective, cb_tags = tags,
         cb_parent_commit_ids = parent_commit_ids, cb_metadata = metadata,
         cb_external_side_effects = effects\<rparr>))))))))))))"

definition read_replay_body :: "json \<Rightarrow> replay_body option" where
  "read_replay_body v =
     Option.bind (struct_fields
       [''commit_id'', ''mode'', ''confirm_reexecute_tools'']
       [] v) (\<lambda>m.
     Option.bind (required as_str m ''commit_id'') (\<lambda>commit_id.
     Option.bind (optional as_str m ''mode'') (\<lambda>mode.
     Option.bind (optional as_bool m ''confirm_reexecute_tools'') (\<lambda>confirm.
       Some \<lparr>yb_commit_id = commit_id, yb_mode = mode, yb_confirm_reexecute_tools = confirm\<rparr>))))"

definition read_fork_body :: "json \<Rightarrow> fork_body option" where
  "read_fork_body v =
     Option.bind (struct_fields
       [''source_commit_id'', ''new_run_id'']
       [] v) (\<lambda>m.
     Option.bind (required as_str m ''source_commit_id'') (\<lambda>source_commit_id.
     Option.bind (optional as_str m ''new_run_id'') (\<lambda>new_run_id.
       Some \<lparr>fb_source_commit_id = source_commit_id, fb_new_run_id = new_run_id\<rparr>)))"

definition read_rollback_body :: "json \<Rightarrow> rollback_body option" where
  "read_rollback_body v =
     Option.bind (struct_fields
       [''head_commit_id'', ''target_commit_id'', ''force'']
       [] v) (\<lambda>m.
     Option.bind (required as_str m ''head_commit_id'') (\<lambda>head_commit_id.
     Option.bind (required as_str m ''target_commit_id'') (\<lambda>target_commit_id.
     Option.bind (optional as_bool m ''force'') (\<lambda>force.
       Some \<lparr>lb_head_commit_id = head_commit_id, lb_target_commit_id = target_commit_id,
         lb_force = force\<rparr>))))"

section \<open>Routes\<close>

datatype http_method = GET | POST

text \<open>The parts of a path between its slashes.\<close>

fun split_path :: "string \<Rightarrow> string list" where
  "split_path [] = [[]]"
| "split_path (c # cs) =
     (if c = CHR ''/'' then [] # split_path cs
      else (case split_path cs of p # ps \<Rightarrow> (c # p) # ps | [] \<Rightarrow> [[c]]))"

definition path_part :: "string \<Rightarrow> string" where
  "path_part target = takeWhile ((\<noteq>) (CHR ''?'')) target"

definition query_part :: "string \<Rightarrow> string" where
  "query_part target = drop 1 (dropWhile ((\<noteq>) (CHR ''?'')) target)"

text \<open>A parameter of a route is one part of the path, not empty, and is percent-decoded.\<close>

definition parameter :: "(string \<Rightarrow> string option) \<Rightarrow> (string \<Rightarrow> http_request) \<Rightarrow> string \<Rightarrow> http_request option" where
  "parameter decode f segment = (if segment = [] then None else map_option f (decode segment))"

text \<open>\<open>form\<close> reads a query string into the struct \<open>DiffQuery\<close>.\<close>

definition get_route ::
    "(string \<Rightarrow> string option) \<Rightarrow> (string \<Rightarrow> diff_query option) \<Rightarrow> string \<Rightarrow> http_request option" where
  "get_route decode form target =
     (case split_path (path_part target) of
        [front, api, name] \<Rightarrow>
          if front \<noteq> [] \<or> api \<noteq> ''api'' then None
          else if name = ''health'' then Some GetHealth
          else if name = ''agents'' then Some GetAgents
          else if name = ''channels'' then Some GetChannels
          else if name = ''runs'' then Some GetRuns
          else if name = ''diff'' then map_option GetDiff (form (query_part target))
          else if name = ''loop-warnings'' then Some GetLoopWarnings
          else if name = ''metrics-summary'' then Some GetMetricsSummary
          else None
      | [front, api, name, x] \<Rightarrow>
          if front \<noteq> [] \<or> api \<noteq> ''api'' then None
          else if name = ''commits'' then parameter decode GetCommit x
          else if name = ''events'' \<and> x = ''stream'' then Some GetEventsStream
          else None
      | [front, api, name, x, what] \<Rightarrow>
          if front \<noteq> [] \<or> api \<noteq> ''api'' then None
          else if name = ''channels'' \<and> what = ''snapshot'' then parameter decode GetSnapshot x
          else if name = ''channels'' \<and> what = ''deltas'' then parameter decode GetDeltas x
          else if name = ''runs'' \<and> what = ''commits'' then parameter decode GetRunCommits x
          else None
      | _ \<Rightarrow> None)"

definition post_route :: "string \<Rightarrow> json \<Rightarrow> http_request option" where
  "post_route target body =
     (let path = path_part target in
      if path = ''/api/agents/register'' then map_option PostRegister (read_register_agent_body body)
      else if path = ''/api/deltas'' then map_option PostDelta (read_publish_delta_body body)
      else if path = ''/api/events'' then Some (PostEvent body)
      else if path = ''/api/checkpoint'' then map_option PostCheckpoint (read_checkpoint_body body)
      else if path = ''/api/replay'' then map_option PostReplay (read_replay_body body)
      else if path = ''/api/fork'' then map_option PostFork (read_fork_body body)
      else if path = ''/api/rollback'' then map_option PostRollback (read_rollback_body body)
      else None)"

section \<open>The front\<close>

text \<open>
  What axum reads before a handler runs: the route, the parameters of the path or the query, and for
  a \<open>POST\<close> the body, which must be declared as JSON (\<open>json_header\<close>), parse, and fit the struct.
  \<open>None\<close> is a request that axum answers itself, with a status of its own (404, 405, 400, 415 or
  422), before the handler and its guard are reached. \<open>HEAD\<close> is served as \<open>GET\<close>, the body of the
  answer left out; every other verb axum and the CORS layer answer themselves.
\<close>

definition read_request ::
    "env \<Rightarrow> (string \<Rightarrow> string option) \<Rightarrow> (string \<Rightarrow> diff_query option) \<Rightarrow> http_method \<Rightarrow> string \<Rightarrow> bool \<Rightarrow> bytes
      \<Rightarrow> http_request option" where
  "read_request E decode form verb target json_header body =
     (case verb of
        GET \<Rightarrow> get_route decode form target
      | POST \<Rightarrow> if json_header then Option.bind (json_parse E body) (post_route target) else None)"

datatype 'a front_reply = AxumAnswers | HandlerAnswers 'a

definition serve_front ::
    "env \<Rightarrow> (string \<Rightarrow> string option) \<Rightarrow> (string \<Rightarrow> diff_query option) \<Rightarrow> http_method \<Rightarrow> string \<Rightarrow> string option
      \<Rightarrow> bool \<Rightarrow> bytes \<Rightarrow> app_state \<Rightarrow> app_state \<times> http_reply api_result option front_reply" where
  "serve_front E decode form verb target header json_header body s =
     (case read_request E decode form verb target json_header body of
        None \<Rightarrow> (s, AxumAnswers)
      | Some r \<Rightarrow> (let (s', answer) = serve_http E header r s in (s', HandlerAnswers answer)))"

section \<open>The paths of the open routes\<close>

lemma split_path_join: "CHR ''/'' # path = concat (map ((#) (CHR ''/'')) (split_path path))"
proof (induction path)
  case (Cons c cs)
  show ?case
  proof (cases "split_path cs")
    case Nil
    then show ?thesis using Cons.IH by simp
  next
    case (Cons p ps)
    then show ?thesis using \<open>CHR ''/'' # cs = concat (map ((#) (CHR ''/'')) (split_path cs))\<close> by simp
  qed
qed simp

lemma split_path_eq: "split_path path = ps \<Longrightarrow> path = tl (concat (map ((#) (CHR ''/'')) ps))"
  using split_path_join [of path] by (metis list.sel(3))

lemma parameter_Some: "parameter decode f x = Some r \<Longrightarrow> \<exists>y. r = f y"
  by (auto simp: parameter_def split: if_splits)

lemma get_open_route:
  assumes "get_route decode form target = Some r" "open_route r"
  shows "path_part target \<in> {''/api/health'', ''/api/events/stream''}"
proof -
  have "split_path (path_part target) = [[], ''api'', ''health'']
      \<or> split_path (path_part target) = [[], ''api'', ''events'', ''stream'']"
    using assms by (auto simp: get_route_def open_route_def dest!: parameter_Some split: list.splits if_splits)
  then show ?thesis by (auto dest!: split_path_eq)
qed

lemma post_closed_route: "post_route target body = Some r \<Longrightarrow> \<not> open_route r"
  by (auto simp: post_route_def open_route_def Let_def split: if_splits)

section \<open>The guard at the front\<close>

text \<open>
  Claim C35. Every route but health and the event stream is guarded. Take any \<open>GET\<close> or \<open>POST\<close> request,
  to any path and with any body, whose header is refused by \<open>validate_http\<close>. It leaves the state of the
  daemon as it was. If axum can read its path, query and body for a route, and the route is not one of
  the two, it gets the guard's status; what axum cannot read, it answers itself, before the guard: a
  malformed body is reported as such to a caller without a token. The two open routes are \<open>GET\<close>
  requests for \<open>/api/health\<close> and \<open>/api/events/stream\<close>.
\<close>

theorem refused_requests_do_nothing:
  assumes "validate_http header (app_config s) = Inl status"
  shows "fst (serve_front E decode form verb target header json_header body s) = s
     \<and> (case read_request E decode form verb target json_header body of
          None \<Rightarrow> snd (serve_front E decode form verb target header json_header body s) = AxumAnswers
        | Some r \<Rightarrow>
            (if open_route r
             then verb = GET \<and> path_part target \<in> {''/api/health'', ''/api/events/stream''}
             else snd (serve_front E decode form verb target header json_header body s)
               = HandlerAnswers (Some (Inl (status, guard_message)))))"
proof (cases "read_request E decode form verb target json_header body")
  case (Some r)
  show ?thesis
  proof (cases "open_route r")
    case True
    have "verb = GET" using Some True post_closed_route
      by (cases verb) (auto simp: read_request_def bind_eq_Some_conv split: if_splits)
    then have "path_part target \<in> {''/api/health'', ''/api/events/stream''}"
      using Some True get_open_route by (simp add: read_request_def)
    moreover have "fst (serve_http E header r s) = s" using True by (auto simp: open_route_def stay_def)
    ultimately show ?thesis using Some True \<open>verb = GET\<close> by (simp add: serve_front_def split_beta Let_def)
  next
    case False
    then show ?thesis using Some guarded_handlers [OF assms] by (simp add: serve_front_def)
  qed
qed (simp add: serve_front_def)

text \<open>An unauthorized rollback, and an unauthorized one whose body cannot be read.\<close>

definition rollback_bytes :: bytes where
  "rollback_bytes = ''r''"

definition parse_env :: env where
  "parse_env = example_env\<lparr>json_parse := (\<lambda>bs. if bs = rollback_bytes
     then Some (JObj [(''head_commit_id'', JStr ''b''), (''target_commit_id'', JStr ''a'')]) else None)\<rparr>"

theorem refused_requests_do_nothing_witness:
  "\<exists>s. serve_front parse_env Some (\<lambda>_. None) POST ''/api/rollback'' (Some ''Bearer u'') True rollback_bytes s
        = (s, HandlerAnswers (Some (Inl (Forbidden, guard_message))))
     \<and> serve_front parse_env Some (\<lambda>_. None) POST ''/api/rollback'' (Some ''Bearer u'') True ''{'' s
        = (s, AxumAnswers)"
proof -
  let ?s = "new_state example_config (new_bus new_metrics) (open_store example_config) dag_default"
  have refused: "validate_http (Some ''Bearer u'') (app_config ?s) = Inl Forbidden"
    by (simp add: new_state_def validate_http_def example_config_def bearer_def visible_ascii_def strip_prefix_def)
  note front = refused_requests_do_nothing [OF refused]
  have "read_request parse_env Some (\<lambda>_. None) POST ''/api/rollback'' True rollback_bytes
      = Some (PostRollback \<lparr>lb_head_commit_id = ''b'', lb_target_commit_id = ''a'', lb_force = None\<rparr>)"
    "read_request parse_env Some (\<lambda>_. None) POST ''/api/rollback'' True ''{'' = None"
    by (simp_all add: read_request_def parse_env_def rollback_bytes_def post_route_def path_part_def Let_def
        read_rollback_body_def struct_fields_def required_def optional_def)
  then show ?thesis
    using front [of parse_env Some "\<lambda>_. None" POST "''/api/rollback''" True rollback_bytes]
      front [of parse_env Some "\<lambda>_. None" POST "''/api/rollback''" True "''{''"]
    by (intro exI [of _ ?s]) (auto simp: open_route_def prod_eq_iff)
qed

end
