(* ===== verification/Cli.thy ===== *)
theory Cli
  imports Routes
begin

text \<open>
  The command line tool, \<open>cli/src\<close>: the HTTP client, the requests that the commands send, the
  output, and the polling loop of \<open>subscribe\<close>. The transport (reqwest) and the percent-encoding
  crate are arguments; what is printed is the list of lines.
\<close>

section \<open>client.rs\<close>

record http_client =
  hc_base_url :: string
  hc_token :: "string option"

definition http_client_from_env :: "lookup \<Rightarrow> http_client" where
  "http_client_from_env var =
     \<lparr>hc_base_url = unwrap_or ''http://127.0.0.1:7822'' (var ''NEXUS_HTTP_URL''),
      hc_token = (case var ''NEXUS_AUTH_TOKEN'' of
                    Some value \<Rightarrow> if blank value then None else Some value
                  | None \<Rightarrow> None)\<rparr>"

definition trim_end_slashes :: "string \<Rightarrow> string" where
  "trim_end_slashes s = rev (dropWhile ((=) (CHR ''/'')) (rev s))"

definition request_url :: "http_client \<Rightarrow> string \<Rightarrow> string" where
  "request_url self path = trim_end_slashes (hc_base_url self) @ path"

text \<open>The header that \<open>bearer_auth\<close> adds.\<close>

definition authorization :: "http_client \<Rightarrow> string option" where
  "authorization self = map_option (\<lambda>token. ''Bearer '' @ token) (hc_token self)"

datatype client_error = DaemonReturned string string | InvalidJson

text \<open>\<open>success\<close> and \<open>status\<close> are \<open>is_success\<close> and \<open>Display\<close> of the status of the response.\<close>

definition response_value :: "env \<Rightarrow> bool \<Rightarrow> string \<Rightarrow> string \<Rightarrow> client_error + json" where
  "response_value E success status body =
     (if \<not> success then Inl (DaemonReturned status body)
      else if blank body then Inr JNull
      else (case json_parse E body of Some v \<Rightarrow> Inr v | None \<Rightarrow> Inl InvalidJson))"

section \<open>main.rs: the commands that send one request\<close>

record publish_args =
  pa_channel :: string
  pa_durable :: bool
  pa_agent :: string
  pa_run :: string
  pa_summary :: string

record checkpoint_args =
  ca_agent :: string
  ca_run :: string
  ca_channel :: string
  ca_summary :: string

text \<open>The content of a \<open>--file\<close> argument is the second argument of its command.\<close>

datatype command =
    CmdStatus
  | CmdAgents
  | CmdChannels
  | CmdChannelsInspect string
  | CmdPublish publish_args json
  | CmdCheckpoint checkpoint_args json
  | CmdLog string
  | CmdInspect string
  | CmdDiff string string
  | CmdReplay string
  | CmdFork string "string option"
  | CmdRollback string string bool
  | CmdExport string string

datatype cli_request = CliGet string | CliPost string json

definition publish_value :: "publish_args \<Rightarrow> json \<Rightarrow> json" where
  "publish_value args body = json_object
     [(''channel'', JStr (pa_channel args)),
      (''agent_id'', JStr (pa_agent args)),
      (''run_id'', JStr (pa_run args)),
      (''delta'', body),
      (''durable'', JBool (pa_durable args)),
      (''summary'', JStr (pa_summary args))]"

definition checkpoint_value :: "checkpoint_args \<Rightarrow> json \<Rightarrow> json" where
  "checkpoint_value args body = json_object
     [(''agent_id'', JStr (ca_agent args)),
      (''run_id'', JStr (ca_run args)),
      (''channel'', JStr (ca_channel args)),
      (''state'', body),
      (''summary'', JStr (ca_summary args))]"

definition json_of_option :: "string option \<Rightarrow> json" where
  "json_of_option v = (case v of None \<Rightarrow> JNull | Some s \<Rightarrow> JStr s)"

fun command_request :: "(string \<Rightarrow> string) \<Rightarrow> command \<Rightarrow> cli_request" where
  "command_request encode CmdStatus = CliGet ''/api/health''"
| "command_request encode CmdAgents = CliGet ''/api/agents''"
| "command_request encode CmdChannels = CliGet ''/api/channels''"
| "command_request encode (CmdChannelsInspect channel) =
     CliGet (''/api/channels/'' @ encode channel @ ''/snapshot'')"
| "command_request encode (CmdPublish args body) = CliPost ''/api/deltas'' (publish_value args body)"
| "command_request encode (CmdCheckpoint args body) =
     CliPost ''/api/checkpoint'' (checkpoint_value args body)"
| "command_request encode (CmdLog run) = CliGet (''/api/runs/'' @ encode run @ ''/commits'')"
| "command_request encode (CmdInspect commit_id) = CliGet (''/api/commits/'' @ commit_id)"
| "command_request encode (CmdDiff commit_a commit_b) =
     CliGet (''/api/diff?from='' @ commit_a @ ''&to='' @ commit_b)"
| "command_request encode (CmdReplay commit_id) =
     CliPost ''/api/replay'' (json_object
       [(''commit_id'', JStr commit_id), (''mode'', JStr ''state_only'')])"
| "command_request encode (CmdFork commit_id new_run) =
     CliPost ''/api/fork'' (json_object
       [(''source_commit_id'', JStr commit_id), (''new_run_id'', json_of_option new_run)])"
| "command_request encode (CmdRollback head to force) =
     CliPost ''/api/rollback'' (json_object
       [(''head_commit_id'', JStr head), (''target_commit_id'', JStr to), (''force'', JBool force)])"
| "command_request encode (CmdExport run format) =
     CliGet (''/api/runs/'' @ encode run @ ''/commits?format='' @ format)"

text \<open>One request of \<open>bench\<close>.\<close>

definition bench_value :: "nat \<Rightarrow> string \<Rightarrow> json" where
  "bench_value idx payload = json_object
     [(''channel'', JStr ''topic:bench''),
      (''agent_id'', JStr ''bench''),
      (''run_id'', JStr ''bench-run''),
      (''delta'', json_object [(''idx'', json_of_nat idx), (''payload'', JStr payload)]),
      (''durable'', JBool (idx mod 10 = 0)),
      (''summary'', JStr ''bench event'')]"

section \<open>init and doctor\<close>

definition init_dir :: "lookup \<Rightarrow> string" where
  "init_dir var =
     path_join (case var ''USERPROFILE'' of
                  Some h \<Rightarrow> h
                | None \<Rightarrow> unwrap_or ''.'' (var ''HOME'')) ''.nexus''"

definition init :: "env \<Rightarrow> lookup \<Rightarrow> json result" where
  "init E var =
     and_then (guard_fault (fs_fault E (FsCreateDir (init_dir var)))) (\<lambda>_.
       Inr (json_object
         [(''dataDir'', JStr (init_dir var)),
          (''message'', JStr ''Nexus local data directory is ready'')]))"

text \<open>\<open>exists\<close> is \<open>std::fs::metadata(_).is_ok()\<close>.\<close>

definition doctor :: "lookup \<Rightarrow> (string \<Rightarrow> bool) \<Rightarrow> string + json \<Rightarrow> json" where
  "doctor var exists reached = json_object
     [(''daemonReachable'', JBool (is_ok reached)),
      (''health'', (case reached of Inr v \<Rightarrow> v | Inl err \<Rightarrow> json_object [(''error'', JStr err)])),
      (''authConfigured'', JBool (var ''NEXUS_AUTH_TOKEN'' \<noteq> None)),
      (''dataDirWritable'', JBool (unwrap_or True (map_option exists (var ''NEXUS_DATA_DIR'')))),
      (''dashboardReachable'', JBool True),
      (''protoVersionCompatibility'', JStr ''nexus.v1'')]"

section \<open>Output\<close>

fun rename_agent_last_seen :: "json \<Rightarrow> json" where
  "rename_agent_last_seen (JArr items) = JArr (map rename_agent_last_seen items)"
| "rename_agent_last_seen (JObj m) =
     (case map_of m ''last_seen_seconds'' of
        Some last_seen \<Rightarrow>
          JObj (btree_insert ''last_seen_unix_seconds'' last_seen (btree_remove ''last_seen_seconds'' m))
      | None \<Rightarrow> JObj m)"
| "rename_agent_last_seen other = other"

text \<open>\<open>to_string\<close> is \<open>Display\<close> of a JSON value.\<close>

fun scalar :: "(json \<Rightarrow> string) \<Rightarrow> json \<Rightarrow> string" where
  "scalar to_string (JStr txt) = txt"
| "scalar to_string other = to_string other"

fun compound :: "json \<Rightarrow> bool" where
  "compound (JArr _) = True"
| "compound (JObj _) = True"
| "compound _ = False"

fun print_human :: "(json \<Rightarrow> string) \<Rightarrow> json \<Rightarrow> nat \<Rightarrow> string list"
and print_items :: "(json \<Rightarrow> string) \<Rightarrow> json list \<Rightarrow> nat \<Rightarrow> string list"
and print_fields :: "(json \<Rightarrow> string) \<Rightarrow> (string \<times> json) list \<Rightarrow> nat \<Rightarrow> string list"
where
  "print_human to_string (JArr items) indent = print_items to_string items indent"
| "print_human to_string (JObj m) indent =
     print_fields to_string m indent @ (if indent = 0 then [[]] else [])"
| "print_human to_string v indent = [scalar to_string v]"
| "print_items to_string [] indent = []"
| "print_items to_string (v # vs) indent =
     print_human to_string v indent @ print_items to_string vs indent"
| "print_fields to_string [] indent = []"
| "print_fields to_string ((key, v) # m) indent =
     (if compound v
      then (replicate indent (CHR '' '') @ key @ '':'') # print_human to_string v (indent + 2)
      else [replicate indent (CHR '' '') @ key @ '': '' @ scalar to_string v])
     @ print_fields to_string m indent"

section \<open>subscribe\<close>

text \<open>One turn of the loop: what it prints of the items, and the new value of \<open>seen\<close>.\<close>

definition subscribe_poll :: "nat \<Rightarrow> 'a list \<Rightarrow> 'a list \<times> nat" where
  "subscribe_poll seen items = (drop seen items, length items)"

text \<open>
  A session: between two turns the daemon broadcasts a batch of deltas, and a turn asks for the
  recent deltas of the channel.
\<close>

fun subscribe_session ::
    "string \<Rightarrow> nat \<Rightarrow> (env \<times> state_delta \<times> string) list list \<Rightarrow> bus \<Rightarrow> delta_info list" where
  "subscribe_session channel seen [] b = []"
| "subscribe_session channel seen (ds # batches) b =
     (let b = broadcast_all ds b;
          (printed, seen) = subscribe_poll seen (recent_deltas (Some channel) b)
      in printed @ subscribe_session channel seen batches b)"

definition delta_infos :: "(env \<times> state_delta \<times> string) list \<Rightarrow> delta_info list" where
  "delta_infos ds = map (\<lambda>(E, d, cid). delta_info_of d cid) ds"

definition infos_on :: "string \<Rightarrow> (env \<times> state_delta \<times> string) list \<Rightarrow> delta_info list" where
  "infos_on channel ds = filter (\<lambda>i. channel = di_channel i) (delta_infos ds)"

lemma recent_deltas_on: "recent_deltas (Some channel) b = filter (\<lambda>i. channel = di_channel i) (bus_recent_deltas b)"
  by (simp add: recent_deltas_def)

lemma recent_after:
  "bus_recent_deltas (broadcast_all ds b) = fold (push_bounded 256) (delta_infos ds) (bus_recent_deltas b)"
  by (induction ds b rule: broadcast_all.induct) (simp_all add: broadcast_keeps delta_infos_def)

lemma fold_push: "0 < n \<Longrightarrow> fold (push_bounded n) is (latest n xs) = latest n (xs @ is)"
proof (induction "is" arbitrary: xs)
  case (Cons i "is")
  then show ?case using latest_snoc [of n xs i] Cons.IH [of "xs @ [i]"] by simp
qed simp

lemma latest_short: "length xs \<le> n \<Longrightarrow> latest n xs = xs"
  by (simp add: latest_def)

lemma recent_latest:
  assumes "length (bus_recent_deltas b) \<le> 256"
  shows "bus_recent_deltas (broadcast_all ds b) = latest 256 (bus_recent_deltas b @ delta_infos ds)"
  using fold_push [of 256 "delta_infos ds" "bus_recent_deltas b"] latest_short [OF assms]
  by (simp add: recent_after)

lemma session_complete:
  assumes "length (bus_recent_deltas b) + length (concat batches) \<le> 256"
    and "seen = length (recent_deltas (Some channel) b)"
  shows "subscribe_session channel seen batches b = infos_on channel (concat batches)"
  using assms
proof (induction batches arbitrary: b seen)
  case (Cons ds batches)
  have r: "bus_recent_deltas (broadcast_all ds b) = bus_recent_deltas b @ delta_infos ds"
    using Cons.prems(1) by (simp add: recent_latest latest_short delta_infos_def)
  have "subscribe_session channel (length (recent_deltas (Some channel) (broadcast_all ds b))) batches
      (broadcast_all ds b) = infos_on channel (concat batches)"
    using Cons.prems(1) by (intro Cons.IH) (simp_all add: r delta_infos_def)
  then show ?case using Cons.prems(2)
    by (simp add: subscribe_poll_def recent_deltas_on r infos_on_def delta_infos_def)
qed (simp add: infos_on_def delta_infos_def)

lemma session_silent:
  assumes "length (bus_recent_deltas b) = 256" "list_all (\<lambda>i. channel = di_channel i) (bus_recent_deltas b)"
    and "\<And>ds x. ds \<in> set batches \<Longrightarrow> x \<in> set (delta_infos ds) \<Longrightarrow> channel = di_channel x"
  shows "subscribe_session channel 256 batches b = []"
  using assms
proof (induction batches arbitrary: b)
  case (Cons ds batches)
  let ?b = "broadcast_all ds b"
  have r: "bus_recent_deltas ?b = latest 256 (bus_recent_deltas b @ delta_infos ds)"
    using Cons.prems(1) by (simp add: recent_latest)
  have all: "list_all (\<lambda>i. channel = di_channel i) (bus_recent_deltas ?b)"
    using Cons.prems(2) Cons.prems(3) [of ds] unfolding r list_all_iff latest_def by (auto dest!: in_set_dropD)
  have len: "length (bus_recent_deltas ?b) = 256" unfolding r using Cons.prems(1) by simp
  have "recent_deltas (Some channel) ?b = bus_recent_deltas ?b"
    using all by (auto simp: recent_deltas_on list_all_iff)
  moreover have "subscribe_session channel 256 batches ?b = []"
    using Cons.prems(3) by (intro Cons.IH [OF len all]) auto
  ultimately show ?case using len by (simp add: subscribe_poll_def)
qed simp

text \<open>
  As long as the daemon has broadcast at most 256 deltas since it started, \<open>subscribe\<close>
  prints every delta of its channel once and in order, however the polls fall in between.
\<close>

theorem subscribe_prints_all:
  assumes "length (concat batches) \<le> 256"
  shows "subscribe_session channel 0 batches (new_bus m) = infos_on channel (concat batches)"
  using assms by (intro session_complete) (simp_all add: new_bus_def recent_deltas_def)

text \<open>
  Claim C39. After that it can fall silent. The first poll prints the latest 256 deltas; if all of them
  are of its channel, then as long as the daemon broadcasts on this channel only, no later delta is
  printed, because the list stays at 256 entries and the loop skips as many as it has seen. The
  assumption on the traffic is needed: a delta of another channel takes a place in the list, and when
  the channel gets the place back, a delta is printed again.
\<close>

theorem subscribe_falls_silent:
  assumes "256 \<le> length ds" "\<forall>x\<in>set (delta_infos ds). di_channel x = channel"
    and "\<forall>es\<in>set batches. \<forall>x\<in>set (delta_infos es). di_channel x = channel"
  shows "subscribe_session channel 0 (ds # batches) (new_bus m) = latest 256 (delta_infos ds)"
proof -
  let ?b = "broadcast_all ds (new_bus m)"
  have r: "bus_recent_deltas ?b = latest 256 (delta_infos ds)"
    by (simp add: recent_latest new_bus_def)
  have len: "length (bus_recent_deltas ?b) = 256"
    using assms(1) by (simp add: r delta_infos_def)
  have all: "list_all (\<lambda>i. channel = di_channel i) (bus_recent_deltas ?b)"
    using assms(2) by (auto simp: r list_all_iff latest_def dest!: in_set_dropD)
  then have "recent_deltas (Some channel) ?b = bus_recent_deltas ?b"
    by (auto simp: recent_deltas_on list_all_iff)
  moreover have "subscribe_session channel 256 batches ?b = []"
    using len all assms(3) by (intro session_silent) auto
  ultimately show ?thesis using len by (simp add: subscribe_poll_def) (simp add: r)
qed

section \<open>From the command to the handler\<close>

text \<open>
  What the tool relies on: percent-encoding yields characters that a path may hold and that decoding
  undoes, a dot segment decodes to one or two dots, a string of unreserved characters stands for
  itself, and a query of two such values is read back.
\<close>

definition unreserved :: "char \<Rightarrow> bool" where
  "unreserved c \<longleftrightarrow> c = CHR ''-'' \<or> c = CHR ''_'' \<or> CHR ''A'' \<le> c \<and> c \<le> CHR ''Z''
     \<or> CHR ''a'' \<le> c \<and> c \<le> CHR ''z'' \<or> CHR ''0'' \<le> c \<and> c \<le> CHR ''9''"

definition plain_text :: "string \<Rightarrow> bool" where
  "plain_text s \<longleftrightarrow> s \<noteq> [] \<and> list_all unreserved s"

text \<open>The characters that the crate leaves as they are, those of its output, and those of a path with a query.\<close>

definition kept :: "char \<Rightarrow> bool" where
  "kept c \<longleftrightarrow> unreserved c \<or> c = CHR ''.'' \<or> c = CHR ''~''"

definition segment_char :: "char \<Rightarrow> bool" where
  "segment_char c \<longleftrightarrow> kept c \<or> c = CHR ''%''"


definition dot_segment :: "string \<Rightarrow> bool" where
  "dot_segment t \<longleftrightarrow> t \<in> set [''.'', ''%2e'', ''%2E'', ''..'', ''.%2e'', ''.%2E'', ''%2e.'', ''%2E.'',
     ''%2e%2e'', ''%2e%2E'', ''%2E%2e'', ''%2E%2E'']"

definition url_codec ::
    "(string \<Rightarrow> string) \<Rightarrow> (string \<Rightarrow> string option) \<Rightarrow> (string \<Rightarrow> diff_query option) \<Rightarrow> bool" where
  "url_codec encode decode form \<longleftrightarrow>
     (\<forall>s. decode (encode s) = Some s \<and> list_all segment_char (encode s) \<and> (encode s = [] \<longleftrightarrow> s = []))
     \<and> (\<forall>t. dot_segment t \<longrightarrow> decode t \<in> {Some ''.'', Some ''..''})
     \<and> (\<forall>s. plain_text s \<longrightarrow> decode s = Some s)
     \<and> (\<forall>a b. plain_text a \<and> plain_text b \<longrightarrow> form (''from='' @ a @ ''&to='' @ b)
          = Some \<lparr>dqy_from = a, dqy_to = b, dqy_from_nearest_common_ancestor = None\<rparr>)"



definition routed ::
    "(string \<Rightarrow> string) \<Rightarrow> (string \<Rightarrow> string option) \<Rightarrow> (string \<Rightarrow> diff_query option) \<Rightarrow> cli_request
      \<Rightarrow> http_request option" where
  "routed send decode form q =
     (case q of
        CliGet target \<Rightarrow> get_route decode form (send target)
      | CliPost target body \<Rightarrow> post_route (send target) body)"





lemma split_path_plain: "CHR ''/'' \<notin> set a \<Longrightarrow> split_path a = [a]"
  by (induction a) auto

lemma path_part_append:
  "CHR ''?'' \<notin> set a \<Longrightarrow> path_part (a @ b) = a @ path_part b"
  unfolding path_part_def by (induction a) auto

lemma unreserved_chars:
  "unreserved c \<Longrightarrow> c \<noteq> CHR ''%'' \<and> c \<noteq> CHR ''/'' \<and> c \<noteq> CHR ''?'' \<and> c \<noteq> CHR ''&'' \<and> c \<noteq> CHR ''.''"
  by (intro conjI notI; simp add: unreserved_def less_eq_char_def)





lemma plain_text_chars: "plain_text s \<Longrightarrow> CHR ''/'' \<notin> set s \<and> CHR ''?'' \<notin> set s \<and> s \<noteq> []"
  using unreserved_chars by (auto simp: plain_text_def list_all_iff)















text \<open>
  Where the names are not of this kind a command can stand for something else: \<open>inspect\<close> of an id with
  a question mark in it asks for the commit whose id ends there.
\<close>

theorem inspect_reads_another_commit:
  assumes "url_codec encode decode form" "plain_text a"
  shows "routed id decode form (command_request encode (CmdInspect (a @ ''?'' @ b))) = Some (GetCommit a)"
proof -
  note c = plain_text_chars [OF assms(2)]
  have "path_part (''/api/commits/'' @ a @ ''?'' @ b) = ''/api/commits/'' @ a"
    using c path_part_append [of a "''?'' @ b"] by (simp add: path_part_def)
  moreover have "split_path a = [a]" using c split_path_plain by simp
  moreover have "decode a = Some a" using assms by (simp add: url_codec_def)
  ultimately show ?thesis using c by (simp add: routed_def get_route_def parameter_def)
qed

section \<open>The token\<close>

text \<open>
  The tool and the daemon agree about the token of the environment: with the same
  \<open>NEXUS_AUTH_TOKEN\<close>, not blank and of characters that a header can carry, the daemon accepts the
  header the tool sends, whatever the configuration file says. But the tool does not read the
  configuration file: where the token comes from there and authentication is required, every
  request of the tool is refused.
\<close>

theorem cli_token:
  assumes "from_env windows var_os var file = Inr config"
  shows "case var ''NEXUS_AUTH_TOKEN'' of
      Some t \<Rightarrow> visible_ascii t \<and> \<not> blank t \<longrightarrow>
        validate_http (authorization (http_client_from_env var)) config = Inr ()
    | None \<Rightarrow> cf_require_auth config \<longrightarrow>
        validate_http (authorization (http_client_from_env var)) config = Inl Unauthorized"
proof -
  have token: "cf_auth_token config = optional_env var file ''NEXUS_AUTH_TOKEN''"
    using assms by (auto simp: from_env_def Let_def result_simps)
  show ?thesis
  proof (cases "var ''NEXUS_AUTH_TOKEN''")
    case None
    then show ?thesis
      by (simp add: authorization_def http_client_from_env_def validate_http_def bearer_def split: option.splits)
  next
    case (Some t)
    have "bearer (Some (''Bearer '' @ t)) = Some t" if "visible_ascii t"
      using that by (simp add: bearer_def visible_ascii_def strip_prefix_def)
    then show ?thesis using Some token
      by (simp add: authorization_def http_client_from_env_def validate_http_def optional_env_def setting_def)
  qed
qed

section \<open>The list of agents\<close>

lemma map_of_btree_remove: "map_of (btree_remove k m) j = (if j = k then None else map_of m j)"
  unfolding btree_remove_def by (induction m) auto

text \<open>
  Renaming changes the name of one field and nothing else: the entry
  \<open>last_seen_seconds\<close> of an object is found, with its value, as \<open>last_seen_unix_seconds\<close>, and
  every other field is as it was; the objects of an array are renamed one by one.
\<close>

theorem rename_keeps_values:
  "(\<exists>m'. rename_agent_last_seen (JObj m) = JObj m'
     \<and> (\<forall>k. map_of m' k =
          (if map_of m ''last_seen_seconds'' = None then map_of m k
           else if k = ''last_seen_seconds'' then None
           else if k = ''last_seen_unix_seconds'' then map_of m ''last_seen_seconds''
           else map_of m k)))
   \<and> rename_agent_last_seen (JArr vs) = JArr (map rename_agent_last_seen vs)"
  by (auto simp: table_simps map_of_btree_remove split: option.splits)

section \<open>Examples\<close>

theorem subscribe_prints_all_witness:
  "subscribe_session ''c'' 0 [[(example_env, example_delta True, ''x'')], [(example_env, example_delta False, [])]]
     (new_bus new_metrics) = [delta_info_of (example_delta True) ''x'', delta_info_of (example_delta False) []]"
  using subscribe_prints_all [of "[[(example_env, example_delta True, ''x'')], [(example_env, example_delta False, [])]]"
      "''c''" new_metrics]
  by (simp add: infos_on_def delta_infos_def delta_info_of_def example_delta_def)

theorem subscribe_falls_silent_witness:
  "subscribe_session ''c'' 0 [replicate 256 (example_env, example_delta True, ''x''),
       [(example_env, example_delta False, ''y'')]] (new_bus new_metrics)
     = replicate 256 (delta_info_of (example_delta True) ''x'')"
proof -
  let ?ds = "replicate 256 (example_env, example_delta True, ''x'')"
  have d: "delta_infos ?ds = replicate 256 (delta_info_of (example_delta True) ''x'')"
    by (simp add: delta_infos_def)
  have c: "di_channel (delta_info_of (example_delta b) i) = ''c''" for b i
    by (simp add: delta_info_of_def example_delta_def)
  have "subscribe_session ''c'' 0 (?ds # [[(example_env, example_delta False, ''y'')]]) (new_bus new_metrics)
      = latest 256 (delta_infos ?ds)"
    by (rule subscribe_falls_silent) (simp_all add: d c delta_infos_def)
  then show ?thesis unfolding d by (simp add: latest_short)
qed

text \<open>Percent-encoding as the crate does it, and a reader of the query of \<open>diff\<close>.\<close>

definition hex_char :: "nat \<Rightarrow> char" where
  "hex_char n = char_of (if n < 10 then 48 + n else 55 + n)"

definition hex_value :: "char \<Rightarrow> nat" where
  "hex_value c = (let x = of_char c in if x < 58 then x - 48 else if x < 97 then x - 55 else x - 87)"

definition percent_char :: "char \<Rightarrow> string" where
  "percent_char c =
     (if kept c then [c]
      else [CHR ''%'', hex_char (of_char c div 16), hex_char (of_char c mod 16)])"

definition percent_encode :: "string \<Rightarrow> string" where
  "percent_encode s = concat (map percent_char s)"

fun percent_decode :: "string \<Rightarrow> string option" where
  "percent_decode [] = Some []"
| "percent_decode (c # cs) =
     (if c = CHR ''%''
      then (case cs of
              a # b # ds \<Rightarrow> map_option ((#) (char_of (hex_value a * 16 + hex_value b))) (percent_decode ds)
            | _ \<Rightarrow> None)
      else map_option ((#) c) (percent_decode cs))"

definition diff_form :: "string \<Rightarrow> diff_query option" where
  "diff_form q = Some
     \<lparr>dqy_from = takeWhile ((\<noteq>) (CHR ''&'')) (drop 5 q),
      dqy_to = drop 4 (dropWhile ((\<noteq>) (CHR ''&'')) q),
      dqy_from_nearest_common_ancestor = None\<rparr>"

lemma hex_round [simp]: "n < 16 \<Longrightarrow> hex_value (hex_char n) = n"
  by (simp add: hex_value_def hex_char_def Let_def)

lemma hex_char_unreserved: "n < 16 \<Longrightarrow> unreserved (hex_char n)"
proof -
  have "list_all (\<lambda>n. unreserved (hex_char n)) [0..<16]" by code_simp
  then show "n < 16 \<Longrightarrow> unreserved (hex_char n)" by (auto simp: list_all_iff)
qed

lemma char_div [simp]: "(of_char c :: nat) div 16 < 16"
  by (rule less_mult_imp_div_less) simp

lemma kept_chars: "kept c \<Longrightarrow> c \<noteq> CHR ''%''"
  using unreserved_chars [of c] by (auto simp: kept_def)

lemma percent_decode_char: "percent_decode (percent_char c @ r) = map_option ((#) c) (percent_decode r)"
  using kept_chars [of c] by (auto simp: percent_char_def)

lemma percent_codec: "url_codec percent_encode percent_decode diff_form"
proof -
  have d: "percent_decode (percent_encode s) = Some s" for s
    unfolding percent_encode_def by (induction s) (simp_all add: percent_decode_char)
  have "list_all segment_char (percent_char c) \<and> percent_char c \<noteq> []" for c
    using hex_char_unreserved [of "of_char c div 16"] hex_char_unreserved [of "of_char c mod 16"]
    by (simp add: percent_char_def segment_char_def kept_def)
  then have e: "list_all segment_char (percent_encode s) \<and> (percent_encode s = [] \<longleftrightarrow> s = [])" for s
    unfolding percent_encode_def by (induction s) auto
  have dots: "percent_decode t \<in> {Some ''.'', Some ''..''}" if "dot_segment t" for t
  proof -
    have "char_of (46 :: nat) = CHR ''.''" by code_simp
    then show ?thesis using that by (auto simp: dot_segment_def hex_value_def)
  qed
  have p: "percent_decode s = Some s" if "list_all unreserved s" for s
    using that unreserved_chars by (induction s) auto
  have f: "diff_form (''from='' @ a @ ''&to='' @ b)
      = Some \<lparr>dqy_from = a, dqy_to = b, dqy_from_nearest_common_ancestor = None\<rparr>"
    if "list_all unreserved a" for a b
  proof -
    have "takeWhile ((\<noteq>) (CHR ''&'')) (a @ CHR ''&'' # r) = a"
      "dropWhile ((\<noteq>) (CHR ''&'')) (a @ CHR ''&'' # r) = CHR ''&'' # r" for r
      using that unreserved_chars by (induction a) auto
    then show ?thesis by (simp add: diff_form_def)
  qed
  show ?thesis using d e dots p f by (simp add: url_codec_def plain_text_def)
qed




theorem inspect_reads_another_commit_witness:
  "routed id percent_decode diff_form (command_request percent_encode (CmdInspect ''c_0?x'')) = Some (GetCommit ''c_0'')"
proof -
  have "plain_text ''c_0''" by code_simp
  from inspect_reads_another_commit [OF percent_codec this, of "''x''"] show ?thesis by simp
qed

theorem cli_token_witness:
  "\<exists>config. from_env False home_only home_only no_file = Inr config
     \<and> validate_http (authorization (http_client_from_env home_only)) config = Inl Unauthorized"
proof -
  obtain c where c: "from_env False home_only home_only no_file = Inr c"
    using home_only_from_env [of home_only] by (auto simp: home_only_def)
  then have "cf_require_auth c"
    by (auto simp: from_env_def Let_def result_simps env_bool_def setting_def no_file_def home_only_def)
  then show ?thesis using cli_token [OF c] c by (auto simp: home_only_def)
qed

end
