(* ===== verification/Float64.thy ===== *)
theory Float64
  imports Complex_Main "HOL-Library.Log_Nat" Prelude
begin

text \<open>
  The arithmetic of \<open>f64\<close> on positive values: the exact result, rounded to the nearest number with 53
  significant bits, ties to even. The values stay far from the ends of the exponent range, so
  neither overflow nor subnormal numbers occur.
\<close>

section \<open>Rounding\<close>

definition round_even :: "rat \<Rightarrow> int" where
  "round_even x =
     (if x - of_int \<lfloor>x\<rfloor> < 1/2 \<or> (x - of_int \<lfloor>x\<rfloor> = 1/2 \<and> even \<lfloor>x\<rfloor>) then \<lfloor>x\<rfloor> else \<lfloor>x\<rfloor> + 1)"

text \<open>The exponent of a positive number: 2 to the exponent is at most \<open>x\<close>, and \<open>x\<close> less than twice that.\<close>

definition exponent :: "rat \<Rightarrow> int" where
  "exponent x =
     (if 1 \<le> x then int (floorlog 2 (nat \<lfloor>x\<rfloor>)) - 1 else - int (floorlog 2 (nat (\<lceil>1 / x\<rceil> - 1))))"

definition f64 :: "rat \<Rightarrow> rat" where
  "f64 x = (if x \<le> 0 then 0
            else of_int (round_even (x * 2 powi (52 - exponent x))) * 2 powi (exponent x - 52))"

text \<open>\<open>f64::round\<close> and \<open>as usize\<close>, for values that are not negative.\<close>

definition round_half_up :: "rat \<Rightarrow> nat" where
  "round_half_up x = nat \<lfloor>x + 1/2\<rfloor>"

section \<open>Facts\<close>

lemma round_even_near: "\<bar>of_int (round_even x) - x\<bar> \<le> 1/2"
proof -
  have "x - of_int \<lfloor>x\<rfloor> < 1" "0 \<le> x - of_int \<lfloor>x\<rfloor>" by linarith+
  then show ?thesis by (auto simp: round_even_def)
qed

lemma round_even_mono: "x \<le> y \<Longrightarrow> round_even x \<le> round_even y"
proof -
  assume le: "x \<le> y"
  then have f: "\<lfloor>x\<rfloor> \<le> \<lfloor>y\<rfloor>" by (rule floor_mono)
  have r: "\<lfloor>z\<rfloor> \<le> round_even z" "round_even z \<le> \<lfloor>z\<rfloor> + 1" for z by (simp_all add: round_even_def)
  show ?thesis
  proof (cases "\<lfloor>x\<rfloor> = \<lfloor>y\<rfloor>")
    case True
    then show ?thesis using le by (auto simp: round_even_def)
  next
    case False
    then show ?thesis using f r(2) [of x] r(1) [of y] by linarith
  qed
qed

lemma round_even_int [simp]: "round_even (of_int k) = k"
  by (simp add: round_even_def)

lemma exponent_bounds:
  assumes "0 < x"
  shows "2 powi exponent x \<le> x" "x < 2 powi (exponent x + 1)"
proof -
  have "2 powi exponent x \<le> x \<and> x < 2 powi (exponent x + 1)"
  proof (cases "1 \<le> x")
    case True
    let ?n = "nat \<lfloor>x\<rfloor>" and ?k = "floorlog 2 (nat \<lfloor>x\<rfloor>)"
    have n: "0 < ?n" "of_nat ?n \<le> x" "x < of_nat ?n + 1" using True by linarith+
    have b: "2 ^ (?k - 1) \<le> ?n" "?n < 2 ^ ?k" using floorlog_bounds [OF n(1), of 2] by simp_all
    have k: "0 < ?k" using n(1) by (simp add: floorlog_def)
    have "(2::rat) ^ (?k - 1) = of_nat (2 ^ (?k - 1))" by simp
    also have "\<dots> \<le> of_nat ?n" using b(1) by (simp only: of_nat_le_iff)
    finally have lower: "2 ^ (?k - 1) \<le> x" using n(2) by linarith
    have "x < of_nat (?n + 1)" using n(3) by simp
    also have "(of_nat (?n + 1) :: rat) \<le> of_nat (2 ^ ?k)" using b(2) by (simp only: of_nat_le_iff)
    finally have upper: "x < 2 ^ ?k" by simp
    have "(2::rat) powi (int ?k - 1) = 2 ^ (?k - 1)" using k by (simp add: power_int_def nat_diff_distrib')
    then show ?thesis using lower upper True by (simp add: exponent_def power_int_def)
  next
    case False
    let ?m = "nat (\<lceil>1 / x\<rceil> - 1)" and ?k = "floorlog 2 (nat (\<lceil>1 / x\<rceil> - 1))"
    have inv: "1 < 1 / x" using False assms by (simp add: field_simps)
    then have m: "0 < ?m" "1 / x \<le> of_nat ?m + 1" "of_nat ?m < 1 / x" by linarith+
    have b: "2 ^ (?k - 1) \<le> ?m" "?m < 2 ^ ?k" using floorlog_bounds [OF m(1), of 2] by simp_all
    have k: "0 < ?k" using m(1) by (simp add: floorlog_def)
    have "1 / x \<le> of_nat (?m + 1)" using m(2) by simp
    also have "(of_nat (?m + 1) :: rat) \<le> of_nat (2 ^ ?k)" using b(2) by (simp only: of_nat_le_iff)
    finally have lower: "1 / x \<le> 2 ^ ?k" by simp
    have "(2::rat) ^ (?k - 1) = of_nat (2 ^ (?k - 1))" by simp
    also have "\<dots> \<le> of_nat ?m" using b(1) by (simp only: of_nat_le_iff)
    finally have upper: "2 ^ (?k - 1) < 1 / x" using m(3) by linarith
    have e: "exponent x = - int ?k" using False by (simp add: exponent_def)
    have p: "(2::rat) powi exponent x = 1 / 2 ^ ?k" "(2::rat) powi (exponent x + 1) = 1 / 2 ^ (?k - 1)"
      using k unfolding e by (simp_all add: power_int_def field_simps power_inverse nat_diff_distrib')
    show ?thesis unfolding p using lower upper assms by (simp add: field_simps)
  qed
  then show "2 powi exponent x \<le> x" "x < 2 powi (exponent x + 1)" by simp_all
qed

lemma f64_nonneg: "0 \<le> f64 x"
proof (cases "0 < x")
  case True
  then have "0 \<le> x * 2 powi (52 - exponent x)" by simp
  then have "round_even 0 \<le> round_even (x * 2 powi (52 - exponent x))" by (rule round_even_mono)
  then show ?thesis using round_even_int [of 0] by (simp add: f64_def)
qed (simp add: f64_def)

lemma scale:
  "x * 2 powi (52 - e) * 2 powi (e - 52) = (x::rat)"
  by (simp add: power_int_add [symmetric] mult.assoc)

lemma f64_near:
  assumes "0 < x" shows "\<bar>f64 x - x\<bar> \<le> x / 2 ^ 53"
proof -
  let ?e = "exponent x" and ?y = "x * 2 powi (52 - exponent x)"
  have "f64 x - x = (of_int (round_even ?y) - ?y) * 2 powi (?e - 52)"
    using assms scale [of x ?e] by (simp add: f64_def left_diff_distrib)
  then have "\<bar>f64 x - x\<bar> = \<bar>of_int (round_even ?y) - ?y\<bar> * 2 powi (?e - 52)" by (simp add: abs_mult)
  also have "\<dots> \<le> 1/2 * 2 powi (?e - 52)" by (intro mult_right_mono round_even_near) simp
  also have "1/2 * 2 powi (?e - 52) = (2 powi ?e / 2 ^ 53 :: rat)"
    by (simp add: power_int_diff)
  also have "\<dots> \<le> x / 2 ^ 53" using exponent_bounds(1) [OF assms] by (simp add: divide_right_mono)
  finally show ?thesis .
qed

text \<open>The significand has 53 bits.\<close>

lemma f64_bounds:
  assumes "0 < x" shows "2 powi exponent x \<le> f64 x" "f64 x \<le> 2 powi (exponent x + 1)"
proof -
  let ?e = "exponent x" and ?y = "x * 2 powi (52 - exponent x)"
  have "(2::rat) powi ?e * 2 powi (52 - ?e) = 2 ^ 52" "(2::rat) powi (?e + 1) * 2 powi (52 - ?e) = 2 ^ 53"
    by (simp_all add: power_int_add [symmetric])
  then have y: "of_int (2 ^ 52) \<le> ?y" "?y \<le> of_int (2 ^ 53)"
    using mult_right_mono [OF exponent_bounds(1) [OF assms], of "2 powi (52 - ?e)"]
      mult_right_mono [OF less_imp_le [OF exponent_bounds(2) [OF assms]], of "2 powi (52 - ?e)"] by simp_all
  have r: "2 ^ 52 \<le> round_even ?y" "round_even ?y \<le> 2 ^ 53"
    using round_even_mono [OF y(1)] round_even_mono [OF y(2)] unfolding round_even_int by simp_all
  have "(2::rat) powi ?e = of_int (2 ^ 52) * 2 powi (?e - 52)"
    "(2::rat) powi (?e + 1) = of_int (2 ^ 53) * 2 powi (?e - 52)"
    by (simp_all add: power_int_add [symmetric] power_int_diff power_int_add)
  then show "2 powi ?e \<le> f64 x" "f64 x \<le> 2 powi (?e + 1)"
    using r assms unfolding f64_def by (simp_all del: of_int_power add: mult_right_mono of_int_le_iff)
qed

lemma exponent_mono:
  assumes "0 < x" "x \<le> y" shows "exponent x \<le> exponent y"
proof (rule ccontr)
  assume "\<not> exponent x \<le> exponent y"
  then have "(2::rat) powi (exponent y + 1) \<le> 2 powi exponent x" by (intro power_int_increasing) simp_all
  then show False using exponent_bounds(1) [OF assms(1)] exponent_bounds(2) [of y] assms by linarith
qed

lemma f64_mono: "x \<le> y \<Longrightarrow> f64 x \<le> f64 y"
proof (cases "0 < x")
  case True
  assume le: "x \<le> y"
  with True have y: "0 < y" by simp
  show ?thesis
  proof (cases "exponent x = exponent y")
    case same: True
    have "round_even (x * 2 powi (52 - exponent y)) \<le> round_even (y * 2 powi (52 - exponent y))"
      using le by (intro round_even_mono mult_right_mono) simp_all
    then show ?thesis using True y same by (simp add: f64_def)
  next
    case False
    then have "exponent x + 1 \<le> exponent y" using exponent_mono [OF True le] by simp
    then have "(2::rat) powi (exponent x + 1) \<le> 2 powi exponent y" by (intro power_int_increasing) simp_all
    then show ?thesis using f64_bounds(2) [OF True] f64_bounds(1) [OF y] by linarith
  qed
qed (use f64_nonneg in \<open>simp add: f64_def\<close>)

lemma round_half_up_mono: "x \<le> y \<Longrightarrow> round_half_up x \<le> round_half_up y"
  by (simp add: round_half_up_def floor_mono nat_mono)

end
