(* ===== verification/Bench.thy ===== *)
theory Bench
  imports Cli Float64
begin

text \<open>
  The rest of cli/src/main.rs: the measurements of \<open>bench\<close>, and the reading and printing that all
  commands share. A panic is \<open>None\<close>.
\<close>

section \<open>bench\<close>








section \<open>Files and output\<close>

text \<open>\<open>content\<close> is what \<open>read_to_string\<close> gives.\<close>

definition read_json_file :: "env \<Rightarrow> string result \<Rightarrow> json result" where
  "read_json_file E content =
     and_then content (\<lambda>text. case json_parse E text of
       Some v \<Rightarrow> Inr v
     | None \<Rightarrow> Inl (Anyhow ''invalid JSON''))"

definition publish_command :: "env \<Rightarrow> string result \<Rightarrow> publish_args \<Rightarrow> command result" where
  "publish_command E content args = and_then (read_json_file E content) (\<lambda>body. Inr (CmdPublish args body))"

definition checkpoint_command :: "env \<Rightarrow> string result \<Rightarrow> checkpoint_args \<Rightarrow> command result" where
  "checkpoint_command E content args = and_then (read_json_file E content) (\<lambda>body. Inr (CmdCheckpoint args body))"

text \<open>
  \<open>pretty\<close> is \<open>to_string_pretty\<close> and \<open>to_string\<close> is \<open>Display\<close> of a JSON value.
\<close>

definition print_value :: "(json \<Rightarrow> string result) \<Rightarrow> (json \<Rightarrow> string) \<Rightarrow> json \<Rightarrow> bool \<Rightarrow> string list result" where
  "print_value pretty to_string v json_output =
     (if json_output then and_then (pretty v) (\<lambda>text. Inr [text]) else Inr (print_human to_string v 0))"

text \<open>What a command that sends one request prints: \<open>call\<close> is the HTTP client.\<close>

definition command_output ::
    "(string \<Rightarrow> string) \<Rightarrow> (cli_request \<Rightarrow> json result) \<Rightarrow> (json \<Rightarrow> string result) \<Rightarrow> (json \<Rightarrow> string)
       \<Rightarrow> bool \<Rightarrow> command \<Rightarrow> string list result" where
  "command_output encode call pretty to_string json_output c =
     and_then (call (command_request encode c)) (\<lambda>v.
       print_value pretty to_string (if c = CmdAgents then rename_agent_last_seen v else v) json_output)"

section \<open>The percentiles\<close>











end
