(* ===== verification/Local.thy ===== *)
theory Local
  imports Config
begin

text \<open>
  What the crate offers around the daemon and the running daemon does not call: the local transports
  of daemon/src/ipc, the description of the MCP bridge in daemon/src/mcp, the roles of
  daemon/src/cluster, and the plans and states declared in ledger/compaction.rs and
  security/encryption.rs.
\<close>

section \<open>ipc\<close>

datatype local_transport = UnixDomainSocket string | WindowsNamedPipe string | Tcp socket_addr

text \<open>\<open>show_addr\<close> is \<open>Display\<close> of a socket address.\<close>

fun description :: "(socket_addr \<Rightarrow> string) \<Rightarrow> local_transport \<Rightarrow> string" where
  "description show_addr (UnixDomainSocket path) = ''uds:'' @ path"
| "description show_addr (WindowsNamedPipe name) = ''pipe:'' @ name"
| "description show_addr (Tcp addr) = ''tcp:'' @ show_addr addr"

definition validate_loopback :: "socket_addr \<Rightarrow> bool \<Rightarrow> unit result" where
  "validate_loopback addr allow_remote =
     (if \<not> allow_remote \<and> \<not> is_loopback (sa_ip addr)
      then Inl (Anyhow ''TCP bind must be loopback unless remote binding is explicitly allowed'')
      else Inr ())"

definition supported :: "bool \<Rightarrow> bool" where
  "supported windows = windows"

definition fallback_message :: string where
  "fallback_message =
     ''Windows named pipe support is represented in configuration; TCP loopback is the portable MVP fallback.''"

text \<open>\<open>set_permissions\<close> is the call of the file system; the mode is octal 600.\<close>

definition restrict_current_user :: "bool \<Rightarrow> (string \<Rightarrow> nat \<Rightarrow> unit result) \<Rightarrow> string \<Rightarrow> unit result" where
  "restrict_current_user unix set_permissions path =
     (if unix then and_then (set_permissions path (6 * 8 * 8)) (\<lambda>_. Inr ()) else Inr ())"

lemma description_inject:
  assumes "inj show_addr" shows "inj (description show_addr)"
proof (rule injI)
  fix s t assume "description show_addr s = description show_addr t"
  then show "s = t" using assms by (cases s; cases t) (auto dest: injD)
qed

text \<open>The helper accepts what the network policy of the daemon accepts, address by address.\<close>

lemma policy_validates_addresses:
  "(\<forall>a\<in>{cf_grpc_addr c, cf_http_addr c, cf_metrics_addr c}. validate_loopback a (cf_allow_remote c) = Inr ())
     \<and> (cf_bind_mode c \<noteq> ''tcp'' \<or> \<not> cf_require_auth c \<or> cf_auth_token c \<noteq> None)
   \<longleftrightarrow> validate_network_policy c = Inr ()"
  by (auto simp: validate_network_policy_iff validate_loopback_def)

section \<open>mcp\<close>

definition tools :: "string list" where
  "tools = [''nexus_list_runs'', ''nexus_list_agents'', ''nexus_list_channels'', ''nexus_get_commit'',
     ''nexus_diff_commits'', ''nexus_replay_state'', ''nexus_fork_run'', ''nexus_search_commits'',
     ''nexus_get_channel_snapshot'']"

definition resources :: "string list" where
  "resources = [''nexus://runs'', ''nexus://runs/{run_id}'', ''nexus://channels'',
     ''nexus://channels/{channel}'', ''nexus://commits/{commit_id}'']"

record mcp_bridge_info =
  mcp_tools :: "string list"
  mcp_resources :: "string list"
  mcp_local_only :: bool

definition bridge_info :: mcp_bridge_info where
  "bridge_info = \<lparr>mcp_tools = tools, mcp_resources = resources, mcp_local_only = True\<rparr>"

lemma bridge_info_distinct: "distinct (mcp_tools bridge_info @ mcp_resources bridge_info)"
  by (simp add: bridge_info_def tools_def resources_def)

section \<open>cluster, compaction, encryption\<close>

record forwarder_status =
  fs_primary_addr :: "string option"
  fs_connected :: bool

record member =
  mem_id :: string
  mem_role :: string
  mem_local_only :: bool

record primary_config = durable_writes_owned :: bool

record worker_config = forwards_durable_deltas :: bool

definition default_primary :: primary_config where
  "default_primary = \<lparr>durable_writes_owned = True\<rparr>"

definition default_worker :: worker_config where
  "default_worker = \<lparr>forwards_durable_deltas = True\<rparr>"

record compaction_plan =
  keep_recent_commits :: nat
  preserve_all_history :: bool

definition default_plan :: compaction_plan where
  "default_plan = \<lparr>keep_recent_commits = 10000, preserve_all_history = True\<rparr>"

record encryption_status =
  es_enabled :: bool
  es_message :: string

definition encryption_state :: "bool \<Rightarrow> encryption_status" where
  "encryption_state enabled = \<lparr>es_enabled = enabled, es_message =
     (if enabled then ''encryption-at-rest is configured by the local deployment''
      else ''encryption-at-rest is disabled by default for the local MVP'')\<rparr>"

end
