(* ===== verification/Spec2Isabelle.thy ===== *)
theory Spec2Isabelle
  imports Orders Outage Startup Bench Local
begin

text \<open>
  Verification of the Attow Nexus daemon \<open>nexusd\<close> and its command line tool \<open>nexus\<close>, the Rust
  crates under src/daemon and src/cli.

  The program. Agents publish deltas on channels over gRPC or HTTP. The service
  (daemon/src/grpc/service.rs, \<open>AppState\<close>) checks the permission of the agent, redacts the payload,
  moves a large payload to an artifact file, and, for a durable delta or a checkpoint, builds a
  content-addressed commit, adds it to the index of the history in memory (ledger/dag.rs), writes it
  to SQLite (ledger/sqlite_store.rs), makes it the head of its run, thread, agent and channel, sends
  it to the subscribers (bus/mod.rs) and looks for loops (loop_detection). Readers diff, replay,
  fork and roll back. At start-up (lib.rs) the index is rebuilt from the database. The command line
  tool (cli/src) speaks to the HTTP interface.

  Theories, from the bottom up, and what they model.
    Prelude, Reachability, Pool: results of fallible code, tables, bounded windows; transition systems
      (\<open>preserved\<close>, \<open>growing\<close>, \<open>refinement\<close>) and tasks that run interleaved over a shared state, with
      the rely-guarantee rule (\<open>interleaving\<close>); instantiated for the ledger, the daemon and its requests.
    Json, Utf8, Proto, NetAddr, Env: serde_json values, UTF-8, the protobuf messages (src/proto),
      socket addresses as the standard library reads them, and the environment of a request.
    Config, Auth: config.rs, auth/*.rs and the check of grpc/interceptors.rs.
    Dag, Diff, CommitBuild, LoopDetection, Redaction: ledger/dag.rs, diff.rs, commit.rs,
      loop_detection/*.rs, security/redaction.rs.
    Store, Replay, Rollback: ledger/sqlite_store.rs with head.rs, replay.rs, rollback.rs and fork.rs.
    Bus: bus/mod.rs and the counters of observability/metrics.rs.
    Service: the operations of \<open>AppState\<close> in grpc/service.rs.
    Ledger: what the operations may do to index and store, as an abstract state machine that allows
      more than the code does, and the rebuilding of the index.
    Http, Routes, Grpc: the handlers of http/api.rs, its routes, the reading of path, query and body
      that comes before a handler, and the tonic service.
    System, Daemon: the daemon as a state machine whose steps are requests, receivers that read or
      leave, and restarts; its refinement of the ledger; \<open>start\<close>, the beginning of \<open>run\<close> in lib.rs.
    Startup: the rest of \<open>run\<close>, \<open>run_from_env\<close> and main.rs.
    Tasks: publish, checkpoint, fork and rollback again, as tasks that stop between any two accesses to
      the shared state; a step is one lock. Concurrent: what every interleaving keeps of index and
      store. Crash: the same with the process stopped and started at any point. Progress: every task
      comes to rest. Simulation: a request run as one step is one of its
      interleavings. Delivery: bounds, and delivery of durable deltas. Races, Orders: executions that
      only interleaving allows. Outage: what a daemon does not survive.
    Local: what ipc, mcp, cluster and a few other modules declare and the running daemon does not use.
    Float64, Cli, Bench: rounding of \<open>f64\<close>; cli/src/main.rs, client.rs and output.rs.
    Example and this theory: a concrete run, and the properties of the daemon as a whole.

  State. A struct is a \<open>record\<close> with the fields of the source, a prefix telling the structs apart;
  a map that is iterated, or a SQL table, is an association list; u64, i64, u32 and i32 are words and
  wrap. What the code does not define is a field of the record \<open>env\<close>, passed to every operation that
  uses it: hashing, the protobuf codec, JSON parsing and printing, regular expressions, zstd, random
  ids, the clock, and the faults of database, file system and receivers. Each request has an
  environment of its own; all that the properties assume of them is stated with each property, as
  \<open>same_codec\<close> (one codec for all requests), \<open>reliable\<close> (the write of a commit succeeds) or
  \<open>built_ok\<close> (the codec reads back the commit that this request builds, and its id does not clash
  with that of a different stored commit). An operation returns the state with its outcome:
  \<open>Done\<close>, \<open>Failed\<close> with what it had done before it failed still done, or \<open>Blocked\<close>, when it waits for
  ever for a subscriber. Up to Daemon a request runs as one step; from Tasks on it is a task among
  others (\<open>task\<close> is its program counter with its local data, \<open>advance\<close> its next step), and requests
  that arrive, receivers and requests of other kinds step in between. There the assumption on ids is
  that an id stands for one commit during the life of the daemon (\<open>known\<close>).

  What the properties show. The ledger is append only and stays consistent through any requests,
  lost writes and restarts (\<open>commits_are_immutable\<close>, \<open>reachable_daemon_ok\<close>,
  \<open>requests_refine_ledger\<close>); an answered publish can be read back (\<open>publish_reads_back\<close>), one that
  hangs has been stored all the same (\<open>stalled_publish_is_committed\<close>), an ephemeral one is not stored;
  a restart resumes (\<open>restart_resumes\<close>) if the start-up query lists parents first, which it does not
  after a checkpoint on top of a commit with a positive clock (\<open>restart_fails_after_checkpoint\<close>);
  replay comes to an end and walks the ancestry (\<open>reachable_replay_returns\<close>), but not below a commit
  whose parent was lost by a failed write (\<open>lost_write_breaks_replay\<close>).
  With requests in steps the ledger is consistent in every interleaving (\<open>interleaved_requests_ok\<close>),
  what was answered survives a crash at any point (\<open>answered_commits_survive\<close>), memory is bounded,
  durable deltas reach every subscriber that stays, and under a fair scheduler every request ends or
  waits for a full queue (\<open>requests_end\<close>); what is lost is the chain of heads
  (\<open>concurrent_publish_forks_history\<close>, against \<open>publish_extends_head\<close>), the last word of a rollback
  (\<open>rollback_undone_by_publish\<close>) and a common order of deltas (\<open>subscribers_disagree\<close>).
  Component theories characterise each operation: ancestry and common ancestors, replay and merge,
  rollback and fork, redaction, delivery and backpressure, loop warnings, diffs, artifacts, content
  addressing, tokens, the network policy and what a running daemon listens on, the validation of
  events, the agreement of the two transports, and the requests and statistics of the command line
  tool. Several state what the code does where it is not what its documents say.

  Fuel and termination. \<open>collect\<close> (replay.rs) recurses over stored parents and would not end on a
  cyclic store: it takes fuel, one unit for each level of the recursion. \<open>replay_inner\<close> gives it one
  more than there are stored commits, which \<open>reachable_replay_returns\<close> shows to be enough in every
  state the daemon reaches. The walks of dag.rs need no bound: they are proved to terminate on every
  index, cyclic or not, because the set of ids seen grows. All other recursions are structural or
  proved to terminate.

  Not modelled. The stack and the time: \<open>collect\<close> and \<open>collect_ancestry\<close> are native recursions as deep as the
  history, a level of \<open>collect\<close> holds a commit, and tokio's workers have a stack of fixed size,
  so that a long enough history overflows it, which aborts the process; \<open>collect\<close> also walks
  an ancestor once for every path to it. Memory, except where \<open>bench\<close> asks for more than an allocation may
  have. The servers, sockets, signals and logging (grpc/server.rs, shutdown.rs,
  tracing_setup.rs), which are I/O; of axum's extraction of path, query and body that it comes before the
  handler and may refuse, not the answer it then gives; of reqwest that it settles a path and cuts the
  query from it, not its URL parser; the file system below put and get of an artifact; the SQL engine
  beyond the effect of each statement, and a crash inside one call of the store; timing; the permits
  that tokio reserves for senders waiting for one queue, and their order (any is allowed); error.rs and other
  modules of types and re-exports that no code uses; clap's reading of the command line; the SDKs and the
  console, which are not Rust.

  Left for later: the reading operations in steps.
\<close>

section \<open>Properties of the daemon\<close>

text \<open>
  Claim C6. The requests of \<open>AppState\<close>, in any order, with the receivers of subscribers reading
  and leaving in between, do to index and store only what the ledger allows: every run from a new
  data directory is, seen through \<open>ledger_of\<close>, a sequence of ledger steps.
\<close>

theorem requests_refine_ledger:
  assumes "app_steps E0 lossy (initial_state config) s"
  shows "ledger_steps E0 lossy (empty_ledger config) (ledger_of s)"
  using daemon.steps_refine [OF assms] by simp

theorem requests_refine_ledger_witness:
  "\<exists>s. ledger_steps memo_env True (empty_ledger open_config) (ledger_of s)
     \<and> history memo_env (app_store s) (cm_commit_id memo_commit) = Some memo_commit"
proof -
  obtain s r where s: "publish_delta_inner memo_env (memo True) (initial_state open_config) = (s, Done r)"
    "pr_persisted r" "pr_commit_id r = cm_commit_id memo_commit"
    "app_steps memo_env True (initial_state open_config) s"
    "daemon_steps memo_env True (initial_state open_config) s"
    by (rule memo_daemon)
  show ?thesis
    using requests_refine_ledger [OF s(4)] memo_read(1) [OF s(1,2)] unfolding persisted_def by blast
qed

text \<open>
  Claim C3. In every state that a daemon reaches, through any requests, lost writes and restarts,
  the index has no cycle, the rows decode, the index records the parents of every stored commit,
  every head points to a stored commit, no subscription lacks its queue or shares it, at most 256
  recent deltas are kept, and no detection window is longer than 12. Without lost writes the
  index knows exactly the stored commits.
\<close>

theorem reachable_daemon_ok:
  assumes "daemon_steps E0 lossy (initial_state config) s"
  shows "daemon_ok E0 s \<and> (\<not> lossy \<longrightarrow> ledger_complete E0 (ledger_of s))"
proof -
  have "daemon_ok E0 s"
    using life.steps_inv [OF assms] daemon_exact_initial by (simp add: daemon_exact_def)
  moreover have "ledger_complete E0 (ledger_of s)" if "\<not> lossy"
    using exact_life.steps_inv [of E0 _ s] assms that daemon_exact_initial
    by (auto simp: daemon_exact_def)
  ultimately show ?thesis by blast
qed

theorem reachable_daemon_ok_witness:
  "daemon_ok memo_env full \<and> ledger_complete memo_env (ledger_of full)
     \<and> bus_subscriptions (app_bus full) \<noteq> []"
proof -
  have "daemon_steps memo_env False (initial_state open_config) full"
    using full_steps by (rule rtranclp_mono [THEN predicate2D, rotated]) (auto intro: daemon_step.request)
  moreover have "bus_subscriptions (app_bus full) \<noteq> []"
    by (simp add: full_def subscribed_def send_broadcast_def broadcast_def Let_def split_beta
      grpc_subscribe_def subscribe_def initial_state_def new_state_def new_bus_def fresh_queue_def clamp_def
      send_one_def try_send_def set_queue_def targets_of_def subscription_matches_def filter_matches_def
      channel_pattern_matches_def queue_of_def push_recent_def update_channel_def memo_delta_def)
  ultimately show ?thesis using reachable_daemon_ok by blast
qed

text \<open>
  Claim C1. The history is append only: a commit that the service has answered once is answered
  again, unchanged, after any further requests, failures and restarts, unless that read fails.
\<close>

theorem commits_are_immutable:
  assumes "daemon_steps E0 lossy (initial_state config) s" "daemon_steps E0 lossy s s'"
    and "same_codec E E0" "get_commit_inner E i s = Inr c"
    and "same_codec E' E0" "db_fault E' (DbGetCommit i) = None"
  shows "get_commit_inner E' i s' = Inr c"
proof -
  have s': "daemon_steps E0 lossy (initial_state config) s'" using assms(1,2) by simp
  note r = reached [OF assms(1,3)] and r' = reached [OF s' assms(5)]
  have "history E0 (app_store s) i = Some c"
    using assms(4) r(2,3) by (simp add: get_commit_inner_Inr)
  then have "history E0 (app_store s') i = Some c"
    using life.steps_keep [OF assms(2) r(1)] by blast
  then show ?thesis using assms(6) r'(2,3) by (simp add: get_commit_inner_Inr)
qed

theorem commits_are_immutable_witness:
  "\<exists>db s'. start memo_env False open_config db = Inr s'
     \<and> get_commit_inner memo_env (cm_commit_id memo_commit) s' = Inr memo_commit"
proof -
  obtain s r where s: "publish_delta_inner memo_env (memo True) (initial_state open_config) = (s, Done r)"
    "pr_persisted r" "daemon_steps memo_env False (initial_state open_config) s"
    by (rule memo_daemon)
  obtain s' where s': "start memo_env False open_config (app_store s) = Inr s'"
    using exact_life.steps_inv [OF s(3) daemon_exact_initial] by (rule memo_restarts)
  have steps: "daemon_steps memo_env False s s'"
    using daemon_step.restart [of memo_env memo_env False open_config s s' False] s' by auto
  have read: "get_commit_inner memo_env (cm_commit_id memo_commit) s = Inr memo_commit"
    using memo_read [OF s(1,2)] by (simp add: get_commit_inner_Inr persisted_def)
  from commits_are_immutable [OF s(3) steps same_codec_refl read same_codec_refl memo_env_simps(1)] s'
  show ?thesis by blast
qed

text \<open>
  Claim C2. Reading one's own writes: when a publish answers that its delta is persisted, the id
  in the answer is that of the commit the request built, the service returns exactly this commit
  for it, and it is the head of its run, thread, agent and channel.
\<close>

theorem publish_reads_back:
  assumes "daemon_steps E0 lossy (initial_state config) s" "same_codec E E0" "lossy \<or> reliable E"
    and "built_ok E0 s (publish_commit E q s)"
    and "publish_delta_inner E q s = (s', Done r)" "pr_persisted r"
    and "same_codec E' E0" "db_fault E' (DbGetCommit (pr_commit_id r)) = None" "db_fault E' DbGetHead = None"
  shows "\<exists>c. publish_commit E q s = Some c \<and> pr_commit_id r = cm_commit_id c
     \<and> get_commit_inner E' (pr_commit_id r) s' = Inr c
     \<and> get_head E' (app_store s') (cm_run_id c) (cm_thread_id c) (cm_agent_id c) (cm_channel c)
         = Inr (Some (pr_commit_id r))"
proof -
  obtain t d c where c: "same_ledger s t" "publish_commit E q s = Some c"
    "commit_and_broadcast E d c t = (s', Done ())" "pr_commit_id r = cm_commit_id c"
    using assms(5,6) by (rule publish_Done)
  have "admissible E0 (app_store s) c" using assms(4) c(2) by (simp add: built_ok_def)
  note w = commit_and_broadcast_read [OF assms(1-3) this c(1,3)]
  show ?thesis
    using persisted_read [OF w(1) assms(7) w(2) [OF _ assms(7)]] assms(8,9) c(2,4) by auto
qed

theorem publish_reads_back_witness:
  "\<exists>s r. publish_delta_inner memo_env (memo True) (initial_state open_config) = (s, Done r)
     \<and> get_commit_inner memo_env (pr_commit_id r) s = Inr memo_commit"
proof -
  obtain s r where s: "publish_delta_inner memo_env (memo True) (initial_state open_config) = (s, Done r)"
    "pr_persisted r"
    by (rule memo_daemon)
  from publish_reads_back [OF rtranclp.rtrancl_refl same_codec_refl _ memo_built_ok [OF fresh_initial] s same_codec_refl]
  have "get_commit_inner memo_env (pr_commit_id r) s = Inr memo_commit"
    by (auto simp: memo_built [OF fresh_initial])
  with s(1) show ?thesis by blast
qed

text \<open>
  The same for checkpoints, which are always durable: an answered checkpoint is stored,
  can be read back and is the head of its coordinates.
\<close>

theorem checkpoint_reads_back:
  assumes "daemon_steps E0 lossy (initial_state config) s" "same_codec E E0" "lossy \<or> reliable E"
    and "built_ok E0 s (checkpoint_commit E q s)"
    and "checkpoint_inner E q s = (s', Done r)"
    and "same_codec E' E0" "db_fault E' (DbGetCommit (cr_commit_id r)) = None" "db_fault E' DbGetHead = None"
  shows "\<exists>c. checkpoint_commit E q s = Some c \<and> cr_commit_id r = cm_commit_id c
     \<and> get_commit_inner E' (cr_commit_id r) s' = Inr c
     \<and> get_head E' (app_store s') (cm_run_id c) (cm_thread_id c) (cm_agent_id c) (cm_channel c)
         = Inr (Some (cr_commit_id r))"
proof -
  obtain t d c where c: "same_ledger s t" "checkpoint_commit E q s = Some c"
    "commit_and_broadcast E d c t = (s', Done ())" "cr_commit_id r = cm_commit_id c"
    using assms(5) by (rule checkpoint_Done)
  have "admissible E0 (app_store s) c" using assms(4) c(2) by (simp add: built_ok_def)
  note w = commit_and_broadcast_read [OF assms(1-3) this c(1,3)]
  show ?thesis
    using persisted_read [OF w(1) assms(6) w(2) [OF _ assms(6)]] assms(7,8) c(2,4) by auto
qed

theorem checkpoint_reads_back_witness:
  "\<exists>s r. checkpoint_inner memo_env memo_checkpoint (initial_state open_config) = (s, Done r)
     \<and> get_commit_inner memo_env (cr_commit_id r) s = Inr memo_commit"
proof -
  obtain s r where s: "checkpoint_inner memo_env memo_checkpoint (initial_state open_config) = (s, Done r)"
    using memo_checkpointed [OF fresh_initial initial_silent] by blast
  have "built_ok memo_env (initial_state open_config)
      (checkpoint_commit memo_env memo_checkpoint (initial_state open_config))"
    using fresh_initial
    by (simp add: memo_checkpoint_built built_ok_def memo_admissible fresh_for_memo_def)
  from checkpoint_reads_back [OF rtranclp.rtrancl_refl same_codec_refl _ this s same_codec_refl]
  have "get_commit_inner memo_env (cr_commit_id r) s = Inr memo_commit"
    by (auto simp: memo_checkpoint_built [OF fresh_initial])
  with s show ?thesis by blast
qed

text \<open>
  Claim C17. A durable publish that never answers, because a subscriber with a full queue does not
  read, has nevertheless been stored and made the head.
\<close>

theorem stalled_publish_is_committed:
  assumes "daemon_steps E0 lossy (initial_state config) s" "same_codec E E0" "lossy \<or> reliable E"
    and "built_ok E0 s (publish_commit E q s)" "pd_delta q = Some d" "sd_durable d"
    and "publish_delta_inner E q s = (s', Blocked)"
    and "same_codec E' E0" "\<And>i. db_fault E' (DbGetCommit i) = None" "db_fault E' DbGetHead = None"
  shows "\<exists>c. publish_commit E q s = Some c \<and> get_commit_inner E' (cm_commit_id c) s' = Inr c
     \<and> get_head E' (app_store s') (cm_run_id c) (cm_thread_id c) (cm_agent_id c) (cm_channel c)
         = Inr (Some (cm_commit_id c))"
proof -
  obtain t e c where c: "same_ledger s t" "publish_commit E q s = Some c"
    "commit_and_broadcast E e c t = (s', Blocked)"
    using assms(7,5,6) by (rule publish_Blocked)
  have "admissible E0 (app_store s) c" using assms(4) c(2) by (simp add: built_ok_def)
  note w = commit_and_broadcast_read [OF assms(1-3) this c(1,3)]
  show ?thesis
    using persisted_read [OF w(1) assms(8) w(2) [OF _ assms(8)]] assms(9,10) c(2) by auto
qed

theorem stalled_publish_is_committed_witness:
  "\<exists>s. publish_delta_inner memo_env (memo True) full = (s, Blocked)
     \<and> get_commit_inner memo_env (cm_commit_id memo_commit) s = Inr memo_commit"
proof -
  obtain s where s: "publish_delta_inner memo_env (memo True) full = (s, Blocked)"
    using full_blocks by blast
  have "daemon_steps memo_env False (initial_state open_config) full"
    using full_steps by (rule rtranclp_mono [THEN predicate2D, rotated]) (auto intro: daemon_step.request)
  from stalled_publish_is_committed [OF this same_codec_refl _ memo_built_ok [OF full_fresh] _ _ s same_codec_refl]
  show ?thesis using s by (simp add: memo_built [OF full_fresh])
qed

text \<open>
  Claim C18. An ephemeral delta is not stored unless the daemon is configured to: publishing it
  leaves index, commits and heads alone however it ends, and an answer says that nothing was
  persisted and names no commit.
\<close>

theorem ephemeral_publish_stores_nothing:
  assumes "pd_delta q = Some d" "\<not> sd_durable d" "\<not> cf_persist_ephemeral (app_config s)"
    and "publish_delta_inner E q s = (s', out)"
  shows "same_ledger s s' \<and> (\<forall>r. out = Done r \<longrightarrow> \<not> pr_persisted r \<and> pr_commit_id r = [])"
proof (cases "ensure_channel_permission (sd_agent_id d) (channel_write (sd_channel d)) s")
  case (Inl e)
  then show ?thesis using assms by (auto simp: publish_delta_inner_def)
next
  case perm: (Inr u)
  let ?d = "normalize_delta E d"
  obtain t r where t: "prepare_payload E (sd_payload ?d) s = (t, r)"
    by (cases "prepare_payload E (sd_payload ?d) s")
  have same: "same_ledger s t" "app_config t = app_config s"
    using prepare_payload_ledger(1) [of s E "sd_payload ?d"] prepare_payload_ledger(2) [of E "sd_payload ?d" s] t
    by simp_all
  have "same_ledger s t'" if "send_broadcast E e [] t = (t', u)" for e t' u
    using same(1) send_broadcast_simps [of E e "[]" t] that by (simp add: same_ledger_def)
  then have b: "same_ledger s (fst (after (send_broadcast E e [] t) (\<lambda>_ s. (s, Done y))))" for e and y :: publish_delta_response
    by (cases "send_broadcast E e [] t"; cases "snd (send_broadcast E e [] t)") auto
  show ?thesis
  proof (cases r)
    case (Done x)
    obtain p report refs where x: "x = (p, report, refs)" by (cases x)
    show ?thesis
      using assms perm t Done x same(2) b [of "?d\<lparr>sd_payload := Some p\<rparr>"
          "\<lparr>pr_delta_id = sd_delta_id ?d, pr_commit_id = [], pr_accepted = True, pr_persisted = False,
            pr_warning = [], pr_redaction_report = Some report\<rparr>"]
      by (auto simp: publish_delta_inner_def Let_def after_Done)
  qed (use assms perm t same(1) in \<open>auto simp: publish_delta_inner_def Let_def\<close>)
qed

theorem ephemeral_publish_stores_nothing_witness:
  "same_ledger subscribed (fst (publish_delta_inner memo_env (memo False) subscribed))
     \<and> qu_items (queue_of (app_bus (fst (publish_delta_inner memo_env (memo False) subscribed))) 1)
         = [delivered (memo_delta False) []]"
proof -
  obtain s r where s: "publish_delta_inner memo_env (memo False) subscribed = (s, r)"
    by (cases "publish_delta_inner memo_env (memo False) subscribed")
  have "qu_items (queue_of (app_bus full) 1) = [delivered (memo_delta False) []]"
    by (simp add: full_def subscribed_def send_broadcast_def broadcast_def Let_def split_beta
      grpc_subscribe_def subscribe_def initial_state_def new_state_def new_bus_def fresh_queue_def clamp_def
      send_one_def try_send_def set_queue_def targets_of_def subscription_matches_def filter_matches_def
      channel_pattern_matches_def queue_of_def push_recent_def update_channel_def memo_delta_def)
  then show ?thesis
    using ephemeral_publish_stores_nothing [OF _ _ _ s] s publish_ephemeral_memo [OF subscribed_config]
    by (simp add: subscribed_config full_def)
qed

text \<open>Replay in the states that a daemon reaches.\<close>

lemma reached_acyclic:
  assumes "daemon_steps E0 lossy (initial_state config) s" "same_codec E E0"
  shows "acyclic (hist_edges (history E (app_store s)))"
proof -
  note ok = reached [OF assms]
  have l: "ledger_ok E0 (ledger_of s)" using ok(1) by (simp add: daemon_ok_def)
  have "hist_edges (history E (app_store s)) \<subseteq> edges (dg_parents (app_dag s))"
    using l ok(3) by (auto simp: hist_edges_def edges_def ledger_ok_def ledger_of_def)
  then show ?thesis using l by (auto simp: ledger_ok_def ledger_of_def dag_ok_def intro: acyclic_subset)
qed

lemma reached_replay:
  assumes "daemon_steps E0 False (initial_state config) s" "same_codec E E0"
    and "\<And>i. db_fault E (DbGetCommit i) = None" "\<And>v. is_ok (json_print E v)"
    and "get_commit_inner E (rq_commit_id q) s = Inr c" "replay_mode_allowed q"
  shows "\<exists>r. replay_inner E q s = Some (Inr r)
     \<and> set (rs_provenance_commit_ids r) = (edges (dg_parents (app_dag s)))\<^sup>* `` {rq_commit_id q}"
proof -
  note ok = reached [OF assms(1,2)]
  have "daemon_exact E0 s" using exact_life.steps_inv [OF assms(1) daemon_exact_initial] .
  then have l: "ledger_ok E0 (ledger_of s)" "ledger_complete E0 (ledger_of s)"
    by (simp_all add: daemon_exact_def daemon_ok_def)
  have e: "hist_edges (history E (app_store s)) = edges (dg_parents (app_dag s))"
    using complete_replayable(1) [OF l] ok(3) by (simp add: ledger_of_def)
  have "replayable E (app_store s)"
    using complete_replayable(2) [OF l] ok(3) codec_cong(1,3) [OF assms(2)]
    by (simp add: replayable_def ledger_of_def)
  moreover have "history E (app_store s) (rq_commit_id q) = Some c"
    using assms(5) ok(2) by (simp add: get_commit_inner_Inr)
  ultimately obtain cs where cs:
    "replay_inner E q s = Some (replay_result_of E (rq_commit_id q) (sort_key replay_key cs))"
    "cm_commit_id ` set cs = (edges (dg_parents (app_dag s)))\<^sup>* `` {rq_commit_id q}"
    using replay_ok [OF _ assms(3) _ le_SucI [OF order_refl] assms(6), of "app_store s" c]
    unfolding replay_inner_def e by metis
  obtain bs where "json_print E (replay_state E (sort_key replay_key cs)) = Inr bs"
    using assms(4) by (rule is_okE)
  then have "\<exists>r. replay_result_of E (rq_commit_id q) (sort_key replay_key cs) = Inr r
      \<and> set (rs_provenance_commit_ids r) = cm_commit_id ` set cs"
    by (simp add: replay_result_of_def)
  with cs show ?thesis by auto
qed

text \<open>
  Claim C16. Replay does not loop: in every state that a daemon reaches, through any requests, lost
  writes and restarts, and whatever fails while it reads, the recursion of replay comes to an end,
  nested at most one level deeper than there are stored commits. Where no write was lost, the reads
  succeed and JSON can be printed, replay of a stored commit succeeds and names exactly the
  ancestors that the index in memory records. But it does nest as deep as the history: replay with
  \<open>f\<close> levels succeeds only if every chain of parents from the commit has fewer than \<open>f\<close> edges.
  What a level takes of the stack of its thread, and how long the walk takes, is not modelled.
\<close>

theorem reachable_replay_returns:
  assumes "daemon_steps E0 lossy (initial_state config) s" "same_codec E E0"
  shows "replay_inner E q s \<noteq> None
     \<and> (\<not> lossy \<and> (\<forall>i. db_fault E (DbGetCommit i) = None) \<and> (\<forall>v. is_ok (json_print E v))
          \<and> get_commit_inner E (rq_commit_id q) s = Inr c \<and> replay_mode_allowed q
        \<longrightarrow> (\<exists>r. replay_inner E q s = Some (Inr r)
               \<and> set (rs_provenance_commit_ids r) = (edges (dg_parents (app_dag s)))\<^sup>* `` {rq_commit_id q}))
     \<and> (\<forall>f r p n. replay E (app_store s) f q = Some (Inr r) \<and> (\<forall>i. db_fault E (DbGetCommit i) = None)
          \<and> (rq_commit_id q, p) \<in> hist_edges (history E (app_store s)) ^^ n \<longrightarrow> n < f)"
proof (intro conjI impI allI)
  note ok = reached [OF assms]
  show "replay_inner E q s \<noteq> None"
    unfolding replay_inner_def using ok(2) reached_acyclic [OF assms] by (rule replay_returns) simp
  show "\<exists>r. replay_inner E q s = Some (Inr r)
      \<and> set (rs_provenance_commit_ids r) = (edges (dg_parents (app_dag s)))\<^sup>* `` {rq_commit_id q}"
    if a: "\<not> lossy \<and> (\<forall>i. db_fault E (DbGetCommit i) = None) \<and> (\<forall>v. is_ok (json_print E v))
      \<and> get_commit_inner E (rq_commit_id q) s = Inr c \<and> replay_mode_allowed q"
    using reached_replay [of E0 config s E q c] assms a by auto
  show "n < f" if "replay E (app_store s) f q = Some (Inr r) \<and> (\<forall>i. db_fault E (DbGetCommit i) = None)
      \<and> (rq_commit_id q, p) \<in> hist_edges (history E (app_store s)) ^^ n" for f r p n
    using replay_nests [of E "app_store s" f q r p n] ok(2) that by simp
qed

theorem reachable_replay_returns_witness:
  "\<exists>s r. replay_inner memo_env \<lparr>rq_commit_id = cm_commit_id memo_commit, rq_mode = 1,
       rq_confirm_reexecute_tools = False\<rparr> s = Some (Inr r)
     \<and> cm_commit_id memo_commit \<in> set (rs_provenance_commit_ids r)"
proof -
  let ?q = "\<lparr>rq_commit_id = cm_commit_id memo_commit, rq_mode = 1, rq_confirm_reexecute_tools = False\<rparr>"
  obtain s r where s: "publish_delta_inner memo_env (memo True) (initial_state open_config) = (s, Done r)"
    "pr_persisted r" "daemon_steps memo_env False (initial_state open_config) s"
    by (rule memo_daemon)
  have "get_commit_inner memo_env (cm_commit_id memo_commit) s = Inr memo_commit"
    using memo_read [OF s(1,2)] by (simp add: get_commit_inner_Inr persisted_def)
  then obtain x where "replay_inner memo_env ?q s = Some (Inr x)"
      "set (rs_provenance_commit_ids x) = (edges (dg_parents (app_dag s)))\<^sup>* `` {cm_commit_id memo_commit}"
    using reachable_replay_returns [OF s(3) same_codec_refl, of ?q memo_commit]
    by (auto simp: replay_mode_allowed_def replay_mode_of_def)
  then have "replay_inner memo_env ?q s = Some (Inr x) \<and> cm_commit_id memo_commit \<in> set (rs_provenance_commit_ids x)"
    by simp
  then show ?thesis by blast
qed

text \<open>
  Claim C15. The daemon comes back: from a state reached without lost writes, where every commit
  follows its parents in the order of the start-up query, and with a configuration and a disk that
  pass the checks of \<open>run\<close>, \<open>start\<close> succeeds. Every commit and every head is as before, every
  parent list of the index too, and no agent has a grant until it registers again.
\<close>

theorem restart_resumes:
  assumes "daemon_steps E0 False (initial_state config) s" "same_codec E E0"
    and "prepare E rocksdb config' = Inr ()" "validate_network_policy config' = Inr ()"
    and "db_fault E DbOpen = None" "db_fault E DbListCommits = None"
    and "query_order_grows (history E0 (app_store s))"
  shows "\<exists>s'. start E rocksdb config' (app_store s) = Inr s'
     \<and> (\<forall>E' i. get_commit_inner E' i s' = get_commit_inner E' i s)
     \<and> (\<forall>E' r t a c. get_head E' (app_store s') r t a c = get_head E' (app_store s) r t a c)
     \<and> (\<forall>i. map_of (dg_parents (app_dag s')) i = map_of (dg_parents (app_dag s)) i)
     \<and> app_grants s' = []"
proof -
  have "daemon_exact E0 s" using exact_life.steps_inv [OF assms(1) daemon_exact_initial] .
  from start_resumes [OF this assms(2-7)] obtain s' where "start E rocksdb config' (app_store s) = Inr s'"
    "st_commits (app_store s') = st_commits (app_store s)" "st_heads (app_store s') = st_heads (app_store s)"
    "\<forall>i. map_of (dg_parents (app_dag s')) i = map_of (dg_parents (app_dag s)) i" "app_grants s' = []"
    by blast
  then show ?thesis
    by (auto simp: get_commit_inner_def get_commit_def get_head_def intro!: exI [of _ s'])
qed

theorem restart_resumes_witness:
  "\<exists>db s'. start memo_env False open_config db = Inr s'
     \<and> get_commit_inner memo_env (cm_commit_id memo_commit) s' = Inr memo_commit \<and> app_grants s' = []"
proof -
  obtain s r where s: "publish_delta_inner memo_env (memo True) (initial_state open_config) = (s, Done r)"
    "pr_persisted r" "daemon_steps memo_env False (initial_state open_config) s"
    by (rule memo_daemon)
  obtain s' where s': "start memo_env False open_config (app_store s) = Inr s'"
    "get_commit_inner memo_env (cm_commit_id memo_commit) s' = get_commit_inner memo_env (cm_commit_id memo_commit) s"
    "app_grants s' = []"
    using restart_resumes [OF s(3) same_codec_refl open_config_starts memo_env_simps(1) memo_env_simps(1)
      memo_grows] by blast
  moreover have "get_commit_inner memo_env (cm_commit_id memo_commit) s = Inr memo_commit"
    using memo_read [OF s(1,2)] by (simp add: get_commit_inner_Inr persisted_def)
  ultimately show ?thesis by metis
qed

end
